(* ===== verification/Prelude.thy ===== *)
theory Prelude
  imports Main "HOL-Library.Word"
begin

text \<open>
  Shared vocabulary of the development: the machine integers and byte strings of the
  Rust code, \<open>Result\<close> values as sums with the \<open>?\<close> operator as \<open>res_bind\<close>, operations on a
  mutable receiver (\<open>&mut self\<close> returning \<open>Result\<close>) as functions from the state to a
  result and the new state with \<open>act_bind\<close> for \<open>?\<close>, panics as a separate outcome, and the
  big-endian conversions \<open>to_be_bytes\<close> / \<open>from_be_bytes\<close> of the standard library with
  their round trips.
\<close>

unbundle bit_operations_syntax

section \<open>Types\<close>

type_synonym u8 = "8 word"
type_synonym u16 = "16 word"
type_synonym u32 = "32 word"
type_synonym u64 = "64 word"

text \<open>An \<open>i64\<close> is its 64-bit two's complement pattern; \<open>sint\<close> reads its value.\<close>

type_synonym i64 = "64 word"

type_synonym bytes = "u8 list"

text \<open>A Rust \<open>str\<close> is its UTF-8 bytes; \<open>ascii\<close> gives the bytes of a source literal.\<close>

type_synonym rstr = "u8 list"

definition ascii :: "string \<Rightarrow> rstr" where
  "ascii s = map of_char s"

text \<open>Collections that the component theories extend and the proofs pass to \<open>simp\<close>.\<close>

named_theorems wire_simps \<open>unfoldings of decoders and encoders\<close>
named_theorems step_simps \<open>unfoldings of state-changing operations\<close>

section \<open>Results\<close>

text \<open>\<open>Result<T, E>\<close> is \<open>'e + 'a\<close> with \<open>Inl\<close> for \<open>Err\<close> and \<open>Inr\<close> for \<open>Ok\<close>.\<close>

definition res_bind :: "'e + 'a \<Rightarrow> ('a \<Rightarrow> 'e + 'b) \<Rightarrow> 'e + 'b" where
  "res_bind m f = (case m of Inl e \<Rightarrow> Inl e | Inr a \<Rightarrow> f a)"

definition res_map_err :: "('e \<Rightarrow> 'f) \<Rightarrow> 'e + 'a \<Rightarrow> 'f + 'a" where
  "res_map_err g m = (case m of Inl e \<Rightarrow> Inl (g e) | Inr a \<Rightarrow> Inr a)"

definition res_map :: "('a \<Rightarrow> 'b) \<Rightarrow> 'e + 'a \<Rightarrow> 'e + 'b" where
  "res_map g m = (case m of Inl e \<Rightarrow> Inl e | Inr a \<Rightarrow> Inr (g a))"

lemma res_simps [simp]:
  "res_bind (Inl e) f = Inl e"
  "res_bind (Inr a) f = f a"
  "res_map_err g (Inl e) = Inl (g e)"
  "res_map_err g (Inr a) = Inr a"
  "res_map h (Inl e) = Inl e"
  "res_map h (Inr a) = Inr (h a)"
  by (simp_all add: res_bind_def res_map_err_def res_map_def)

lemma res_bind_eq_Inr: "res_bind m f = Inr b \<longleftrightarrow> (\<exists>a. m = Inr a \<and> f a = Inr b)"
  by (cases m) simp_all

lemma res_map_err_eq_Inr [simp]: "res_map_err g m = Inr a \<longleftrightarrow> m = Inr a"
  by (cases m) simp_all

lemma res_map_eq_Inr: "res_map g m = Inr b \<longleftrightarrow> (\<exists>a. m = Inr a \<and> b = g a)"
  by (cases m) auto

text \<open>
  The outcome of code that can fail and can also panic (a slice out of range, an
  \<open>unwrap\<close> of an error): the error side of the sum distinguishes the two.
\<close>

datatype 'e fault = Fail 'e | Panic

text \<open>\<open>slice.get(i)\<close>.\<close>

definition list_get :: "'a list \<Rightarrow> nat \<Rightarrow> 'a option" where
  "list_get xs i = (if i < length xs then Some (xs ! i) else None)"

lemma list_get_Some: "list_get xs i = Some x \<longleftrightarrow> i < length xs \<and> x = xs ! i"
  by (auto simp: list_get_def)

lemma list_get_None: "list_get xs i = None \<longleftrightarrow> length xs \<le> i"
  by (auto simp: list_get_def)

section \<open>Operations on a mutable receiver\<close>

type_synonym ('s, 'e, 'a) action = "'s \<Rightarrow> ('e + 'a) \<times> 's"

definition act_ok :: "'a \<Rightarrow> ('s, 'e, 'a) action" where
  "act_ok a s = (Inr a, s)"

definition act_err :: "'e \<Rightarrow> ('s, 'e, 'a) action" where
  "act_err e s = (Inl e, s)"

definition act_lift :: "'e + 'a \<Rightarrow> ('s, 'e, 'a) action" where
  "act_lift r s = (r, s)"

definition act_bind :: "('s, 'e, 'a) action \<Rightarrow> ('a \<Rightarrow> ('s, 'e, 'b) action) \<Rightarrow> ('s, 'e, 'b) action" where
  "act_bind m f s = (case m s of (Inl e, s') \<Rightarrow> (Inl e, s') | (Inr a, s') \<Rightarrow> f a s')"

definition act_map_err :: "('e \<Rightarrow> 'f) \<Rightarrow> ('s, 'e, 'a) action \<Rightarrow> ('s, 'f, 'a) action" where
  "act_map_err g m s = (case m s of (r, s') \<Rightarrow> (res_map_err g r, s'))"

lemma act_simps [simp]:
  "act_ok a s = (Inr a, s)"
  "act_err e s = (Inl e, s)"
  "act_lift r s = (r, s)"
  by (simp_all add: act_ok_def act_err_def act_lift_def)

lemma act_bind_Inl: "m s = (Inl e, s') \<Longrightarrow> act_bind m f s = (Inl e, s')"
  by (simp add: act_bind_def)

lemma act_bind_Inr: "m s = (Inr a, s') \<Longrightarrow> act_bind m f s = f a s'"
  by (simp add: act_bind_def)

lemma act_bind_step [simp]:
  "act_bind (act_ok a) f s = f a s"
  "act_bind (act_err e) f s = (Inl e, s)"
  "act_bind (act_lift (Inl e)) f s = (Inl e, s)"
  "act_bind (act_lift (Inr a)) f s = f a s"
  by (simp_all add: act_bind_def)

lemma act_bind_eq_Inr:
  "act_bind m f s = (Inr b, t) \<longleftrightarrow> (\<exists>a s'. m s = (Inr a, s') \<and> f a s' = (Inr b, t))"
  by (auto simp: act_bind_def split: prod.splits sum.splits)

lemma act_bind_eq_Inl:
  "act_bind m f s = (Inl e, t) \<longleftrightarrow>
     m s = (Inl e, t) \<or> (\<exists>a s'. m s = (Inr a, s') \<and> f a s' = (Inl e, t))"
  by (auto simp: act_bind_def split: prod.splits sum.splits)

lemma act_map_err_eq_Inr [simp]: "act_map_err g m s = (Inr a, t) \<longleftrightarrow> m s = (Inr a, t)"
  by (auto simp: act_map_err_def split: prod.splits)

lemma act_map_err_eq_Inl: "act_map_err g m s = (Inl e, t) \<longleftrightarrow> (\<exists>e'. m s = (Inl e', t) \<and> e = g e')"
  by (cases "m s"; cases "fst (m s)") (auto simp: act_map_err_def)

lemma act_bind_cong: "m s = m' s \<Longrightarrow> (\<And>a t. m' s = (Inr a, t) \<Longrightarrow> f a t = f' a t) \<Longrightarrow> act_bind m f s = act_bind m' f' s"
  by (auto simp: act_bind_def split: prod.splits sum.splits)

definition act_modify :: "('s \<Rightarrow> 's) \<Rightarrow> ('s, 'e, unit) action" where
  "act_modify f s = (Inr (), f s)"

text \<open>
  Operations with a loop that may not end: \<open>None\<close> is the run that never returns.
\<close>

type_synonym ('s, 'e, 'a) proc = "'s \<Rightarrow> (('e + 'a) \<times> 's) option"

definition proc_of :: "('s, 'e, 'a) action \<Rightarrow> ('s, 'e, 'a) proc" where
  "proc_of m s = Some (m s)"

definition proc_bind :: "('s, 'e, 'a) proc \<Rightarrow> ('a \<Rightarrow> ('s, 'e, 'b) proc) \<Rightarrow> ('s, 'e, 'b) proc" where
  "proc_bind m f s =
     (case m s of
        None \<Rightarrow> None
      | Some (Inl e, s') \<Rightarrow> Some (Inl e, s')
      | Some (Inr a, s') \<Rightarrow> f a s')"

lemma proc_bind_step:
  "m s = None \<Longrightarrow> proc_bind m f s = None"
  "m s = Some (Inl e, s') \<Longrightarrow> proc_bind m f s = Some (Inl e, s')"
  "m s = Some (Inr a, s') \<Longrightarrow> proc_bind m f s = f a s'"
  by (simp_all add: proc_bind_def)

lemma proc_bind_of: "proc_bind (proc_of m) f s = (case m s of (Inl e, s') \<Rightarrow> Some (Inl e, s') | (Inr a, s') \<Rightarrow> f a s')"
  by (simp add: proc_bind_def proc_of_def)

lemma proc_bind_Some:
  "proc_bind m f s = Some (Inr b, t) \<longleftrightarrow> (\<exists>a s'. m s = Some (Inr a, s') \<and> f a s' = Some (Inr b, t))"
  by (auto simp: proc_bind_def split: option.splits prod.splits sum.splits)

lemma proc_of_act_bind: "proc_of (act_bind m f) = proc_bind (proc_of m) (\<lambda>a. proc_of (f a))"
  by (auto simp: proc_of_def act_bind_def proc_bind_def fun_eq_iff split: prod.split sum.split)

text \<open>An operation that returns from every state with a property and keeps it unless it fails.\<close>

definition returns :: "('s \<Rightarrow> bool) \<Rightarrow> ('s, 'e, 'a) proc \<Rightarrow> bool" where
  "returns P p \<longleftrightarrow> (\<forall>s. P s \<longrightarrow> (\<exists>r s'. p s = Some (r, s') \<and> (isl r \<or> P s')))"

lemma returnsD: "returns P p \<Longrightarrow> P s \<Longrightarrow> \<exists>r s'. p s = Some (r, s') \<and> (isl r \<or> P s')"
  by (simp add: returns_def)

lemma returns_bind: "returns P p \<Longrightarrow> (\<And>a. returns P (f a)) \<Longrightarrow> returns P (proc_bind p f)"
  unfolding returns_def proc_bind_def
  by (fastforce split: sum.split)

lemma returns_of: "(\<And>s r s'. P s \<Longrightarrow> m s = (r, s') \<Longrightarrow> isl r \<or> P s') \<Longrightarrow> returns P (proc_of m)"
  by (metis proc_of_def returns_def surj_pair)

lemma returns_ok: "returns P (proc_of (act_ok a))" "returns P (proc_of (act_err e))" "returns P (proc_of (act_lift r))"
  by (simp_all add: returns_def proc_of_def)

section \<open>Big-endian conversions\<close>

text \<open>\<open>to_be n w\<close> is \<open>w.to_be_bytes()\<close> for a word of \<open>n\<close> bytes, \<open>from_be\<close> is \<open>from_be_bytes\<close>.\<close>

fun to_be :: "nat \<Rightarrow> 'a::len word \<Rightarrow> bytes" where
  "to_be 0 w = []"
| "to_be (Suc n) w = ucast (drop_bit (8 * n) w) # to_be n w"

definition be_step :: "'a::len word \<Rightarrow> u8 \<Rightarrow> 'a word" where
  "be_step acc b = push_bit 8 acc OR ucast b"

definition from_be :: "bytes \<Rightarrow> 'a::len word" where
  "from_be bs = foldl be_step 0 bs"

lemma length_to_be [simp]: "length (to_be n w) = n"
  by (induction n) simp_all

lemma be_step_drop: "be_step (drop_bit (8 * Suc n) w) (ucast (drop_bit (8 * n) w)) = drop_bit (8 * n) w"
  for w :: "'a::len word"
  unfolding be_step_def
  by (rule bit_word_eqI) (auto simp: bit_simps algebra_simps not_le)

lemma foldl_to_be: "foldl be_step (drop_bit (8 * n) w) (to_be n w) = w"
  by (induction n) (simp_all add: be_step_drop del: mult_Suc_right)

lemma from_be_to_be: "LENGTH('a) \<le> 8 * n \<Longrightarrow> from_be (to_be n w) = w" for w :: "'a::len word"
proof -
  assume "LENGTH('a) \<le> 8 * n"
  then have "drop_bit (8 * n) w = 0"
    by (intro bit_word_eqI) (auto simp: bit_simps dest: bit_imp_le_length)
  then show ?thesis
    using foldl_to_be [of n w] by (simp add: from_be_def)
qed

lemma to_be_Suc_snoc: "to_be (Suc n) w = to_be n (drop_bit 8 w) @ [ucast w]"
  by (induction n) (simp_all add: algebra_simps)

lemma from_be_snoc: "from_be (bs @ [b]) = be_step (from_be bs) b"
  by (simp add: from_be_def)

lemma from_be_bit_bound: "bit (from_be bs :: 'a::len word) k \<Longrightarrow> k < 8 * length bs"
proof (induction bs arbitrary: k rule: rev_induct)
  case Nil
  then show ?case by (simp add: from_be_def)
next
  case (snoc b bs)
  from snoc.prems have "8 \<le> k \<and> bit (from_be bs :: 'a word) (k - 8) \<or> bit b k"
    by (auto simp: from_be_snoc be_step_def bit_simps)
  then show ?case
  proof
    assume "8 \<le> k \<and> bit (from_be bs :: 'a word) (k - 8)"
    then show ?thesis using snoc.IH [of "k - 8"] by auto
  next
    assume "bit b k"
    then show ?thesis by (auto dest: bit_imp_le_length)
  qed
qed

lemma to_be_from_be:
  "8 * length bs \<le> LENGTH('a) \<Longrightarrow> to_be (length bs) (from_be bs :: 'a::len word) = bs"
proof (induction bs rule: rev_induct)
  case Nil
  then show ?case by simp
next
  case (snoc b bs)
  let ?w = "from_be bs :: 'a word"
  have low: "ucast (be_step ?w b) = b"
    by (rule bit_word_eqI) (use snoc.prems in \<open>auto simp: be_step_def bit_simps\<close>)
  have high: "drop_bit 8 (be_step ?w b) = ?w"
  proof (rule bit_word_eqI)
    fix k assume "k < LENGTH('a)"
    moreover have "\<not> bit b (k + 8)" by (auto dest: bit_imp_le_length)
    moreover have "bit ?w k \<Longrightarrow> k + 8 < LENGTH('a)"
      using from_be_bit_bound [of bs k] snoc.prems by fastforce
    ultimately show "bit (drop_bit 8 (be_step ?w b)) k = bit ?w k"
      by (auto simp: be_step_def bit_simps add.commute)
  qed
  show ?case
    using snoc by (simp add: from_be_snoc to_be_Suc_snoc low high del: to_be.simps)
qed

lemma to_be_inj: "LENGTH('a) \<le> 8 * n \<Longrightarrow> to_be n v = to_be n w \<longleftrightarrow> v = w" for w :: "'a::len word"
  by (metis from_be_to_be)

text \<open>\<open>u16::try_from(n)\<close> for a \<open>usize\<close>, and the two-byte forms the frames use.\<close>

definition u16_try_from :: "nat \<Rightarrow> u16 option" where
  "u16_try_from n = (if n \<le> 65535 then Some (word_of_nat n) else None)"

lemma u16_try_from_Some: "u16_try_from n = Some w \<longleftrightarrow> n \<le> 65535 \<and> w = word_of_nat n"
  by (auto simp: u16_try_from_def)

lemma unat_of_nat_u16: "n \<le> 65535 \<Longrightarrow> unat (word_of_nat n :: u16) = n"
  by (simp add: unat_of_nat)

lemma unat_u16_le: "unat (w :: u16) \<le> 65535"
proof -
  have "unat w < 2 ^ LENGTH(16)" by (rule unsigned_less)
  then show ?thesis by simp
qed

lemma to_be_2_eq: "to_be 2 w = [ucast (drop_bit 8 w), ucast w]"
  by (simp add: numeral_2_eq_2)

lemma from_be_2: "from_be (to_be 2 w) = w" for w :: u16
  by (rule from_be_to_be) simp

lemma from_be_8: "from_be (to_be 8 w) = w" for w :: u64
  by (rule from_be_to_be) simp

lemma to_be_2: "to_be 2 (from_be [a, b] :: u16) = [a, b]"
  using to_be_from_be [of "[a, b]", where ?'a = 16] by (simp add: numeral_2_eq_2)

lemma to_be_8: "length bs = 8 \<Longrightarrow> to_be 8 (from_be bs :: u64) = bs"
  using to_be_from_be [of bs, where ?'a = 64] by simp

section \<open>Saturating addition\<close>

definition u16_saturating_add :: "u16 \<Rightarrow> u16 \<Rightarrow> u16" where
  "u16_saturating_add a b = (if 65535 < unat a + unat b then 65535 else a + b)"

end
