(* ===== verification/Utf8.thy ===== *)
theory Utf8
  imports Prelude
begin

text \<open>
  \<open>core::str::from_utf8\<close> as the sources use it: the validator of the standard library, which
  reads one scalar value at a time, and the \<open>Utf8Error\<close> it reports (\<open>valid_up_to\<close> and
  \<open>error_len\<close>, the latter \<open>None\<close> when the input ends inside a scalar value). The lemmas say
  how validation distributes over a concatenation, which is what streaming validators
  rely on.
\<close>

record utf8_error =
  valid_up_to :: nat
  error_len :: "nat option"

text \<open>What the validator finds at the front of its input.\<close>

datatype utf8_item = Complete nat | Invalid nat | Truncated

definition is_cont :: "u8 \<Rightarrow> bool" where
  "is_cont b \<longleftrightarrow> 0x80 \<le> b \<and> b \<le> 0xBF"

definition utf8_char_width :: "u8 \<Rightarrow> nat" where
  "utf8_char_width b =
     (if b < 0x80 then 1
      else if 0xC2 \<le> b \<and> b \<le> 0xDF then 2
      else if 0xE0 \<le> b \<and> b \<le> 0xEF then 3
      else if 0xF0 \<le> b \<and> b \<le> 0xF4 then 4
      else 0)"

definition second_of_three :: "u8 \<Rightarrow> u8 \<Rightarrow> bool" where
  "second_of_three f b \<longleftrightarrow>
     (if f = 0xE0 then 0xA0 \<le> b \<and> b \<le> 0xBF
      else if f = 0xED then 0x80 \<le> b \<and> b \<le> 0x9F
      else is_cont b)"

definition second_of_four :: "u8 \<Rightarrow> u8 \<Rightarrow> bool" where
  "second_of_four f b \<longleftrightarrow>
     (if f = 0xF0 then 0x90 \<le> b \<and> b \<le> 0xBF
      else if f = 0xF4 then 0x80 \<le> b \<and> b \<le> 0x8F
      else is_cont b)"

text \<open>The conditions on the bytes after the first, in order; each failure reports its position.\<close>

fun utf8_tail :: "(u8 \<Rightarrow> bool) list \<Rightarrow> nat \<Rightarrow> bytes \<Rightarrow> utf8_item" where
  "utf8_tail [] n bs = Complete n"
| "utf8_tail (c # cs) n [] = Truncated"
| "utf8_tail (c # cs) n (b # bs) = (if c b then utf8_tail cs (Suc n) bs else Invalid n)"

definition utf8_conditions :: "u8 \<Rightarrow> (u8 \<Rightarrow> bool) list option" where
  "utf8_conditions f =
     (if utf8_char_width f = 1 then Some []
      else if utf8_char_width f = 2 then Some [is_cont]
      else if utf8_char_width f = 3 then Some [second_of_three f, is_cont]
      else if utf8_char_width f = 4 then Some [second_of_four f, is_cont, is_cont]
      else None)"

fun utf8_head :: "bytes \<Rightarrow> utf8_item" where
  "utf8_head [] = Truncated"
| "utf8_head (f # bs) =
     (case utf8_conditions f of None \<Rightarrow> Invalid 1 | Some cs \<Rightarrow> utf8_tail cs 1 bs)"

lemma utf8_tail_Complete: "utf8_tail cs n bs = Complete m \<Longrightarrow> m = n + length cs \<and> length cs \<le> length bs"
  by (induction cs n bs rule: utf8_tail.induct) (auto split: if_splits)

lemma utf8_tail_Truncated: "utf8_tail cs n bs = Truncated \<Longrightarrow> length bs < length cs"
  by (induction cs n bs rule: utf8_tail.induct) (auto split: if_splits)

lemma utf8_tail_append:
  "utf8_tail cs n as \<noteq> Truncated \<Longrightarrow> utf8_tail cs n (as @ bs) = utf8_tail cs n as"
  by (induction cs n as rule: utf8_tail.induct) auto

lemma utf8_conditions_length: "utf8_conditions f = Some cs \<Longrightarrow> length cs \<le> 3"
  by (auto simp: utf8_conditions_def split: if_splits)

lemma utf8_head_Complete: "utf8_head bs = Complete m \<Longrightarrow> 0 < m \<and> m \<le> length bs"
  by (cases bs) (auto split: option.splits dest!: utf8_tail_Complete)

lemma utf8_head_Truncated: "utf8_head bs = Truncated \<Longrightarrow> length bs \<le> 3"
  by (cases bs) (fastforce split: option.splits dest: utf8_tail_Truncated utf8_conditions_length)+

lemma utf8_head_append: "utf8_head as \<noteq> Truncated \<Longrightarrow> utf8_head (as @ bs) = utf8_head as"
  by (cases as) (auto simp: utf8_tail_append split: option.splits)

text \<open>
  The whole validator. \<open>off\<close> is the number of bytes already accepted.
\<close>

function utf8_scan :: "nat \<Rightarrow> bytes \<Rightarrow> utf8_error + unit" where
  "utf8_scan off bs =
     (if bs = [] then Inr ()
      else case utf8_head bs of
        Complete n \<Rightarrow> utf8_scan (off + n) (drop n bs)
      | Invalid n \<Rightarrow> Inl \<lparr>valid_up_to = off, error_len = Some n\<rparr>
      | Truncated \<Rightarrow> Inl \<lparr>valid_up_to = off, error_len = None\<rparr>)"
  by pat_completeness auto
termination
  by (relation "measure (\<lambda>(off, bs). length bs)") (auto dest!: utf8_head_Complete)

declare utf8_scan.simps [simp del]

definition from_utf8 :: "bytes \<Rightarrow> utf8_error + rstr" where
  "from_utf8 bs = res_map (\<lambda>_. bs) (utf8_scan 0 bs)"

definition is_utf8 :: "bytes \<Rightarrow> bool" where
  "is_utf8 bs \<longleftrightarrow> utf8_scan 0 bs = Inr ()"

text \<open>
  The unread rest of a scan: empty when the input is valid, the bytes of an unfinished
  scalar value when it ends inside one, \<open>None\<close> when it is invalid.
\<close>

function utf8_rest :: "bytes \<Rightarrow> bytes option" where
  "utf8_rest bs =
     (if bs = [] then Some []
      else case utf8_head bs of
        Complete n \<Rightarrow> utf8_rest (drop n bs)
      | Invalid n \<Rightarrow> None
      | Truncated \<Rightarrow> Some bs)"
  by pat_completeness auto
termination
  by (relation "measure length") (auto dest!: utf8_head_Complete)

declare utf8_rest.simps [simp del]

lemma utf8_rest_Nil [simp]: "utf8_rest [] = Some []"
  by (simp add: utf8_rest.simps)

lemma utf8_scan_rest:
  "utf8_scan off bs =
     (case utf8_rest bs of
        Some t \<Rightarrow> (if t = [] then Inr ()
                   else Inl \<lparr>valid_up_to = off + (length bs - length t), error_len = None\<rparr>)
      | None \<Rightarrow> utf8_scan off bs)
   \<and> (\<forall>t. utf8_rest bs = Some t \<longrightarrow> length t \<le> 3 \<and> length t \<le> length bs \<and> t = drop (length bs - length t) bs)
   \<and> (utf8_rest bs = None \<longrightarrow> (\<exists>k n. utf8_scan off bs = Inl \<lparr>valid_up_to = k, error_len = Some n\<rparr>))"
proof (induction off bs rule: utf8_scan.induct)
  case (1 off bs)
  show ?case
  proof (cases "bs = []")
    case True
    then show ?thesis by (simp add: utf8_scan.simps utf8_rest.simps)
  next
    case nonempty: False
    show ?thesis
    proof (cases "utf8_head bs")
      case (Complete n)
      then have n: "0 < n" "n \<le> length bs" using utf8_head_Complete by auto
      have eqs: "utf8_scan off bs = utf8_scan (off + n) (drop n bs)"
        "utf8_rest bs = utf8_rest (drop n bs)"
        using nonempty Complete by (simp_all add: utf8_scan.simps [of off bs] utf8_rest.simps [of bs])
      from "1.IH" [OF nonempty Complete] n show ?thesis
        unfolding eqs by (auto split: option.splits)
    next
      case (Invalid n)
      with nonempty show ?thesis by (simp add: utf8_scan.simps [of off bs] utf8_rest.simps [of bs])
    next
      case Truncated
      with nonempty show ?thesis
        by (simp add: utf8_scan.simps [of off bs] utf8_rest.simps [of bs] utf8_head_Truncated)
    qed
  qed
qed

lemma utf8_rest_length: "utf8_rest bs = Some t \<Longrightarrow> length t \<le> 3"
  and utf8_rest_suffix: "utf8_rest bs = Some t \<Longrightarrow> t = drop (length bs - length t) bs"
  and utf8_rest_le: "utf8_rest bs = Some t \<Longrightarrow> length t \<le> length bs"
  using conjunct1 [OF conjunct2 [OF utf8_scan_rest [of 0 bs]], rule_format, of t] by simp_all

lemma utf8_scan_Some: "utf8_rest bs = Some t \<Longrightarrow> t \<noteq> [] \<Longrightarrow>
    utf8_scan off bs = Inl \<lparr>valid_up_to = off + (length bs - length t), error_len = None\<rparr>"
  using conjunct1 [OF utf8_scan_rest [of off bs]] by simp

lemma utf8_scan_Nil: "utf8_rest bs = Some [] \<Longrightarrow> utf8_scan off bs = Inr ()"
  using conjunct1 [OF utf8_scan_rest [of off bs]] by simp

lemma utf8_scan_None: "utf8_rest bs = None \<Longrightarrow>
    \<exists>k n. utf8_scan off bs = Inl \<lparr>valid_up_to = k, error_len = Some n\<rparr>"
  using conjunct2 [OF conjunct2 [OF utf8_scan_rest [of off bs]]] by simp

lemma is_utf8_rest: "is_utf8 bs \<longleftrightarrow> utf8_rest bs = Some []"
proof (cases "utf8_rest bs")
  case None
  then show ?thesis using utf8_scan_None [of bs 0] by (auto simp: is_utf8_def)
next
  case (Some t)
  then show ?thesis
    by (cases "t = []") (simp_all add: is_utf8_def utf8_scan_Nil utf8_scan_Some)
qed

lemma from_utf8_eq_Inr: "from_utf8 bs = Inr s \<longleftrightarrow> is_utf8 bs \<and> s = bs"
  by (auto simp: from_utf8_def is_utf8_def res_map_eq_Inr)

text \<open>Validation in pieces: what is left of the first piece goes in front of the second.\<close>

lemma utf8_rest_append:
  "utf8_rest (as @ bs) = (case utf8_rest as of None \<Rightarrow> None | Some t \<Rightarrow> utf8_rest (t @ bs))"
proof (induction as rule: utf8_rest.induct)
  case (1 as)
  show ?case
  proof (cases "as = []")
    case True
    then show ?thesis by simp
  next
    case nonempty: False
    show ?thesis
    proof (cases "utf8_head as")
      case (Complete n)
      then have "utf8_head (as @ bs) = Complete n" "n \<le> length as"
        using utf8_head_append [of as bs] utf8_head_Complete by auto
      with nonempty Complete have "utf8_rest (as @ bs) = utf8_rest (drop n as @ bs)"
        "utf8_rest as = utf8_rest (drop n as)"
        by (simp_all add: utf8_rest.simps [of "as @ bs"] utf8_rest.simps [of as])
      with "1.IH" [OF nonempty Complete] show ?thesis by simp
    next
      case (Invalid n)
      then have "utf8_head (as @ bs) = Invalid n"
        using utf8_head_append [of as bs] by auto
      with nonempty Invalid show ?thesis
        by (simp add: utf8_rest.simps [of "as @ bs"] utf8_rest.simps [of as])
    next
      case Truncated
      with nonempty show ?thesis by (simp add: utf8_rest.simps [of as])
    qed
  qed
qed

lemma is_utf8_append: "is_utf8 as \<Longrightarrow> is_utf8 bs \<Longrightarrow> is_utf8 (as @ bs)"
  by (simp add: is_utf8_rest utf8_rest_append)

lemma is_utf8_Nil [simp]: "is_utf8 []"
  by (simp add: is_utf8_rest)

lemma utf8_head_ascii: "b < 0x80 \<Longrightarrow> utf8_head (b # bs) = Complete 1"
  by (simp add: utf8_conditions_def utf8_char_width_def)

lemma is_utf8_ascii: "\<forall>b \<in> set bs. b < 0x80 \<Longrightarrow> is_utf8 bs"
proof (induction bs)
  case (Cons b bs)
  then show ?case
    by (simp add: is_utf8_rest utf8_rest.simps [of "b # bs"] utf8_head_ascii del: utf8_head.simps)
qed simp

end
