(* ===== verification/Opcodes.thy ===== *)
theory Opcodes
  imports Utf8
begin

text \<open>
  Opcodes (\<open>crates/qup-core/src/types/opcode.rs\<close>) and the two error types
  (\<open>types/error.rs\<close>): classification of the opcode byte by ASCII range, the set of defined
  opcodes, the response each request is answered with, and the validation of an opcode for
  a wire direction. Byte literals \<open>b'X'\<close> are written as their ASCII codes.
\<close>

section \<open>Data\<close>

datatype wire_direction = ClientToNode | NodeToClient

datatype opcode_family =
    Request_Class
  | OrdinaryResponse_Class
  | ErrorResponse_Class
  | ChangedNotification_Class
  | CompatibilityRequest_Class
  | CompatibilityResponse_Class
  | Reserved_Class

datatype opcode = Opcode (as_u8: u8)

definition PING :: opcode where "PING = Opcode 0x50"
definition IDENTIFY :: opcode where "IDENTIFY = Opcode 0x49"
definition GETKEYTABLEN :: opcode where "GETKEYTABLEN = Opcode 0x43"
definition GETKEY :: opcode where "GETKEY = Opcode 0x53"
definition GET :: opcode where "GET = Opcode 0x47"
definition WRITE :: opcode where "WRITE = Opcode 0x57"
definition OBSERVE :: opcode where "OBSERVE = Opcode 0x4E"
definition UNOBSERVE :: opcode where "UNOBSERVE = Opcode 0x55"
definition GETCAPS :: opcode where "GETCAPS = Opcode 0x3F"
definition OK :: opcode where "OK = Opcode 0x6B"
definition IDENTIFIED :: opcode where "IDENTIFIED = Opcode 0x69"
definition KEYTABLEN :: opcode where "KEYTABLEN = Opcode 0x63"
definition KEY :: opcode where "KEY = Opcode 0x73"
definition VALUE :: opcode where "VALUE = Opcode 0x67"
definition WRITTEN :: opcode where "WRITTEN = Opcode 0x77"
definition CAPS :: opcode where "CAPS = Opcode 0x3A"
definition ERROR :: opcode where "ERROR = Opcode 0x40"
definition CHANGED :: opcode where "CHANGED = Opcode 0x21"

lemmas request_opcode_defs =
  PING_def IDENTIFY_def GETKEYTABLEN_def GETKEY_def GET_def WRITE_def OBSERVE_def
  UNOBSERVE_def GETCAPS_def

lemmas response_opcode_defs =
  OK_def IDENTIFIED_def KEYTABLEN_def KEY_def VALUE_def WRITTEN_def CAPS_def ERROR_def
  CHANGED_def

lemmas opcode_defs = request_opcode_defs response_opcode_defs

text \<open>Frame-level violations.\<close>

datatype frame_error =
    Truncated_Frame
  | LengthMismatch u16 nat
  | ReservedOpcode opcode
  | UnknownOpcode opcode
  | InvalidDirection opcode wire_direction
  | ChecksumMismatch u8

text \<open>Payload-level violations.\<close>

datatype payload_error =
    InvalidLength opcode nat nat
  | InternalLengthExceedsPayload
  | TrailingBytes nat
  | InvalidUtf8 utf8_error
  | StringContainsNul
  | InvalidBool u8
  | InvalidKeyFlags u8
  | InvalidValueKind u8
  | UnknownPayloadOpcode opcode
  | MalformedCaps

section \<open>Classification and validation\<close>

definition opcode_class :: "opcode \<Rightarrow> opcode_family" where
  "opcode_class oc = (let b = as_u8 oc in
     if 0x41 \<le> b \<and> b \<le> 0x5A then Request_Class
     else if 0x61 \<le> b \<and> b \<le> 0x7A then OrdinaryResponse_Class
     else if b = 0x40 then ErrorResponse_Class
     else if b = 0x21 then ChangedNotification_Class
     else if b = 0x3F then CompatibilityRequest_Class
     else if b = 0x3A then CompatibilityResponse_Class
     else Reserved_Class)"

definition is_reserved :: "opcode \<Rightarrow> bool" where
  "is_reserved oc \<longleftrightarrow> opcode_class oc = Reserved_Class"

definition is_ok :: "opcode \<Rightarrow> bool" where
  "is_ok oc \<longleftrightarrow> \<not> is_reserved oc"

definition is_defined :: "opcode \<Rightarrow> bool" where
  "is_defined oc \<longleftrightarrow> as_u8 oc \<in>
     {0x50, 0x49, 0x43, 0x53, 0x47, 0x57, 0x4E, 0x55, 0x3F,
      0x6B, 0x69, 0x63, 0x73, 0x67, 0x77, 0x3A, 0x40, 0x21}"

definition expected_ordinary_response :: "opcode \<Rightarrow> opcode option" where
  "expected_ordinary_response oc = (let b = as_u8 oc in
     if b = 0x50 \<or> b = 0x4E \<or> b = 0x55 then Some OK
     else if b = 0x49 then Some IDENTIFIED
     else if b = 0x43 then Some KEYTABLEN
     else if b = 0x53 then Some KEY
     else if b = 0x47 then Some VALUE
     else if b = 0x57 then Some WRITTEN
     else None)"

definition required_direction :: "opcode \<Rightarrow> wire_direction option" where
  "required_direction oc = (case opcode_class oc of
       Request_Class \<Rightarrow> Some ClientToNode
     | CompatibilityRequest_Class \<Rightarrow> Some ClientToNode
     | OrdinaryResponse_Class \<Rightarrow> Some NodeToClient
     | ErrorResponse_Class \<Rightarrow> Some NodeToClient
     | ChangedNotification_Class \<Rightarrow> Some NodeToClient
     | CompatibilityResponse_Class \<Rightarrow> Some NodeToClient
     | Reserved_Class \<Rightarrow> None)"

definition validate :: "opcode \<Rightarrow> wire_direction \<Rightarrow> frame_error + unit" where
  "validate oc dir =
     (if is_reserved oc then Inl (ReservedOpcode oc)
      else if \<not> is_defined oc then Inl (UnknownOpcode oc)
      else case required_direction oc of
        Some ClientToNode \<Rightarrow>
          (case dir of ClientToNode \<Rightarrow> Inr () | NodeToClient \<Rightarrow> Inl (InvalidDirection oc dir))
      | Some NodeToClient \<Rightarrow>
          (case dir of NodeToClient \<Rightarrow> Inr () | ClientToNode \<Rightarrow> Inl (InvalidDirection oc dir))
      | None \<Rightarrow> Inl (ReservedOpcode oc))"

section \<open>Which opcodes travel in which direction\<close>

definition client_opcodes :: "opcode list" where
  "client_opcodes = [PING, IDENTIFY, GETKEYTABLEN, GETKEY, GET, WRITE, OBSERVE, UNOBSERVE, GETCAPS]"

definition node_opcodes :: "opcode list" where
  "node_opcodes = [OK, IDENTIFIED, KEYTABLEN, KEY, VALUE, WRITTEN, CAPS, ERROR, CHANGED]"

lemma is_defined_iff: "is_defined oc \<longleftrightarrow> oc \<in> set client_opcodes \<union> set node_opcodes"
  by (cases oc) (simp add: is_defined_def client_opcodes_def node_opcodes_def opcode_defs disj_ac)

lemma client_opcodes_direction:
  "\<forall>oc \<in> set client_opcodes. \<not> is_reserved oc \<and> required_direction oc = Some ClientToNode"
  by (simp add: client_opcodes_def opcode_defs is_reserved_def required_direction_def opcode_class_def)

lemma node_opcodes_direction:
  "\<forall>oc \<in> set node_opcodes. \<not> is_reserved oc \<and> required_direction oc = Some NodeToClient"
  by (simp add: node_opcodes_def opcode_defs is_reserved_def required_direction_def opcode_class_def)

definition opcodes_of :: "wire_direction \<Rightarrow> opcode list" where
  "opcodes_of dir = (case dir of ClientToNode \<Rightarrow> client_opcodes | NodeToClient \<Rightarrow> node_opcodes)"

lemma validate_iff: "validate oc dir = Inr () \<longleftrightarrow> oc \<in> set (opcodes_of dir)"
proof
  assume "validate oc dir = Inr ()"
  then show "oc \<in> set (opcodes_of dir)"
    using client_opcodes_direction node_opcodes_direction
    by (auto simp: validate_def is_defined_iff opcodes_of_def
        split: if_splits wire_direction.splits option.splits)
next
  assume "oc \<in> set (opcodes_of dir)"
  then show "validate oc dir = Inr ()"
    using client_opcodes_direction node_opcodes_direction
    by (auto simp: validate_def is_defined_iff opcodes_of_def split: wire_direction.splits)
qed

text \<open>Every ordinary response a request expects is a node opcode that is not \<open>@\<close>, \<open>!\<close> or \<open>:\<close>.\<close>

definition response_table :: "(opcode \<times> opcode) list" where
  "response_table =
     [(PING, OK), (OBSERVE, OK), (UNOBSERVE, OK), (IDENTIFY, IDENTIFIED),
      (GETKEYTABLEN, KEYTABLEN), (GETKEY, KEY), (GET, VALUE), (WRITE, WRITTEN)]"

lemma expected_ordinary_response_table: "expected_ordinary_response oc = map_of response_table oc"
  by (cases oc) (simp add: expected_ordinary_response_def response_table_def opcode_defs Let_def)

lemma response_table_classes:
  "\<forall>(q, r) \<in> set response_table. opcode_class q = Request_Class \<and> opcode_class r = OrdinaryResponse_Class"
  by (simp add: response_table_def opcode_class_def opcode_defs)

lemma expected_ordinary_response_class:
  "expected_ordinary_response oc = Some r \<Longrightarrow>
     opcode_class oc = Request_Class \<and> opcode_class r = OrdinaryResponse_Class"
  using response_table_classes by (auto simp: expected_ordinary_response_table dest: map_of_SomeD)

lemma expected_ordinary_response_defined:
  "expected_ordinary_response oc \<noteq> None \<longleftrightarrow> oc \<in> set client_opcodes - {GETCAPS}"
  by (cases oc) (auto simp: expected_ordinary_response_def client_opcodes_def opcode_defs Let_def)

text \<open>
  An opcode validates for a direction exactly when the protocol defines it for that
  direction; every other byte is reported as reserved, as unknown, or as sent in the wrong
  direction, in that order of precedence.
\<close>

lemma validate_correct:
  "validate oc dir =
     (if oc \<in> set (opcodes_of dir) then Inr ()
      else if oc \<in> set client_opcodes \<union> set node_opcodes then Inl (InvalidDirection oc dir)
      else if opcode_class oc = Reserved_Class then Inl (ReservedOpcode oc)
      else Inl (UnknownOpcode oc))"
proof (cases "oc \<in> set client_opcodes \<union> set node_opcodes")
  case True
  then show ?thesis
    using client_opcodes_direction node_opcodes_direction validate_iff [of oc dir]
    by (auto simp: validate_def is_defined_iff opcodes_of_def split: wire_direction.splits)
next
  case False
  then show ?thesis
    by (auto simp: validate_def is_defined_iff is_reserved_def opcodes_of_def
        split: wire_direction.splits)
qed

end
