(* ===== verification/Payload.thy ===== *)
theory Payload
  imports Opcodes
begin

text \<open>
  Payload bodies of \<open>qup-core\<close>: the cursor (\<open>types/cursor.rs\<close>), the scalar decoders
  (\<open>types/scalar.rs\<close>) and the \<open>value\<close> type (\<open>types/value.rs\<close>). Methods on \<open>&mut self\<close> are
  functions from the cursor to the result and the cursor after the call. The second half
  gives the wire layout of every field as an encoder (\<open>PROTOCOL.md\<close>, Encodings) and shows
  for each reader that it succeeds exactly on that layout.
\<close>

section \<open>The cursor\<close>

record payload_cursor =
  remaining :: bytes

definition cursor_new :: "bytes \<Rightarrow> payload_cursor" where
  "cursor_new payload = \<lparr>remaining = payload\<rparr>"

definition remaining_len :: "payload_cursor \<Rightarrow> nat" where
  "remaining_len c = length (remaining c)"

definition cursor_finish :: "payload_cursor \<Rightarrow> payload_error + unit" where
  "cursor_finish c =
     (if remaining c = [] then Inr () else Inl (TrailingBytes (length (remaining c))))"

definition cursor_take :: "nat \<Rightarrow> (payload_cursor, payload_error, bytes) action" where
  "cursor_take len c =
     (if length (remaining c) < len then (Inl InternalLengthExceedsPayload, c)
      else (Inr (take len (remaining c)), c\<lparr>remaining := drop len (remaining c)\<rparr>))"

definition take_array :: "nat \<Rightarrow> (payload_cursor, payload_error, bytes) action" where
  "take_array n = act_bind (cursor_take n)
     (\<lambda>bs. act_lift (if length bs = n then Inr bs else Inl InternalLengthExceedsPayload))"

definition read_u8 :: "(payload_cursor, payload_error, u8) action" where
  "read_u8 = act_bind (take_array 1) (\<lambda>bs. act_ok (bs ! 0))"

definition read_u16 :: "(payload_cursor, payload_error, u16) action" where
  "read_u16 = act_bind (take_array 2) (\<lambda>bs. act_ok (from_be bs))"

definition read_u32 :: "(payload_cursor, payload_error, u32) action" where
  "read_u32 = act_bind (take_array 4) (\<lambda>bs. act_ok (from_be bs))"

definition read_u64 :: "(payload_cursor, payload_error, u64) action" where
  "read_u64 = act_bind (take_array 8) (\<lambda>bs. act_ok (from_be bs))"

definition read_i64 :: "(payload_cursor, payload_error, i64) action" where
  "read_i64 = act_bind (take_array 8) (\<lambda>bs. act_ok (from_be bs))"

definition read_bytes :: "nat \<Rightarrow> (payload_cursor, payload_error, bytes) action" where
  "read_bytes len = cursor_take len"

definition read_bytes16 :: "(payload_cursor, payload_error, bytes) action" where
  "read_bytes16 = act_bind read_u16 (\<lambda>len. cursor_take (unat len))"

definition read_str16 :: "(payload_cursor, payload_error, rstr) action" where
  "read_str16 = act_bind read_bytes16
     (\<lambda>bs. if 0 \<in> set bs then act_err StringContainsNul
           else act_lift (res_map_err InvalidUtf8 (from_utf8 bs)))"

section \<open>Scalars\<close>

definition decode_bool :: "u8 \<Rightarrow> payload_error + bool" where
  "decode_bool byte =
     (if byte = 0x00 then Inr False else if byte = 0x01 then Inr True else Inl (InvalidBool byte))"

datatype key_flags = KeyFlags (flag_bits: u8)

definition READABLE :: u8 where "READABLE = 0b001"
definition WRITABLE :: u8 where "WRITABLE = 0b010"
definition OBSERVABLE :: u8 where "OBSERVABLE = 0b100"
definition VALID_MASK :: u8 where "VALID_MASK = READABLE OR WRITABLE OR OBSERVABLE"

definition key_flags_new :: "u8 \<Rightarrow> payload_error + key_flags" where
  "key_flags_new b = (if b AND NOT VALID_MASK = 0 then Inr (KeyFlags b) else Inl (InvalidKeyFlags b))"

definition is_readable :: "key_flags \<Rightarrow> bool" where
  "is_readable f \<longleftrightarrow> flag_bits f AND READABLE \<noteq> 0"

definition is_writable :: "key_flags \<Rightarrow> bool" where
  "is_writable f \<longleftrightarrow> flag_bits f AND WRITABLE \<noteq> 0"

definition is_observable :: "key_flags \<Rightarrow> bool" where
  "is_observable f \<longleftrightarrow> flag_bits f AND OBSERVABLE \<noteq> 0"

lemmas flag_defs = READABLE_def WRITABLE_def OBSERVABLE_def VALID_MASK_def

section \<open>Values\<close>

datatype value_kind = Bool_Kind | I64_Kind | Str_Kind

definition BOOL_TAG :: u8 where "BOOL_TAG = 0x01"
definition I64_TAG :: u8 where "I64_TAG = 0x02"
definition STR_TAG :: u8 where "STR_TAG = 0x03"

lemmas tag_defs = BOOL_TAG_def I64_TAG_def STR_TAG_def

definition kind_from_byte :: "u8 \<Rightarrow> payload_error + value_kind" where
  "kind_from_byte byte =
     (if byte = BOOL_TAG then Inr Bool_Kind
      else if byte = I64_TAG then Inr I64_Kind
      else if byte = STR_TAG then Inr Str_Kind
      else Inl (InvalidValueKind byte))"

definition kind_as_byte :: "value_kind \<Rightarrow> u8" where
  "kind_as_byte k =
     (case k of Bool_Kind \<Rightarrow> BOOL_TAG | I64_Kind \<Rightarrow> I64_TAG | Str_Kind \<Rightarrow> STR_TAG)"

datatype value_ref = Bool bool | I64 i64 | Str rstr

definition value_decode :: "(payload_cursor, payload_error, value_ref) action" where
  "value_decode = act_bind read_u8 (\<lambda>tag. act_bind (act_lift (kind_from_byte tag)) (\<lambda>kind.
     case kind of
       Bool_Kind \<Rightarrow> act_bind read_u8 (\<lambda>b. act_bind (act_lift (decode_bool b)) (\<lambda>v. act_ok (Bool v)))
     | I64_Kind \<Rightarrow> act_bind read_i64 (\<lambda>v. act_ok (I64 v))
     | Str_Kind \<Rightarrow> act_bind read_str16 (\<lambda>s. act_ok (Str s))))"

fun value_kind_of :: "value_ref \<Rightarrow> value_kind" where
  "value_kind_of (Bool _) = Bool_Kind"
| "value_kind_of (I64 _) = I64_Kind"
| "value_kind_of (Str _) = Str_Kind"

section \<open>The wire layout of the fields\<close>

definition wf_str :: "rstr \<Rightarrow> bool" where
  "wf_str s \<longleftrightarrow> is_utf8 s \<and> 0 \<notin> set s \<and> length s \<le> 65535"

definition encode_str16 :: "rstr \<Rightarrow> bytes" where
  "encode_str16 s = to_be 2 (word_of_nat (length s) :: u16) @ s"

fun encode_value :: "value_ref \<Rightarrow> bytes" where
  "encode_value (Bool b) = [BOOL_TAG, if b then 1 else 0]"
| "encode_value (I64 w) = I64_TAG # to_be 8 w"
| "encode_value (Str s) = STR_TAG # encode_str16 s"

fun wf_value :: "value_ref \<Rightarrow> bool" where
  "wf_value (Str s) = wf_str s"
| "wf_value _ = True"

definition wf_flags :: "key_flags \<Rightarrow> bool" where
  "wf_flags f \<longleftrightarrow> flag_bits f AND NOT VALID_MASK = 0"

lemma length_encode_str16 [simp]: "length (encode_str16 s) = 2 + length s"
  by (simp add: encode_str16_def)

section \<open>Readers succeed exactly on the layout\<close>

lemma cursor_take_Inr:
  "cursor_take n c = (Inr bs, c') \<longleftrightarrow> remaining c = bs @ remaining c' \<and> length bs = n"
  by (cases c; cases c') (auto simp: cursor_take_def)

lemma take_array_Inr:
  "take_array n c = (Inr bs, c') \<longleftrightarrow> remaining c = bs @ remaining c' \<and> length bs = n"
  by (auto simp: take_array_def act_bind_eq_Inr cursor_take_Inr)

lemma read_u8_Inr: "read_u8 c = (Inr b, c') \<longleftrightarrow> remaining c = b # remaining c'"
  by (cases c; cases c') (auto simp: read_u8_def act_bind_eq_Inr take_array_Inr length_Suc_conv)

lemma read_u16_Inr: "read_u16 c = (Inr w, c') \<longleftrightarrow> remaining c = to_be 2 w @ remaining c'"
proof
  assume "read_u16 c = (Inr w, c')"
  then obtain bs where "remaining c = bs @ remaining c'" "length bs = 2" "w = from_be bs"
    by (auto simp: read_u16_def act_bind_eq_Inr take_array_Inr)
  then show "remaining c = to_be 2 w @ remaining c'"
    using to_be_from_be [of bs, where ?'a = 16] by simp
next
  assume "remaining c = to_be 2 w @ remaining c'"
  then show "read_u16 c = (Inr w, c')"
    by (auto simp: read_u16_def act_bind_eq_Inr take_array_Inr from_be_2 intro!: exI [of _ "to_be 2 w"])
qed

lemma read_i64_Inr: "read_i64 c = (Inr w, c') \<longleftrightarrow> remaining c = to_be 8 w @ remaining c'"
proof
  assume "read_i64 c = (Inr w, c')"
  then obtain bs where "remaining c = bs @ remaining c'" "length bs = 8" "w = from_be bs"
    by (auto simp: read_i64_def act_bind_eq_Inr take_array_Inr)
  then show "remaining c = to_be 8 w @ remaining c'" by (simp add: to_be_8)
next
  assume "remaining c = to_be 8 w @ remaining c'"
  then show "read_i64 c = (Inr w, c')"
    by (auto simp: read_i64_def act_bind_eq_Inr take_array_Inr from_be_8 intro!: exI [of _ "to_be 8 w"])
qed

lemma read_bytes16_Inr:
  "read_bytes16 c = (Inr bs, c') \<longleftrightarrow>
     length bs \<le> 65535 \<and> remaining c = to_be 2 (word_of_nat (length bs) :: u16) @ bs @ remaining c'"
proof
  assume "read_bytes16 c = (Inr bs, c')"
  then obtain w :: u16 and d :: payload_cursor where "remaining c = to_be 2 w @ remaining d"
    "remaining d = bs @ remaining c'" "length bs = unat w"
    unfolding read_bytes16_def act_bind_eq_Inr read_u16_Inr cursor_take_Inr by blast
  then show "length bs \<le> 65535 \<and> remaining c = to_be 2 (word_of_nat (length bs) :: u16) @ bs @ remaining c'"
    using unat_u16_le [of w] by simp
next
  assume a: "length bs \<le> 65535 \<and> remaining c = to_be 2 (word_of_nat (length bs) :: u16) @ bs @ remaining c'"
  then show "read_bytes16 c = (Inr bs, c')"
    by (auto simp: read_bytes16_def act_bind_eq_Inr read_u16_Inr cursor_take_Inr unat_of_nat_u16
        intro!: exI [of _ "word_of_nat (length bs)"] exI [of _ "\<lparr>remaining = bs @ remaining c'\<rparr>"])
qed

lemma read_str16_Inr:
  "read_str16 c = (Inr s, c') \<longleftrightarrow> wf_str s \<and> remaining c = encode_str16 s @ remaining c'"
  unfolding read_str16_def act_bind_eq_Inr read_bytes16_Inr wf_str_def encode_str16_def
  by (auto simp: from_utf8_eq_Inr act_lift_def act_err_def)

lemma decode_bool_Inr: "decode_bool b = Inr v \<longleftrightarrow> b = (if v then 1 else 0)"
  by (auto simp: decode_bool_def)

lemma key_flags_new_Inr: "key_flags_new b = Inr f \<longleftrightarrow> f = KeyFlags b \<and> wf_flags f"
  by (auto simp: key_flags_new_def wf_flags_def)

lemma kind_from_byte_Inr: "kind_from_byte b = Inr k \<longleftrightarrow> b = kind_as_byte k"
  by (cases k) (auto simp: kind_from_byte_def kind_as_byte_def tag_defs)

lemma cursor_finish_Inr: "cursor_finish c = Inr () \<longleftrightarrow> remaining c = []"
  by (simp add: cursor_finish_def)

text \<open>The same facts as computation rules on a cursor in front of a field.\<close>

lemma read_forward:
  "read_u8 \<lparr>remaining = b # r\<rparr> = (Inr b, \<lparr>remaining = r\<rparr>)"
  "read_u16 \<lparr>remaining = to_be 2 (w16 :: u16) @ r\<rparr> = (Inr w16, \<lparr>remaining = r\<rparr>)"
  "read_i64 \<lparr>remaining = to_be 8 w64 @ r\<rparr> = (Inr w64, \<lparr>remaining = r\<rparr>)"
  "wf_str s \<Longrightarrow> read_str16 \<lparr>remaining = encode_str16 s @ r\<rparr> = (Inr s, \<lparr>remaining = r\<rparr>)"
  by (simp_all add: read_u8_Inr read_u16_Inr read_i64_Inr read_str16_Inr)

lemma decode_forward:
  "decode_bool (if v then 1 else 0) = Inr v"
  "kind_from_byte BOOL_TAG = Inr Bool_Kind"
  "kind_from_byte I64_TAG = Inr I64_Kind"
  "kind_from_byte STR_TAG = Inr Str_Kind"
  by (simp_all add: decode_bool_Inr kind_from_byte_Inr kind_as_byte_def)

lemma value_decode_forward:
  "wf_value v \<Longrightarrow> value_decode \<lparr>remaining = encode_value v @ r\<rparr> = (Inr v, \<lparr>remaining = r\<rparr>)"
  by (cases v)
    (simp_all add: value_decode_def act_bind_def read_forward decode_forward decode_bool_def)

lemma value_decode_Inr:
  "value_decode c = (Inr v, c') \<longleftrightarrow> wf_value v \<and> remaining c = encode_value v @ remaining c'"
proof
  assume "value_decode c = (Inr v, c')"
  then obtain k and d :: payload_cursor where c: "remaining c = kind_as_byte k # remaining d"
    and k: "(case k of
       Bool_Kind \<Rightarrow> act_bind read_u8 (\<lambda>b. act_bind (act_lift (decode_bool b)) (\<lambda>v. act_ok (Bool v)))
     | I64_Kind \<Rightarrow> act_bind read_i64 (\<lambda>v. act_ok (I64 v))
     | Str_Kind \<Rightarrow> act_bind read_str16 (\<lambda>s. act_ok (Str s))) d = (Inr v, c')"
    by (auto simp: value_decode_def act_bind_eq_Inr read_u8_Inr kind_from_byte_Inr)
  show "wf_value v \<and> remaining c = encode_value v @ remaining c'"
    using c k by (cases k) (auto simp: act_bind_eq_Inr read_u8_Inr read_i64_Inr read_str16_Inr
        decode_bool_Inr kind_as_byte_def)
next
  assume "wf_value v \<and> remaining c = encode_value v @ remaining c'"
  moreover from this have "c = \<lparr>remaining = encode_value v @ remaining c'\<rparr>" by (cases c) simp
  moreover have "c' = \<lparr>remaining = remaining c'\<rparr>" by (cases c') simp
  ultimately show "value_decode c = (Inr v, c')"
    using value_decode_forward [of v "remaining c'"] by simp
qed

end
