(* ===== verification/Caps.thy ===== *)
theory Caps
  imports Payload
begin

text \<open>
  The \<open>CAPS\<close> string (\<open>crates/qup-core/src/types/caps.rs\<close>): \<open>CapsRef::parse\<close> with its index
  loop and the table of responses seen per request letter, and the iterator over the
  advertised pairs. The specification reads the string as a list of pairs with an optional
  final \<open>!\<close> and states the rules of \<open>PROTOCOL.md\<close> (Compatibility) on that list.
\<close>

section \<open>Data and operations\<close>

record caps_entry =
  entry_request :: opcode
  entry_response :: opcode
  entry_known :: bool

record caps_ref =
  caps_raw :: rstr
  supports_changed :: bool

record caps_iter =
  iter_bytes :: bytes
  iter_index :: nat

text \<open>
  The loop of \<open>parse\<close>. Indices are \<open>usize\<close> values below the length of an allocation, so the
  checked additions of the source always succeed and \<open>nat\<close> is exact; \<open>seen\<close> is the array of
  26 response bytes.
\<close>

function caps_loop :: "bytes \<Rightarrow> u8 list \<Rightarrow> nat \<Rightarrow> payload_error + unit" where
  "caps_loop bs seen index =
     (case list_get bs index of
        None \<Rightarrow> Inr ()
      | Some request_byte \<Rightarrow>
          if request_byte = 0x21 then
            (if index + 1 \<noteq> length bs then Inl MalformedCaps else Inr ())
          else case list_get bs (index + 1) of
            None \<Rightarrow> Inl MalformedCaps
          | Some response_byte \<Rightarrow>
              let request = Opcode request_byte; response = Opcode response_byte in
              if opcode_class request \<noteq> Request_Class then Inl MalformedCaps
              else if opcode_class response \<noteq> OrdinaryResponse_Class then Inl MalformedCaps
              else if (case expected_ordinary_response request of
                         Some expected \<Rightarrow> expected \<noteq> response | None \<Rightarrow> False)
                then Inl MalformedCaps
              else if as_u8 request < 0x41 then Inl MalformedCaps
              else let slot = unat (as_u8 request - 0x41) in
                case list_get seen slot of
                  None \<Rightarrow> Inl MalformedCaps
                | Some seen_response \<Rightarrow>
                    if seen_response \<noteq> 0 \<and> seen_response \<noteq> as_u8 response then Inl MalformedCaps
                    else caps_loop bs
                      (if seen_response = 0 then seen[slot := as_u8 response] else seen)
                      (index + 2))"
  by pat_completeness auto
termination
  by (relation "measure (\<lambda>(bs, seen, index). length bs - index)") (auto simp: list_get_Some)

declare caps_loop.simps [simp del]

definition caps_parse :: "rstr \<Rightarrow> payload_error + caps_ref" where
  "caps_parse raw =
     (if \<not> list_all (\<lambda>b. b < 0x80) raw then Inl MalformedCaps
      else res_bind (caps_loop raw (replicate 26 0) 0)
        (\<lambda>_. Inr \<lparr>caps_raw = raw, supports_changed = (raw \<noteq> [] \<and> last raw = 0x21)\<rparr>))"

definition caps_iter_of :: "caps_ref \<Rightarrow> caps_iter" where
  "caps_iter_of c = \<lparr>iter_bytes = caps_raw c, iter_index = 0\<rparr>"

definition caps_iter_next :: "caps_iter \<Rightarrow> caps_entry option \<times> caps_iter" where
  "caps_iter_next it =
     (case list_get (iter_bytes it) (iter_index it) of
        None \<Rightarrow> (None, it)
      | Some request_byte \<Rightarrow>
          if request_byte = 0x21 then (None, it)
          else case list_get (iter_bytes it) (iter_index it + 1) of
            None \<Rightarrow> (None, it)
          | Some response_byte \<Rightarrow>
              let request = Opcode request_byte; response = Opcode response_byte in
              (Some \<lparr>entry_request = request, entry_response = response,
                     entry_known = (expected_ordinary_response request \<noteq> None)\<rparr>,
               it\<lparr>iter_index := iter_index it + 2\<rparr>))"

text \<open>What a \<open>for\<close> loop over the iterator visits.\<close>

function caps_entries :: "caps_iter \<Rightarrow> caps_entry list" where
  "caps_entries it =
     (case caps_iter_next it of (None, _) \<Rightarrow> [] | (Some e, it') \<Rightarrow> e # caps_entries it')"
  by pat_completeness auto
termination
  by (relation "measure (\<lambda>it. length (iter_bytes it) - iter_index it)")
    (auto simp: caps_iter_next_def list_get_Some Let_def split: option.splits if_splits)

declare caps_entries.simps [simp del]

section \<open>The rules of the protocol on pairs\<close>

fun caps_pairs :: "bytes \<Rightarrow> ((u8 \<times> u8) list \<times> bool) option" where
  "caps_pairs [] = Some ([], False)"
| "caps_pairs [b] = (if b = 0x21 then Some ([], True) else None)"
| "caps_pairs (q # r # bs) =
     (if q = 0x21 then None else map_option (\<lambda>(ps, c). ((q, r) # ps, c)) (caps_pairs bs))"

definition pair_ok :: "u8 \<times> u8 \<Rightarrow> bool" where
  "pair_ok p \<longleftrightarrow> opcode_class (Opcode (fst p)) = Request_Class
     \<and> opcode_class (Opcode (snd p)) = OrdinaryResponse_Class
     \<and> (case expected_ordinary_response (Opcode (fst p)) of
          None \<Rightarrow> True | Some r \<Rightarrow> r = Opcode (snd p))"

definition pairs_consistent :: "(u8 \<times> u8) list \<Rightarrow> bool" where
  "pairs_consistent ps \<longleftrightarrow> (\<forall>p \<in> set ps. \<forall>p' \<in> set ps. fst p = fst p' \<longrightarrow> snd p = snd p')"

definition caps_wellformed :: "bytes \<Rightarrow> (u8 \<times> u8) list \<Rightarrow> bool \<Rightarrow> bool" where
  "caps_wellformed raw ps c \<longleftrightarrow>
     caps_pairs raw = Some (ps, c) \<and> list_all pair_ok ps \<and> pairs_consistent ps"

section \<open>The loop checks exactly these rules\<close>

text \<open>The slot of a request letter in the table.\<close>

definition slot_of :: "u8 \<Rightarrow> nat" where
  "slot_of q = unat (q - 0x41)"

lemma request_class_range:
  "opcode_class (Opcode q) = Request_Class \<longleftrightarrow> 65 \<le> unat q \<and> unat q \<le> 90"
  by (auto simp: opcode_class_def Let_def word_le_nat_alt)

lemma response_class_range:
  "opcode_class (Opcode r) = OrdinaryResponse_Class \<longleftrightarrow> 97 \<le> unat r \<and> unat r \<le> 122"
  by (auto simp: opcode_class_def Let_def word_le_nat_alt word_unat_eq_iff)

lemma slot_of_nat: "65 \<le> unat q \<Longrightarrow> slot_of q = unat q - 65"
  by (simp add: slot_of_def unat_sub word_le_nat_alt)

lemma pair_ok_ranges:
  "pair_ok (q, r) \<Longrightarrow> 65 \<le> unat q \<and> unat q \<le> 90 \<and> 97 \<le> unat r \<and> unat r \<le> 122"
  by (simp add: pair_ok_def request_class_range response_class_range)

lemma slot_of_bound: "pair_ok (q, r) \<Longrightarrow> slot_of q < 26"
  by (drule pair_ok_ranges) (simp add: slot_of_nat, linarith)

lemma slot_of_inj: "pair_ok (q, r) \<Longrightarrow> pair_ok (q', r') \<Longrightarrow> slot_of q = slot_of q' \<longleftrightarrow> q = q'"
  by (drule pair_ok_ranges)+ (auto simp: slot_of_nat word_unat_eq_iff)

lemma pair_ok_response_nonzero: "pair_ok (q, r) \<Longrightarrow> r \<noteq> 0"
  by (drule pair_ok_ranges) auto

lemma pair_ok_not_bang: "pair_ok (q, r) \<Longrightarrow> q \<noteq> 0x21"
  by (drule pair_ok_ranges) auto

lemma pair_ok_ascii: "pair_ok (q, r) \<Longrightarrow> q < 0x80 \<and> r < 0x80 \<and> r \<noteq> 0x21"
  by (drule pair_ok_ranges) (auto simp: word_less_nat_alt)

text \<open>The loop as a walk down the list, which is what the proofs use.\<close>

fun caps_walk :: "bytes \<Rightarrow> u8 list \<Rightarrow> bool" where
  "caps_walk [] seen \<longleftrightarrow> True"
| "caps_walk [b] seen \<longleftrightarrow> b = 0x21"
| "caps_walk (q # r # bs) seen \<longleftrightarrow>
     pair_ok (q, r) \<and> (seen ! slot_of q = 0 \<or> seen ! slot_of q = r)
     \<and> caps_walk bs (seen[slot_of q := r])"

lemma caps_loop_two:
  assumes "Suc i < length bs" and "bs ! i = q" and "bs ! Suc i = r"
  shows "caps_loop bs seen i =
    (if q = 0x21 \<or> \<not> pair_ok (q, r) \<or> q < 0x41 \<or> \<not> slot_of q < length seen then Inl MalformedCaps
     else if seen ! slot_of q \<noteq> 0 \<and> seen ! slot_of q \<noteq> r then Inl MalformedCaps
     else caps_loop bs (if seen ! slot_of q = 0 then seen[slot_of q := r] else seen) (i + 2))"
proof -
  have get: "list_get bs i = Some q" "list_get bs (i + 1) = Some r" "i + 1 \<noteq> length bs"
    using assms by (auto simp: list_get_def)
  define bad where "bad \<longleftrightarrow> (case expected_ordinary_response (Opcode q) of
      Some expected \<Rightarrow> expected \<noteq> Opcode r | None \<Rightarrow> False)"
  have ok: "pair_ok (q, r) \<longleftrightarrow> opcode_class (Opcode q) = Request_Class
      \<and> opcode_class (Opcode r) = OrdinaryResponse_Class \<and> \<not> bad"
    by (auto simp: pair_ok_def bad_def split: option.splits)
  have seen: "list_get seen (slot_of q) = (if slot_of q < length seen then Some (seen ! slot_of q) else None)"
    by (simp add: list_get_def)
  show ?thesis
    unfolding ok
    by (subst caps_loop.simps,
      simp only: get option.case Let_def opcode.sel slot_of_def [symmetric] bad_def [symmetric] seen)
      (cases "q = 0x21"; cases "opcode_class (Opcode q) = Request_Class";
       cases "opcode_class (Opcode r) = OrdinaryResponse_Class"; cases bad; cases "q < 0x41";
       cases "slot_of q < length seen"; simp add: assms get(3))
qed

lemma caps_loop_step:
  assumes "Suc i < length bs" and "length seen = 26"
  shows "caps_loop bs seen i =
    (if pair_ok (bs ! i, bs ! Suc i) \<and>
        (seen ! slot_of (bs ! i) = 0 \<or> seen ! slot_of (bs ! i) = bs ! Suc i)
     then caps_loop bs (seen[slot_of (bs ! i) := bs ! Suc i]) (i + 2)
     else Inl MalformedCaps)"
proof (cases "pair_ok (bs ! i, bs ! Suc i)")
  case False
  then show ?thesis by (simp add: caps_loop_two [OF assms(1) refl refl])
next
  case ok: True
  have "seen[slot_of (bs ! i) := bs ! Suc i] = seen" if "seen ! slot_of (bs ! i) = bs ! Suc i"
    using that by (metis list_update_id)
  moreover have "\<not> bs ! i < 0x41" using pair_ok_ranges [OF ok] by (simp add: word_less_nat_alt)
  ultimately show ?thesis
    using ok slot_of_bound [OF ok] pair_ok_not_bang [OF ok] pair_ok_response_nonzero [OF ok]
    by (simp add: caps_loop_two [OF assms(1) refl refl] assms(2))
qed

lemma caps_loop_walk:
  "length seen = 26 \<Longrightarrow>
     caps_loop bs seen i = (if caps_walk (drop i bs) seen then Inr () else Inl MalformedCaps)"
proof (induction "length bs - i" arbitrary: seen i rule: less_induct)
  case less
  consider "length bs \<le> i" | "Suc i = length bs" | "Suc i < length bs" by linarith
  then show ?case
  proof cases
    case 1
    then show ?thesis by (simp add: caps_loop.simps [of bs seen i] list_get_def)
  next
    case 2
    then have "drop i bs = [bs ! i]" using Cons_nth_drop_Suc [of i bs] by simp
    with 2 show ?thesis by (simp add: caps_loop.simps [of bs seen i] list_get_def)
  next
    case 3
    then have walk: "drop i bs = bs ! i # bs ! Suc i # drop (i + 2) bs"
      using Cons_nth_drop_Suc [of i bs] Cons_nth_drop_Suc [of "Suc i" bs] by simp
    have "caps_loop bs (seen[slot_of (bs ! i) := bs ! Suc i]) (i + 2) =
        (if caps_walk (drop (i + 2) bs) (seen[slot_of (bs ! i) := bs ! Suc i]) then Inr ()
         else Inl MalformedCaps)"
      using less 3 by simp
    with 3 less.prems show ?thesis
      by (simp add: walk caps_loop_step)
  qed
qed

lemma pairs_consistent_cons:
  "pairs_consistent ((q, r) # ps) \<longleftrightarrow> pairs_consistent ps \<and> (\<forall>p \<in> set ps. fst p = q \<longrightarrow> snd p = r)"
  by (auto simp: pairs_consistent_def)

lemma caps_walk_pairs:
  "length seen = 26 \<Longrightarrow>
     caps_walk bs seen \<longleftrightarrow>
       (\<exists>ps c. caps_wellformed bs ps c \<and>
          (\<forall>p \<in> set ps. seen ! slot_of (fst p) = 0 \<or> seen ! slot_of (fst p) = snd p))"
proof (induction bs seen rule: caps_walk.induct)
  case (3 q r bs seen)
  let ?seen = "seen[slot_of q := r]"
  show ?case
  proof (cases "pair_ok (q, r)")
    case False
    then show ?thesis by (auto simp: caps_wellformed_def)
  next
    case ok: True
    note facts = slot_of_bound [OF ok] pair_ok_not_bang [OF ok] pair_ok_response_nonzero [OF ok]
    have IH: "caps_walk bs ?seen \<longleftrightarrow> (\<exists>ps c. caps_wellformed bs ps c \<and>
          (\<forall>p \<in> set ps. ?seen ! slot_of (fst p) = 0 \<or> ?seen ! slot_of (fst p) = snd p))"
      using 3 by simp
    have key: "(caps_wellformed bs ps c \<and>
            (\<forall>p \<in> set ps. ?seen ! slot_of (fst p) = 0 \<or> ?seen ! slot_of (fst p) = snd p) \<and>
            (seen ! slot_of q = 0 \<or> seen ! slot_of q = r))
        \<longleftrightarrow> (caps_wellformed (q # r # bs) ((q, r) # ps) c \<and>
            (\<forall>p \<in> set ((q, r) # ps). seen ! slot_of (fst p) = 0 \<or> seen ! slot_of (fst p) = snd p))"
      for ps c
    proof (cases "caps_pairs bs = Some (ps, c) \<and> list_all pair_ok ps")
      case False
      then show ?thesis using facts by (auto simp: caps_wellformed_def)
    next
      case True
      then have oks: "pair_ok p" if "p \<in> set ps" for p using that by (auto simp: list_all_iff)
      have upd: "?seen ! slot_of (fst p) = (if fst p = q then r else seen ! slot_of (fst p))"
        if "p \<in> set ps" for p
        using slot_of_inj [OF ok, of "fst p" "snd p"] oks [OF that] facts "3.prems"
        by (auto simp: nth_list_update)
      let ?Z = "\<lambda>p. seen ! slot_of (fst p) = 0 \<or> seen ! slot_of (fst p) = snd p"
      have A: "(\<forall>p \<in> set ps. ?seen ! slot_of (fst p) = 0 \<or> ?seen ! slot_of (fst p) = snd p)
          \<longleftrightarrow> (\<forall>p \<in> set ps. if fst p = q then snd p = r else ?Z p)"
        using upd facts by (intro ball_cong) auto
      have B: "caps_wellformed bs ps c \<longleftrightarrow> pairs_consistent ps"
        "caps_wellformed (q # r # bs) ((q, r) # ps) c \<longleftrightarrow>
          pairs_consistent ps \<and> (\<forall>p \<in> set ps. fst p = q \<longrightarrow> snd p = r)"
        using True ok facts by (simp_all add: caps_wellformed_def pairs_consistent_cons)
      have C: "(\<forall>p \<in> set ps. if fst p = q then snd p = r else ?Z p)
          \<longleftrightarrow> (\<forall>p \<in> set ps. fst p = q \<longrightarrow> snd p = r) \<and> (\<forall>p \<in> set ps. ?Z p)"
        if "?Z (q, r)"
        unfolding ball_conj_distrib [symmetric] using that by (intro ball_cong) auto
      have D: "(\<forall>p \<in> set ((q, r) # ps). ?Z p) \<longleftrightarrow> ?Z (q, r) \<and> (\<forall>p \<in> set ps. ?Z p)" by simp
      show ?thesis
      proof (cases "?Z (q, r)")
        case True
        with A B C [OF True] D show ?thesis by (simp only: fst_conv snd_conv simp_thms conj_ac)
      next
        case False
        then show ?thesis by simp
      qed
    qed
    have shape: "(\<exists>ps c. caps_wellformed (q # r # bs) ps c \<and> Q ps) \<longleftrightarrow>
        (\<exists>ps c. caps_wellformed (q # r # bs) ((q, r) # ps) c \<and> Q ((q, r) # ps))" for Q
      using facts by (auto simp: caps_wellformed_def)
    have "caps_walk (q # r # bs) seen \<longleftrightarrow>
        (\<exists>ps c. caps_wellformed bs ps c \<and>
            (\<forall>p \<in> set ps. ?seen ! slot_of (fst p) = 0 \<or> ?seen ! slot_of (fst p) = snd p) \<and>
            (seen ! slot_of q = 0 \<or> seen ! slot_of q = r))"
      using ok by (simp only: caps_walk.simps IH) blast
    also have "\<dots> \<longleftrightarrow> (\<exists>ps c. caps_wellformed (q # r # bs) ((q, r) # ps) c \<and>
            (\<forall>p \<in> set ((q, r) # ps). seen ! slot_of (fst p) = 0 \<or> seen ! slot_of (fst p) = snd p))"
      by (simp only: key)
    also have "\<dots> \<longleftrightarrow> (\<exists>ps c. caps_wellformed (q # r # bs) ps c \<and>
            (\<forall>p \<in> set ps. seen ! slot_of (fst p) = 0 \<or> seen ! slot_of (fst p) = snd p))"
      by (rule shape [symmetric])
    finally show ?thesis .
  qed
qed (auto simp: caps_wellformed_def pairs_consistent_def split: if_splits)

lemma caps_wellformed_unique:
  "caps_wellformed raw ps c \<Longrightarrow> caps_wellformed raw ps' c' \<Longrightarrow> ps' = ps \<and> c' = c"
  by (simp add: caps_wellformed_def)

lemma caps_pairs_ascii:
  "caps_pairs raw = Some (ps, c) \<Longrightarrow> list_all pair_ok ps \<Longrightarrow> list_all (\<lambda>b. b < 0x80) raw"
  by (induction raw arbitrary: ps rule: caps_pairs.induct)
    (auto dest: pair_ok_ascii split: if_splits)

lemma caps_pairs_last:
  "caps_pairs raw = Some (ps, c) \<Longrightarrow> list_all pair_ok ps \<Longrightarrow> c \<longleftrightarrow> raw \<noteq> [] \<and> last raw = 0x21"
  by (induction raw arbitrary: ps rule: caps_pairs.induct)
    (auto dest: pair_ok_ascii split: if_splits)

lemma caps_parse_correct:
  "caps_parse raw =
     (if \<exists>ps c. caps_wellformed raw ps c
      then Inr \<lparr>caps_raw = raw, supports_changed = (raw \<noteq> [] \<and> last raw = 0x21)\<rparr>
      else Inl MalformedCaps)"
proof (cases "\<exists>ps c. caps_wellformed raw ps c")
  case True
  then have "caps_walk raw (replicate 26 0)"
    by (fastforce simp: caps_walk_pairs caps_wellformed_def list_all_iff dest: slot_of_bound)
  moreover from True have "list_all (\<lambda>b. b < 0x80) raw"
    by (auto simp: caps_wellformed_def intro: caps_pairs_ascii)
  ultimately show ?thesis using True by (simp add: caps_parse_def caps_loop_walk)
next
  case False
  then have "\<not> caps_walk raw (replicate 26 0)" by (simp add: caps_walk_pairs)
  with False show ?thesis by (simp add: caps_parse_def caps_loop_walk)
qed

text \<open>What the iterator of a parsed string yields.\<close>

definition entry_of :: "u8 \<times> u8 \<Rightarrow> caps_entry" where
  "entry_of p = \<lparr>entry_request = Opcode (fst p), entry_response = Opcode (snd p),
                entry_known = (expected_ordinary_response (Opcode (fst p)) \<noteq> None)\<rparr>"

lemma caps_entries_from:
  "caps_pairs bs = Some (ps, c) \<Longrightarrow>
     caps_entries \<lparr>iter_bytes = pre @ bs, iter_index = length pre\<rparr> = map entry_of ps"
proof (induction bs arbitrary: pre ps rule: caps_pairs.induct)
  case 1
  then show ?case by (simp add: caps_entries.simps caps_iter_next_def list_get_def)
next
  case (2 b)
  then show ?case
    by (simp add: caps_entries.simps caps_iter_next_def list_get_def split: if_splits)
next
  case (3 q r bs)
  from "3.prems" obtain ps' where q: "q \<noteq> 0x21" and ps': "caps_pairs bs = Some (ps', c)"
    and ps: "ps = (q, r) # ps'"
    by (auto split: if_splits)
  have "caps_entries \<lparr>iter_bytes = (pre @ [q, r]) @ bs, iter_index = length (pre @ [q, r])\<rparr>
      = map entry_of ps'"
    by (rule "3.IH" [OF q ps'])
  then show ?case
    using q ps
    by (subst caps_entries.simps)
      (simp add: caps_iter_next_def list_get_def nth_append Let_def entry_of_def)
qed

lemma caps_parse_entries:
  assumes "caps_parse raw = Inr c"
  shows "\<exists>ps b. caps_wellformed raw ps b \<and> supports_changed c = b \<and>
     caps_entries (caps_iter_of c) = map entry_of ps"
proof -
  from assms obtain ps b where wf: "caps_wellformed raw ps b"
    and c: "c = \<lparr>caps_raw = raw, supports_changed = (raw \<noteq> [] \<and> last raw = 0x21)\<rparr>"
    by (auto simp: caps_parse_correct split: if_splits)
  then have "supports_changed c = b"
    using caps_pairs_last by (auto simp: caps_wellformed_def)
  moreover have "caps_entries (caps_iter_of c) = map entry_of ps"
    using caps_entries_from [of raw ps b "[]"] wf c by (simp add: caps_iter_of_def caps_wellformed_def)
  ultimately show ?thesis using wf by blast
qed

lemma entry_of_inj: "inj entry_of"
  by (rule injI) (simp add: entry_of_def prod_eq_iff)

text \<open>
  C26: a capability string is accepted exactly when it is a sequence of request and response
  letter pairs, optionally closed by one \<open>!\<close>, in which every pair is a request letter with a
  response letter, a request of this protocol version is paired with its own response, and no
  request has two different responses; iterating over an accepted string yields exactly those
  pairs in order, marked as known when the protocol defines the request, and
  \<open>supports_changed\<close> reports the final \<open>!\<close>. Every other string is \<open>MalformedCaps\<close>.
\<close>

theorem caps_parse_iff:
  "((\<exists>c. caps_parse raw = Inr c \<and> supports_changed c = b \<and>
        caps_entries (caps_iter_of c) = map entry_of ps) \<longleftrightarrow> caps_wellformed raw ps b)
   \<and> (caps_parse raw = Inl MalformedCaps \<longleftrightarrow> \<not> (\<exists>ps b. caps_wellformed raw ps b))"
proof (intro conjI iffI)
  assume "\<exists>c. caps_parse raw = Inr c \<and> supports_changed c = b \<and>
      caps_entries (caps_iter_of c) = map entry_of ps"
  then obtain c where c: "caps_parse raw = Inr c" "supports_changed c = b"
    "caps_entries (caps_iter_of c) = map entry_of ps" by blast
  from caps_parse_entries [OF c(1)] obtain ps' where "caps_wellformed raw ps' b"
    "map entry_of ps' = map entry_of ps"
    using c by auto
  then show "caps_wellformed raw ps b" using entry_of_inj by (simp add: inj_map_eq_map)
next
  assume wf: "caps_wellformed raw ps b"
  then have "\<exists>c. caps_parse raw = Inr c" unfolding caps_parse_correct by auto
  then obtain c where "caps_parse raw = Inr c" ..
  from caps_parse_entries [OF this] caps_wellformed_unique [OF wf] this
  show "\<exists>c. caps_parse raw = Inr c \<and> supports_changed c = b \<and>
      caps_entries (caps_iter_of c) = map entry_of ps"
    by blast
qed (auto simp: caps_parse_correct split: if_splits)

end
