(* ===== verification/Messages.thy ===== *)
theory Messages
  imports Caps
begin

text \<open>
  Typed messages (\<open>crates/qup-core/src/types/message.rs\<close>): the request, response and control
  payloads and \<open>MessageRef::decode\<close>. The specification is the payload layout of
  \<open>PROTOCOL.md\<close> (Messages) as an encoder with a well-formedness predicate; the decoder
  is shown to accept exactly the encodings of well-formed messages.
\<close>

section \<open>Data\<close>

datatype request_ref =
    Ping
  | Identify
  | GetKeytabLen
  | GetKey u16
  | Get u16
  | Write u16 value_ref
  | Observe u16
  | Unobserve u16

datatype ordinary_response_ref =
    Ok
  | Identified rstr
  | KeytabLen u16
  | Key key_flags rstr
  | Value value_ref
  | Written value_ref

datatype error_response = ErrorResponse (error_code: u8)

datatype message_ref =
    Request request_ref
  | OrdinaryResponse ordinary_response_ref
  | CompatibilityRequest
  | CompatibilityResponse caps_ref
  | Error error_response
  | Changed u16

section \<open>Decoding\<close>

definition expect_empty :: "opcode \<Rightarrow> bytes \<Rightarrow> payload_error + unit" where
  "expect_empty oc payload =
     (if payload = [] then Inr () else Inl (InvalidLength oc 0 (length payload)))"

definition expect_len :: "opcode \<Rightarrow> bytes \<Rightarrow> nat \<Rightarrow> payload_error + unit" where
  "expect_len oc payload expected =
     (if length payload = expected then Inr () else Inl (InvalidLength oc expected (length payload)))"

definition decode_keyref_request ::
  "opcode \<Rightarrow> bytes \<Rightarrow> (u16 \<Rightarrow> request_ref) \<Rightarrow> payload_error + message_ref" where
  "decode_keyref_request oc payload ctor =
     res_bind (expect_len oc payload 2) (\<lambda>_.
       res_map (\<lambda>k. Request (ctor k)) (fst (read_u16 (cursor_new payload))))"

text \<open>
  A decoder that reads its fields from a cursor and then calls \<open>finish\<close>: the fields are an
  action, the final check looks at the cursor the action leaves.
\<close>

definition with_cursor ::
  "(payload_cursor, payload_error, 'a) action \<Rightarrow> bytes \<Rightarrow> payload_error + 'a" where
  "with_cursor fld payload =
     fst (act_bind fld (\<lambda>a c. act_bind (\<lambda>c. (cursor_finish c, c)) (\<lambda>_. act_ok a) c)
       (cursor_new payload))"

definition decode_write :: "bytes \<Rightarrow> payload_error + message_ref" where
  "decode_write = with_cursor
     (act_bind read_u16 (\<lambda>k. act_bind value_decode (\<lambda>v. act_ok (Request (Write k v)))))"

definition decode_identified :: "bytes \<Rightarrow> payload_error + message_ref" where
  "decode_identified = with_cursor
     (act_bind read_str16 (\<lambda>nodeid. act_ok (OrdinaryResponse (Identified nodeid))))"

definition decode_keytablen :: "opcode \<Rightarrow> bytes \<Rightarrow> payload_error + message_ref" where
  "decode_keytablen oc payload =
     res_bind (expect_len oc payload 2) (\<lambda>_.
       res_map (\<lambda>n. OrdinaryResponse (KeytabLen n)) (fst (read_u16 (cursor_new payload))))"

definition decode_key :: "bytes \<Rightarrow> payload_error + message_ref" where
  "decode_key = with_cursor
     (act_bind read_u8 (\<lambda>b. act_bind (act_lift (key_flags_new b)) (\<lambda>flags.
        act_bind read_str16 (\<lambda>name. act_ok (OrdinaryResponse (Key flags name))))))"

definition decode_value_response :: "bytes \<Rightarrow> bool \<Rightarrow> payload_error + message_ref" where
  "decode_value_response payload written = with_cursor
     (act_bind value_decode (\<lambda>v. act_ok (OrdinaryResponse (if written then Written v else Value v)))) payload"

definition decode_caps :: "bytes \<Rightarrow> payload_error + message_ref" where
  "decode_caps = with_cursor
     (act_bind read_str16 (\<lambda>s. act_bind (act_lift (caps_parse s)) (\<lambda>c. act_ok (CompatibilityResponse c))))"

definition decode_error :: "opcode \<Rightarrow> bytes \<Rightarrow> payload_error + message_ref" where
  "decode_error oc payload =
     res_bind (expect_len oc payload 1) (\<lambda>_.
       case list_get payload 0 of
         None \<Rightarrow> Inl (InvalidLength oc 1 (length payload))
       | Some code \<Rightarrow> Inr (Error (ErrorResponse code)))"

definition decode_changed :: "opcode \<Rightarrow> bytes \<Rightarrow> payload_error + message_ref" where
  "decode_changed oc payload =
     res_bind (expect_len oc payload 2) (\<lambda>_.
       res_map Changed (fst (read_u16 (cursor_new payload))))"

definition decode_empty :: "opcode \<Rightarrow> bytes \<Rightarrow> message_ref \<Rightarrow> payload_error + message_ref" where
  "decode_empty oc payload m = res_map (\<lambda>_. m) (expect_empty oc payload)"

definition message_decode :: "opcode \<Rightarrow> bytes \<Rightarrow> payload_error + message_ref" where
  "message_decode oc payload = (let b = as_u8 oc in
     if b = 0x50 then decode_empty oc payload (Request Ping)
     else if b = 0x49 then decode_empty oc payload (Request Identify)
     else if b = 0x43 then decode_empty oc payload (Request GetKeytabLen)
     else if b = 0x53 then decode_keyref_request oc payload GetKey
     else if b = 0x47 then decode_keyref_request oc payload Get
     else if b = 0x4E then decode_keyref_request oc payload Observe
     else if b = 0x55 then decode_keyref_request oc payload Unobserve
     else if b = 0x57 then decode_write payload
     else if b = 0x3F then decode_empty oc payload CompatibilityRequest
     else if b = 0x6B then decode_empty oc payload (OrdinaryResponse Ok)
     else if b = 0x69 then decode_identified payload
     else if b = 0x63 then decode_keytablen oc payload
     else if b = 0x73 then decode_key payload
     else if b = 0x67 then decode_value_response payload False
     else if b = 0x77 then decode_value_response payload True
     else if b = 0x3A then decode_caps payload
     else if b = 0x40 then decode_error oc payload
     else if b = 0x21 then decode_changed oc payload
     else Inl (UnknownPayloadOpcode oc))"

section \<open>The layout of the messages\<close>

fun request_opcode :: "request_ref \<Rightarrow> opcode" where
  "request_opcode Ping = PING"
| "request_opcode Identify = IDENTIFY"
| "request_opcode GetKeytabLen = GETKEYTABLEN"
| "request_opcode (GetKey _) = GETKEY"
| "request_opcode (Get _) = GET"
| "request_opcode (Write _ _) = WRITE"
| "request_opcode (Observe _) = OBSERVE"
| "request_opcode (Unobserve _) = UNOBSERVE"

fun encode_request :: "request_ref \<Rightarrow> bytes" where
  "encode_request (GetKey k) = to_be 2 k"
| "encode_request (Get k) = to_be 2 k"
| "encode_request (Write k v) = to_be 2 k @ encode_value v"
| "encode_request (Observe k) = to_be 2 k"
| "encode_request (Unobserve k) = to_be 2 k"
| "encode_request _ = []"

fun wf_request :: "request_ref \<Rightarrow> bool" where
  "wf_request (Write k v) = wf_value v"
| "wf_request _ = True"

fun response_opcode :: "ordinary_response_ref \<Rightarrow> opcode" where
  "response_opcode Ok = OK"
| "response_opcode (Identified _) = IDENTIFIED"
| "response_opcode (KeytabLen _) = KEYTABLEN"
| "response_opcode (Key _ _) = KEY"
| "response_opcode (Value _) = VALUE"
| "response_opcode (Written _) = WRITTEN"

fun encode_response :: "ordinary_response_ref \<Rightarrow> bytes" where
  "encode_response Ok = []"
| "encode_response (Identified s) = encode_str16 s"
| "encode_response (KeytabLen n) = to_be 2 n"
| "encode_response (Key f s) = flag_bits f # encode_str16 s"
| "encode_response (Value v) = encode_value v"
| "encode_response (Written v) = encode_value v"

fun wf_response :: "ordinary_response_ref \<Rightarrow> bool" where
  "wf_response Ok = True"
| "wf_response (Identified s) = wf_str s"
| "wf_response (KeytabLen _) = True"
| "wf_response (Key f s) = (wf_flags f \<and> wf_str s)"
| "wf_response (Value v) = wf_value v"
| "wf_response (Written v) = wf_value v"

definition wf_caps :: "caps_ref \<Rightarrow> bool" where
  "wf_caps c \<longleftrightarrow> wf_str (caps_raw c) \<and> caps_parse (caps_raw c) = Inr c"

fun message_opcode :: "message_ref \<Rightarrow> opcode" where
  "message_opcode (Request q) = request_opcode q"
| "message_opcode (OrdinaryResponse r) = response_opcode r"
| "message_opcode CompatibilityRequest = GETCAPS"
| "message_opcode (CompatibilityResponse _) = CAPS"
| "message_opcode (Error _) = ERROR"
| "message_opcode (Changed _) = CHANGED"

fun encode_payload :: "message_ref \<Rightarrow> bytes" where
  "encode_payload (Request q) = encode_request q"
| "encode_payload (OrdinaryResponse r) = encode_response r"
| "encode_payload CompatibilityRequest = []"
| "encode_payload (CompatibilityResponse c) = encode_str16 (caps_raw c)"
| "encode_payload (Error e) = [error_code e]"
| "encode_payload (Changed k) = to_be 2 k"

fun wf_message :: "message_ref \<Rightarrow> bool" where
  "wf_message (Request q) = wf_request q"
| "wf_message (OrdinaryResponse r) = wf_response r"
| "wf_message (CompatibilityResponse c) = wf_caps c"
| "wf_message _ = True"

section \<open>The decoder accepts exactly the encodings\<close>

lemma with_cursor_Inr:
  "with_cursor fld p = Inr a \<longleftrightarrow> (\<exists>c. fld \<lparr>remaining = p\<rparr> = (Inr a, c) \<and> remaining c = [])"
  by (auto simp: with_cursor_def act_bind_def cursor_new_def cursor_finish_def act_ok_def
      split: prod.splits sum.splits if_splits)

lemma read_u16_all: "length p = 2 \<Longrightarrow> fst (read_u16 \<lparr>remaining = p\<rparr>) = Inr w \<longleftrightarrow> p = to_be 2 w"
  for w :: u16
proof -
  assume "length p = 2"
  then obtain c where "read_u16 \<lparr>remaining = p\<rparr> = (Inr (from_be p), c)"
    by (auto simp: read_u16_def act_bind_def take_array_def cursor_take_def)
  moreover from \<open>length p = 2\<close> have "p = to_be 2 (from_be p :: u16)"
    using to_be_from_be [of p, where ?'a = 16] by simp
  ultimately show ?thesis by (auto simp: from_be_2)
qed

lemma expect_len_Inr: "expect_len oc p n = Inr u \<longleftrightarrow> length p = n"
  by (simp add: expect_len_def)

lemma decode_empty_Inr: "decode_empty oc p m = Inr m' \<longleftrightarrow> p = [] \<and> m' = m"
  by (auto simp: decode_empty_def expect_empty_def)

lemma decode_keyref_request_Inr:
  "decode_keyref_request oc p ctor = Inr m \<longleftrightarrow> (\<exists>k. p = to_be 2 k \<and> m = Request (ctor k))"
  by (cases "length p = 2")
    (auto simp: decode_keyref_request_def expect_len_def res_map_eq_Inr cursor_new_def read_u16_all)

lemma decode_keytablen_Inr:
  "decode_keytablen oc p = Inr m \<longleftrightarrow> (\<exists>n. p = to_be 2 n \<and> m = OrdinaryResponse (KeytabLen n))"
  by (cases "length p = 2")
    (auto simp: decode_keytablen_def expect_len_def res_map_eq_Inr cursor_new_def read_u16_all)

lemma decode_changed_Inr: "decode_changed oc p = Inr m \<longleftrightarrow> (\<exists>k. p = to_be 2 k \<and> m = Changed k)"
  by (cases "length p = 2")
    (auto simp: decode_changed_def expect_len_def res_map_eq_Inr cursor_new_def read_u16_all)

lemma decode_error_Inr:
  "decode_error oc p = Inr m \<longleftrightarrow> (\<exists>e. p = [error_code e] \<and> m = Error e)"
proof (cases "\<exists>b. p = [b]")
  case True
  then obtain b where "p = [b]" ..
  then show ?thesis
    by (auto simp: decode_error_def expect_len_def list_get_def intro: exI [of _ "ErrorResponse b"])
next
  case False
  then show ?thesis by (auto simp: decode_error_def expect_len_def length_Suc_conv)
qed

lemma decode_write_Inr:
  "decode_write p = Inr m \<longleftrightarrow>
     (\<exists>k v. wf_value v \<and> p = to_be 2 k @ encode_value v \<and> m = Request (Write k v))"
proof
  assume "decode_write p = Inr m"
  then show "\<exists>k v. wf_value v \<and> p = to_be 2 k @ encode_value v \<and> m = Request (Write k v)"
    by (auto simp: decode_write_def with_cursor_Inr act_bind_eq_Inr read_u16_Inr value_decode_Inr)
next
  assume "\<exists>k v. wf_value v \<and> p = to_be 2 k @ encode_value v \<and> m = Request (Write k v)"
  then show "decode_write p = Inr m"
    using value_decode_forward [of _ "[]"]
    by (auto simp: decode_write_def with_cursor_Inr act_bind_def read_forward)
qed

lemma decode_identified_Inr:
  "decode_identified p = Inr m \<longleftrightarrow>
     (\<exists>s. wf_str s \<and> p = encode_str16 s \<and> m = OrdinaryResponse (Identified s))"
  by (auto simp: decode_identified_def with_cursor_Inr act_bind_eq_Inr read_str16_Inr
      intro: exI [of _ "cursor_new []"] simp: cursor_new_def)

lemma decode_key_Inr:
  "decode_key p = Inr m \<longleftrightarrow>
     (\<exists>f s. wf_flags f \<and> wf_str s \<and> p = flag_bits f # encode_str16 s \<and> m = OrdinaryResponse (Key f s))"
proof
  assume "decode_key p = Inr m"
  then show "\<exists>f s. wf_flags f \<and> wf_str s \<and> p = flag_bits f # encode_str16 s
      \<and> m = OrdinaryResponse (Key f s)"
    by (auto simp: decode_key_def with_cursor_Inr act_bind_eq_Inr read_u8_Inr read_str16_Inr
        key_flags_new_Inr)
next
  assume "\<exists>f s. wf_flags f \<and> wf_str s \<and> p = flag_bits f # encode_str16 s
      \<and> m = OrdinaryResponse (Key f s)"
  then obtain f s where "wf_flags f" "wf_str s" "p = flag_bits f # encode_str16 s"
    "m = OrdinaryResponse (Key f s)" by blast
  moreover from this have "key_flags_new (flag_bits f) = Inr f" by (simp add: key_flags_new_Inr)
  ultimately show "decode_key p = Inr m"
    using read_forward(4) [of s "[]"]
    by (simp add: decode_key_def with_cursor_Inr act_bind_def read_forward(1))
qed

lemma decode_value_response_Inr:
  "decode_value_response p w = Inr m \<longleftrightarrow>
     (\<exists>v. wf_value v \<and> p = encode_value v \<and>
        m = OrdinaryResponse (if w then Written v else Value v))"
proof
  assume "decode_value_response p w = Inr m"
  then show "\<exists>v. wf_value v \<and> p = encode_value v \<and>
        m = OrdinaryResponse (if w then Written v else Value v)"
    by (auto simp: decode_value_response_def with_cursor_Inr act_bind_eq_Inr value_decode_Inr)
next
  assume "\<exists>v. wf_value v \<and> p = encode_value v \<and>
        m = OrdinaryResponse (if w then Written v else Value v)"
  then show "decode_value_response p w = Inr m"
    using value_decode_forward [of _ "[]"]
    by (auto simp: decode_value_response_def with_cursor_Inr act_bind_def)
qed

lemma caps_parse_raw: "caps_parse s = Inr c \<Longrightarrow> caps_raw c = s"
  by (auto simp: caps_parse_correct split: if_splits)

lemma decode_caps_Inr:
  "decode_caps p = Inr m \<longleftrightarrow>
     (\<exists>c. wf_caps c \<and> p = encode_str16 (caps_raw c) \<and> m = CompatibilityResponse c)"
proof
  assume "decode_caps p = Inr m"
  then obtain s c where "wf_str s" "p = encode_str16 s" "caps_parse s = Inr c" "m = CompatibilityResponse c"
    by (auto simp: decode_caps_def with_cursor_Inr act_bind_eq_Inr read_str16_Inr)
  with caps_parse_raw [of s c] show "\<exists>c. wf_caps c \<and> p = encode_str16 (caps_raw c) \<and> m = CompatibilityResponse c"
    by (auto simp: wf_caps_def)
next
  assume "\<exists>c. wf_caps c \<and> p = encode_str16 (caps_raw c) \<and> m = CompatibilityResponse c"
  then show "decode_caps p = Inr m"
    using read_forward(4) [of _ "[]"]
    by (auto simp: decode_caps_def with_cursor_Inr act_bind_def wf_caps_def)
qed

lemmas decoder_Inr =
  decode_empty_Inr decode_keyref_request_Inr decode_keytablen_Inr decode_changed_Inr
  decode_error_Inr decode_write_Inr decode_identified_Inr decode_key_Inr
  decode_value_response_Inr decode_caps_Inr

lemma message_decode_encode:
  "wf_message m \<Longrightarrow> message_decode (message_opcode m) (encode_payload m) = Inr m"
proof (cases m)
  case (Request q)
  then show "wf_message m \<Longrightarrow> ?thesis"
    by (cases q) (simp_all add: message_decode_def request_opcode_defs decoder_Inr)
next
  case (OrdinaryResponse r)
  then show "wf_message m \<Longrightarrow> ?thesis"
    by (cases r) (auto simp: message_decode_def response_opcode_defs decoder_Inr)
qed (auto simp: message_decode_def opcode_defs decoder_Inr)

lemma message_decode_undefined: "\<not> is_defined oc \<Longrightarrow> message_decode oc p = Inl (UnknownPayloadOpcode oc)"
  by (simp add: message_decode_def is_defined_def Let_def)

lemma message_decode_defined:
  assumes "is_defined oc" and "message_decode oc p = Inr m"
  shows "wf_message m \<and> message_opcode m = oc \<and> encode_payload m = p"
proof -
  obtain b where "oc = Opcode b" by (cases oc)
  with assms(1) have "b = 0x50 \<or> b = 0x49 \<or> b = 0x43 \<or> b = 0x53 \<or> b = 0x47 \<or> b = 0x57 \<or> b = 0x4E
      \<or> b = 0x55 \<or> b = 0x3F \<or> b = 0x6B \<or> b = 0x69 \<or> b = 0x63 \<or> b = 0x73 \<or> b = 0x67 \<or> b = 0x77
      \<or> b = 0x3A \<or> b = 0x40 \<or> b = 0x21"
    by (simp add: is_defined_def)
  then show ?thesis
    using assms(2) \<open>oc = Opcode b\<close>
    by (elim disjE) (auto simp: message_decode_def decoder_Inr opcode_defs)
qed

lemma message_decode_layout:
  "message_decode oc p = Inr m \<longleftrightarrow> wf_message m \<and> message_opcode m = oc \<and> encode_payload m = p"
  using message_decode_encode message_decode_defined message_decode_undefined by fastforce

text \<open>
  An opcode and payload decode to a message exactly when the message is well formed
  and they are its encoding: decoding is the inverse of the protocol's payload layout, every
  payload has at most one reading, and no other byte string is accepted.
\<close>

lemma message_decode_iff:
  "message_decode oc p = Inr m \<longleftrightarrow> wf_message m \<and> message_opcode m = oc \<and> encode_payload m = p"
  by (rule message_decode_layout)

section \<open>Responses and the requests they answer\<close>

text \<open>The error codes \<open>PROTOCOL.md\<close> lists for each request.\<close>

fun listed_errors :: "message_ref \<Rightarrow> u8 set" where
  "listed_errors (Request (GetKey _)) = {0x01}"
| "listed_errors (Request (Get _)) = {0x01, 0x02}"
| "listed_errors (Request (Write _ _)) = {0x01, 0x02, 0x03}"
| "listed_errors (Request (Observe _)) = {0x01, 0x02}"
| "listed_errors (Request (Unobserve _)) = {0x01}"
| "listed_errors _ = {}"

text \<open>A response answers a message when it is its success response or a listed error.\<close>

fun answers :: "message_ref \<Rightarrow> message_ref \<Rightarrow> bool" where
  "answers m (OrdinaryResponse r) \<longleftrightarrow> expected_ordinary_response (message_opcode m) = Some (response_opcode r)"
| "answers m (CompatibilityResponse c) \<longleftrightarrow> m = CompatibilityRequest"
| "answers m (Error e) \<longleftrightarrow> error_code e \<in> listed_errors m"
| "answers m _ \<longleftrightarrow> False"

lemma expected_responses:
  "expected_ordinary_response PING = Some OK" "expected_ordinary_response IDENTIFY = Some IDENTIFIED"
  "expected_ordinary_response GETKEYTABLEN = Some KEYTABLEN" "expected_ordinary_response GETKEY = Some KEY"
  "expected_ordinary_response GET = Some VALUE" "expected_ordinary_response WRITE = Some WRITTEN"
  "expected_ordinary_response OBSERVE = Some OK" "expected_ordinary_response UNOBSERVE = Some OK"
  by (simp_all add: expected_ordinary_response_def opcode_defs)

lemma answers_not_changed: "answers m resp \<Longrightarrow> resp \<noteq> Changed k"
  by auto

text \<open>Values that fit a \<open>WRITE\<close> request.\<close>

definition fitting_value :: "value_ref \<Rightarrow> bool" where
  "fitting_value v \<longleftrightarrow> wf_value v \<and> length (encode_value v) \<le> 65533"

end
