(* ===== verification/Frames.thy ===== *)
theory Frames
  imports Messages
begin

text \<open>
  Frames (\<open>types/frame.rs\<close>), the checksum helpers (\<open>parser/checksum.rs\<close>) and the parser of a
  complete frame slice (\<open>parser/frame.rs\<close>, \<open>parser/mod.rs\<close>). The specification is the byte
  layout \<open>opcode | length | payload | checksum\<close>; the parser is shown to accept exactly this
  layout, and a frame with one corrupted byte is never accepted.
\<close>

section \<open>Data and checksums\<close>

definition FRAME_OVERHEAD :: nat where "FRAME_OVERHEAD = 4"

record frame_header =
  header_opcode :: opcode
  header_payload_len :: u16
  header_checksum :: u8

record frame_view =
  frame_header_of :: frame_header
  frame_payload :: bytes

definition frame_header_new :: "opcode \<Rightarrow> u16 \<Rightarrow> u8 \<Rightarrow> frame_header" where
  "frame_header_new oc len c = \<lparr>header_opcode = oc, header_payload_len = len, header_checksum = c\<rparr>"

definition header_frame_len :: "frame_header \<Rightarrow> nat" where
  "header_frame_len h = unat (header_payload_len h) + FRAME_OVERHEAD"

definition frame_view_new :: "frame_header \<Rightarrow> bytes \<Rightarrow> frame_view" where
  "frame_view_new h p = \<lparr>frame_header_of = h, frame_payload = p\<rparr>"

definition frame_opcode :: "frame_view \<Rightarrow> opcode" where
  "frame_opcode f = header_opcode (frame_header_of f)"

definition frame_checksum :: "frame_view \<Rightarrow> u8" where
  "frame_checksum f = header_checksum (frame_header_of f)"

definition frame_payload_len :: "frame_view \<Rightarrow> u16" where
  "frame_payload_len f = header_payload_len (frame_header_of f)"

definition frame_len :: "frame_view \<Rightarrow> nat" where
  "frame_len f = header_frame_len (frame_header_of f)"

definition decode_message :: "frame_view \<Rightarrow> payload_error + message_ref" where
  "decode_message f = message_decode (frame_opcode f) (frame_payload f)"

definition frame_sum :: "bytes \<Rightarrow> u8" where
  "frame_sum frame = foldl (+) 0 frame"

definition compute_checksum :: "opcode \<Rightarrow> bytes \<Rightarrow> u8" where
  "compute_checksum oc payload =
     (let len = to_be 2 (word_of_nat (length payload) :: u16);
          acc = 0;
          acc = acc + as_u8 oc;
          acc = acc + len ! 0;
          acc = acc + len ! 1;
          acc = foldl (+) acc payload
      in 0 - acc)"

section \<open>Parsing a slice\<close>

definition parse_frame :: "wire_direction \<Rightarrow> bytes \<Rightarrow> frame_error + frame_view" where
  "parse_frame direction frame =
     (if length frame < FRAME_OVERHEAD then Inl Truncated_Frame
      else case take 3 frame of
        [opcode_byte, length_hi, length_lo] \<Rightarrow>
          let oc = Opcode opcode_byte;
              len = from_be [length_hi, length_lo] :: u16;
              payload_len = length frame - FRAME_OVERHEAD
          in if payload_len \<noteq> unat len then Inl (LengthMismatch len payload_len)
          else let sum = frame_sum frame in
            if sum \<noteq> 0 then Inl (ChecksumMismatch sum)
            else res_bind (validate oc direction) (\<lambda>_.
              if frame = [] then Inl Truncated_Frame
              else let checksum = last frame; without_checksum = butlast frame in
                if length without_checksum < 3 then Inl Truncated_Frame
                else Inr (frame_view_new (frame_header_new oc len checksum) (drop 3 without_checksum)))
      | _ \<Rightarrow> Inl Truncated_Frame)"

section \<open>The layout of a frame\<close>

definition frame_bytes :: "opcode \<Rightarrow> bytes \<Rightarrow> bytes" where
  "frame_bytes oc p =
     as_u8 oc # to_be 2 (word_of_nat (length p) :: u16) @ p @ [compute_checksum oc p]"

text \<open>The view of such a frame.\<close>

definition view_of :: "opcode \<Rightarrow> bytes \<Rightarrow> frame_view" where
  "view_of oc p =
     frame_view_new (frame_header_new oc (word_of_nat (length p)) (compute_checksum oc p)) p"

lemma foldl_add_word: "foldl (+) (a :: u8) bs = a + frame_sum bs"
proof (induction bs rule: rev_induct)
  case (snoc b bs)
  then show ?case by (simp add: frame_sum_def add.assoc)
qed (simp add: frame_sum_def)

lemma frame_sum_simps [simp]:
  "frame_sum [] = 0"
  "frame_sum (b # bs) = b + frame_sum bs"
  "frame_sum (bs @ cs) = frame_sum bs + frame_sum cs"
proof -
  show "frame_sum (b # bs) = b + frame_sum bs"
    using foldl_add_word [of b bs] by (simp add: frame_sum_def)
  show "frame_sum (bs @ cs) = frame_sum bs + frame_sum cs"
    using foldl_add_word [of "foldl (+) 0 bs" cs] by (simp add: frame_sum_def)
qed (simp add: frame_sum_def)

lemma compute_checksum_sum:
  "compute_checksum oc p =
     - (as_u8 oc + frame_sum (to_be 2 (word_of_nat (length p) :: u16)) + frame_sum p)"
  by (simp add: compute_checksum_def foldl_add_word to_be_2_eq Let_def algebra_simps)

lemma frame_sum_frame_bytes [simp]: "frame_sum (frame_bytes oc p) = 0"
  by (simp add: frame_bytes_def compute_checksum_sum algebra_simps)

lemma length_frame_bytes [simp]: "length (frame_bytes oc p) = length p + 4"
  by (simp add: frame_bytes_def)

lemma checksum_unique:
  "as_u8 oc + frame_sum (to_be 2 (word_of_nat (length p) :: u16)) + frame_sum p + c = 0
     \<longleftrightarrow> c = compute_checksum oc p"
  by (metis add.commute add_eq_0_iff compute_checksum_sum)

text \<open>The parser on a slice with its three header bytes split off.\<close>

lemma parse_frame_parts:
  "parse_frame dir (o1 # hi # lo # p @ [c]) =
     (if length p \<noteq> unat (from_be [hi, lo] :: u16) then Inl (LengthMismatch (from_be [hi, lo]) (length p))
      else if frame_sum (o1 # hi # lo # p @ [c]) \<noteq> 0
        then Inl (ChecksumMismatch (frame_sum (o1 # hi # lo # p @ [c])))
      else res_bind (validate (Opcode o1) dir) (\<lambda>_.
        Inr (frame_view_new (frame_header_new (Opcode o1) (from_be [hi, lo]) c) p)))"
  by (simp add: parse_frame_def FRAME_OVERHEAD_def Let_def butlast_append)

lemma four_parts: "4 \<le> length bs \<Longrightarrow> \<exists>o1 hi lo p c. bs = o1 # hi # lo # p @ [c]"
proof -
  assume "4 \<le> length bs"
  then obtain o1 hi lo q where "bs = o1 # hi # lo # q" "q \<noteq> []"
    by (auto simp: Suc_le_length_iff eval_nat_numeral)
  then show ?thesis by (metis append_butlast_last_id)
qed

lemma be_2_length:
  "length p = unat (from_be [hi, lo] :: u16) \<longleftrightarrow>
     length p \<le> 65535 \<and> [hi, lo] = to_be 2 (word_of_nat (length p) :: u16)"
proof
  assume "length p = unat (from_be [hi, lo] :: u16)"
  then show "length p \<le> 65535 \<and> [hi, lo] = to_be 2 (word_of_nat (length p) :: u16)"
    using unat_u16_le [of "from_be [hi, lo]"] by (simp add: to_be_2)
next
  assume "length p \<le> 65535 \<and> [hi, lo] = to_be 2 (word_of_nat (length p) :: u16)"
  then show "length p = unat (from_be [hi, lo] :: u16)"
    by (simp add: from_be_2 unat_of_nat_u16)
qed

lemma parse_frame_layout:
  "parse_frame dir bs = Inr f \<longleftrightarrow>
     (\<exists>oc p. oc \<in> set (opcodes_of dir) \<and> length p \<le> 65535 \<and> bs = frame_bytes oc p \<and> f = view_of oc p)"
proof
  assume ok: "parse_frame dir bs = Inr f"
  then have "4 \<le> length bs" by (auto simp: parse_frame_def FRAME_OVERHEAD_def split: if_splits)
  then obtain o1 hi lo p c where bs: "bs = o1 # hi # lo # p @ [c]" using four_parts by blast
  from ok bs have len: "length p = unat (from_be [hi, lo] :: u16)"
    and sum: "frame_sum bs = 0" and v: "validate (Opcode o1) dir = Inr ()"
    and f: "f = frame_view_new (frame_header_new (Opcode o1) (from_be [hi, lo]) c) p"
    by (auto simp: parse_frame_parts res_bind_eq_Inr split: if_splits simp del: frame_sum_simps)
  from len have hl: "length p \<le> 65535" "[hi, lo] = to_be 2 (word_of_nat (length p) :: u16)"
    by (simp_all add: be_2_length)
  have "as_u8 (Opcode o1) + frame_sum [hi, lo] + frame_sum p + c = 0"
    using sum bs by (simp add: algebra_simps)
  with hl have "c = compute_checksum (Opcode o1) p" by (simp only: checksum_unique)
  moreover from hl have "from_be [hi, lo] = (word_of_nat (length p) :: u16)" by (simp add: from_be_2)
  moreover have "bs = as_u8 (Opcode o1) # [hi, lo] @ p @ [c]" using bs by simp
  ultimately show "\<exists>oc p. oc \<in> set (opcodes_of dir) \<and> length p \<le> 65535
      \<and> bs = frame_bytes oc p \<and> f = view_of oc p"
    using hl v f validate_iff by (metis frame_bytes_def view_of_def)
next
  assume "\<exists>oc p. oc \<in> set (opcodes_of dir) \<and> length p \<le> 65535 \<and> bs = frame_bytes oc p \<and> f = view_of oc p"
  then obtain oc p where oc: "oc \<in> set (opcodes_of dir)" and p: "length p \<le> 65535"
    and bs: "bs = frame_bytes oc p" and f: "f = view_of oc p" by blast
  obtain hi lo where hl: "to_be 2 (word_of_nat (length p) :: u16) = [hi, lo]" by (simp add: to_be_2_eq)
  then have be: "from_be [hi, lo] = (word_of_nat (length p) :: u16)" by (metis from_be_2)
  have parts: "bs = as_u8 oc # hi # lo # p @ [compute_checksum oc p]"
    using bs hl by (simp add: frame_bytes_def)
  moreover have "frame_sum bs = 0" using bs by simp
  ultimately show "parse_frame dir bs = Inr f"
    using oc p f be validate_iff [of oc dir]
    by (simp add: parse_frame_parts view_of_def unat_of_nat_u16 del: frame_sum_simps)
qed

text \<open>
  Parsing a slice succeeds exactly on the frames of the protocol: a defined opcode
  of that direction, the two-byte big-endian length of the payload, the payload and the
  checksum that makes the sum of all bytes zero; the view returns those parts.
\<close>

lemma parse_frame_iff:
  "parse_frame dir bs = Inr f \<longleftrightarrow>
     (\<exists>oc p. oc \<in> set (opcodes_of dir) \<and> length p \<le> 65535 \<and> bs = frame_bytes oc p \<and> f = view_of oc p)"
  by (rule parse_frame_layout)

lemma frame_sum_update:
  "i < length bs \<Longrightarrow> frame_sum (bs[i := b]) = frame_sum bs - bs ! i + b"
  by (induction bs arbitrary: i) (auto simp: nth_Cons' algebra_simps split: nat.splits)

text \<open>
  The checksum detects every single-byte error: a frame the parser accepts is rejected
  after any one of its bytes, header and checksum included, is replaced by a different byte.
\<close>

lemma parse_frame_detects_byte_error:
  assumes "parse_frame dir bs = Inr f" and "i < length bs" and "b \<noteq> bs ! i"
  shows "\<exists>e. parse_frame dir' (bs[i := b]) = Inl e"
proof (rule ccontr)
  assume "\<not> (\<exists>e. parse_frame dir' (bs[i := b]) = Inl e)"
  then obtain f' where "parse_frame dir' (bs[i := b]) = Inr f'"
    by (cases "parse_frame dir' (bs[i := b])") auto
  then have "frame_sum (bs[i := b]) = 0" by (auto simp: parse_frame_layout)
  moreover from assms(1) have "frame_sum bs = 0" by (auto simp: parse_frame_layout)
  ultimately show False using assms(2,3) by (simp add: frame_sum_update)
qed

lemma parse_frame_detects_byte_error_witness:
  "\<exists>e. parse_frame ClientToNode ((frame_bytes PING [])[1 := 1]) = Inl e"
proof (rule parse_frame_detects_byte_error)
  show "parse_frame ClientToNode (frame_bytes PING []) = Inr (view_of PING [])"
    unfolding parse_frame_layout
    by (intro exI [of _ PING] exI [of _ "[]"]) (simp add: opcodes_of_def client_opcodes_def)
qed (simp_all add: frame_bytes_def to_be_2_eq)

section \<open>Messages in frames\<close>

definition message_bytes :: "message_ref \<Rightarrow> bytes" where
  "message_bytes m = frame_bytes (message_opcode m) (encode_payload m)"

text \<open>A message that fits a frame of the direction.\<close>

definition wire_message :: "wire_direction \<Rightarrow> message_ref \<Rightarrow> bool" where
  "wire_message dir m \<longleftrightarrow>
     wf_message m \<and> length (encode_payload m) \<le> 65535 \<and> message_opcode m \<in> set (opcodes_of dir)"

lemma view_of_simps [simp]:
  "frame_opcode (view_of oc p) = oc"
  "frame_payload (view_of oc p) = p"
  "frame_checksum (view_of oc p) = compute_checksum oc p"
  by (simp_all add: view_of_def frame_opcode_def frame_view_new_def frame_header_new_def frame_checksum_def)

lemma decode_view_of: "decode_message (view_of oc p) = message_decode oc p"
  by (simp add: decode_message_def)

text \<open>
  C1: the complete decoder of one message, parsing the frame and then its payload, yields
  a message exactly on the unique frame that encodes it; so every well-formed message that
  fits a frame has one encoding and no two messages share one.
\<close>

theorem frame_message_iff:
  "res_bind (res_map_err Inl (parse_frame dir bs)) (\<lambda>f. res_map_err Inr (decode_message f)) = Inr m
     \<longleftrightarrow> wire_message dir m \<and> bs = message_bytes m"
proof
  assume "res_bind (res_map_err Inl (parse_frame dir bs)) (\<lambda>f. res_map_err Inr (decode_message f)) = Inr m"
  then obtain f where "parse_frame dir bs = Inr f" "decode_message f = Inr m"
    by (auto simp: res_bind_eq_Inr)
  then show "wire_message dir m \<and> bs = message_bytes m"
    by (auto simp: parse_frame_layout decode_view_of message_decode_layout wire_message_def message_bytes_def)
next
  assume a: "wire_message dir m \<and> bs = message_bytes m"
  then have "parse_frame dir bs = Inr (view_of (message_opcode m) (encode_payload m))"
    unfolding parse_frame_layout by (auto simp: wire_message_def message_bytes_def)
  moreover from a have "message_decode (message_opcode m) (encode_payload m) = Inr m"
    by (simp add: wire_message_def message_decode_encode)
  ultimately show "res_bind (res_map_err Inl (parse_frame dir bs)) (\<lambda>f. res_map_err Inr (decode_message f)) = Inr m"
    by (simp add: decode_view_of)
qed

section \<open>Distinct messages have distinct frames\<close>

lemma message_bytes_inj:
  assumes "wire_message NodeToClient m" and "wire_message NodeToClient m'" and "message_bytes m = message_bytes m'"
  shows "m = m'"
proof -
  have dec: "parse_frame NodeToClient (message_bytes x) = Inr (view_of (message_opcode x) (encode_payload x))"
    if "wire_message NodeToClient x" for x
    using that unfolding parse_frame_layout by (auto simp: wire_message_def message_bytes_def)
  have view: "view_of (message_opcode m) (encode_payload m) = view_of (message_opcode m') (encode_payload m')"
    using dec [OF assms(1), unfolded assms(3)] dec [OF assms(2)] by (simp only: sum.inject)
  have "message_opcode m = message_opcode m'" "encode_payload m = encode_payload m'"
    using arg_cong [OF view, of frame_opcode] arg_cong [OF view, of frame_payload]
    by (simp_all only: view_of_simps)
  note same = this
  have "message_decode (message_opcode m') (encode_payload m') = Inr m"
    using assms(1) same by (simp only: message_decode_layout wire_message_def simp_thms)
  moreover have "message_decode (message_opcode m') (encode_payload m') = Inr m'"
    using assms(2) by (simp only: message_decode_layout wire_message_def simp_thms)
  ultimately show ?thesis by (simp only: sum.inject)
qed

lemma wire_requests:
  "wire_message ClientToNode (Request Ping)" "wire_message ClientToNode (Request (Get k))"
  "wire_message ClientToNode (Request (GetKey k))" "wire_message ClientToNode (Request (Observe k))"
  "wire_message ClientToNode (Request (Unobserve k))" "wire_message ClientToNode (Request Identify)"
  "wire_message ClientToNode (Request GetKeytabLen)" "wire_message ClientToNode CompatibilityRequest"
  "wire_message ClientToNode (Request (Write k (I64 i)))"
  by (simp_all add: wire_message_def opcodes_of_def client_opcodes_def)

end
