(* ===== verification/Test_Node.thy ===== *)
theory Test_Node
  imports Frames
begin

text \<open>
  The test node (\<open>crates/qup-test-node/src/main.rs\<close>): its key table, the shared key values,
  the registry of connections with their observation masks and outgoing channels, the
  dispatch of requests and the background updates. Atomics and mutexes are fields of one
  state; an operation of the model is one run of the corresponding method. A channel is the
  list of frames sent into it; the process clock is a parameter.
\<close>

section \<open>The key table\<close>

definition node_caps :: rstr where "node_caps = ascii ''PkIiCcSsGgWwNkUk!''"
definition node_id :: rstr where "node_id = ascii ''qup-test-node''"

definition KEY_COUNT :: u16 where "KEY_COUNT = 14"

definition ERR_UNKNOWN_KEYREF :: u8 where "ERR_UNKNOWN_KEYREF = 0x01"
definition ERR_PERMISSION :: u8 where "ERR_PERMISSION = 0x02"
definition ERR_TYPE_MISMATCH :: u8 where "ERR_TYPE_MISMATCH = 0x03"

lemmas err_defs = ERR_UNKNOWN_KEYREF_def ERR_PERMISSION_def ERR_TYPE_MISMATCH_def

definition KEY_VOLTAGE_MA :: u16 where "KEY_VOLTAGE_MA = 0"
definition KEY_UPTIME :: u16 where "KEY_UPTIME = 1"
definition KEY_GP1_STRING :: u16 where "KEY_GP1_STRING = 2"
definition KEY_GP2_U64 :: u16 where "KEY_GP2_U64 = 3"
definition KEY_GP3_I64 :: u16 where "KEY_GP3_I64 = 4"
definition KEY_MIRROR_IN :: u16 where "KEY_MIRROR_IN = 5"
definition KEY_MIRROR_OUT :: u16 where "KEY_MIRROR_OUT = 6"
definition KEY_SMALL_STR10 :: u16 where "KEY_SMALL_STR10 = 7"
definition KEY_SMALL_STR0 :: u16 where "KEY_SMALL_STR0 = 8"
definition KEY_PERM_U64_W :: u16 where "KEY_PERM_U64_W = 11"
definition KEY_PERM_U64_RW :: u16 where "KEY_PERM_U64_RW = 12"
definition KEY_PERM_U64_R :: u16 where "KEY_PERM_U64_R = 13"

lemmas key_defs =
  KEY_VOLTAGE_MA_def KEY_UPTIME_def KEY_GP1_STRING_def KEY_GP2_U64_def KEY_GP3_I64_def
  KEY_MIRROR_IN_def KEY_MIRROR_OUT_def KEY_SMALL_STR10_def KEY_SMALL_STR0_def
  KEY_PERM_U64_W_def KEY_PERM_U64_RW_def KEY_PERM_U64_R_def

record key_spec =
  spec_name :: rstr
  spec_flags :: u8

definition spec_of :: "string \<Rightarrow> u8 \<Rightarrow> key_spec" where
  "spec_of name flags = \<lparr>spec_name = ascii name, spec_flags = flags\<rparr>"

definition KEY_SPECS :: "key_spec list" where
  "KEY_SPECS =
     [spec_of ''voltage_ma'' (READABLE OR OBSERVABLE),
      spec_of ''uptime'' READABLE,
      spec_of ''gp1_string'' (READABLE OR WRITABLE OR OBSERVABLE),
      spec_of ''gp2_u64'' (READABLE OR WRITABLE OR OBSERVABLE),
      spec_of ''gp3_i64'' (READABLE OR WRITABLE OR OBSERVABLE),
      spec_of ''mirror_in'' WRITABLE,
      spec_of ''mirror_out'' (READABLE OR OBSERVABLE),
      spec_of ''small_str10'' (READABLE OR WRITABLE OR OBSERVABLE),
      spec_of ''small_str0'' (READABLE OR WRITABLE OR OBSERVABLE),
      spec_of ''dead'' 0,
      spec_of ''dead2'' 0,
      spec_of ''perm_u64_w'' WRITABLE,
      spec_of ''perm_u64_rw'' (READABLE OR WRITABLE),
      spec_of ''perm_u64_r'' READABLE]"

definition key_spec :: "u16 \<Rightarrow> key_spec option" where
  "key_spec keyref = list_get KEY_SPECS (unat keyref)"

section \<open>Encoding responses\<close>

datatype wire_value = Wire_I64 i64 | Wire_Str rstr

text \<open>A result of \<open>None\<close> is the panic of \<open>build_frame\<close> or \<open>push_str16\<close> on a length above \<open>u16\<close>.\<close>

definition node_build_frame :: "opcode \<Rightarrow> bytes \<Rightarrow> bytes option" where
  "node_build_frame oc payload =
     (case u16_try_from (length payload) of
        None \<Rightarrow> None
      | Some len \<Rightarrow> Some ([as_u8 oc] @ to_be 2 len @ payload @ [compute_checksum oc payload]))"

definition node_push_str16 :: "bytes \<Rightarrow> rstr \<Rightarrow> bytes option" where
  "node_push_str16 payload value =
     (case u16_try_from (length value) of
        None \<Rightarrow> None
      | Some len \<Rightarrow> Some (payload @ to_be 2 len @ value))"

definition node_push_value :: "bytes \<Rightarrow> wire_value \<Rightarrow> bytes option" where
  "node_push_value payload value =
     (case value of
        Wire_I64 i \<Rightarrow> Some (payload @ [kind_as_byte I64_Kind] @ to_be 8 i)
      | Wire_Str s \<Rightarrow> node_push_str16 (payload @ [kind_as_byte Str_Kind]) s)"

definition encode_ok :: "bytes option" where
  "encode_ok = node_build_frame OK []"

definition encode_identified :: "bytes option" where
  "encode_identified = Option.bind (node_push_str16 [] node_id) (node_build_frame IDENTIFIED)"

definition encode_keytab_len :: "bytes option" where
  "encode_keytab_len = node_build_frame KEYTABLEN (to_be 2 KEY_COUNT)"

definition encode_key :: "key_spec \<Rightarrow> bytes option" where
  "encode_key spec = Option.bind (node_push_str16 [spec_flags spec] (spec_name spec)) (node_build_frame KEY)"

definition encode_value_response :: "opcode \<Rightarrow> wire_value \<Rightarrow> bytes option" where
  "encode_value_response oc value = Option.bind (node_push_value [] value) (node_build_frame oc)"

definition encode_error :: "u8 \<Rightarrow> bytes option" where
  "encode_error code = node_build_frame ERROR [code]"

definition encode_caps :: "bytes option" where
  "encode_caps = Option.bind (node_push_str16 [] node_caps) (node_build_frame CAPS)"

definition encode_changed :: "u16 \<Rightarrow> bytes option" where
  "encode_changed keyref = node_build_frame CHANGED (to_be 2 keyref)"

section \<open>Connections\<close>

record connection_handle =
  channel :: "bytes list"
  receiver_open :: bool
  observed_mask :: u16

definition handle_new :: connection_handle where
  "handle_new = \<lparr>channel = [], receiver_open = True, observed_mask = 0\<rparr>"

definition handle_send :: "bytes \<Rightarrow> connection_handle \<Rightarrow> bool \<times> connection_handle" where
  "handle_send frame h =
     (if receiver_open h then (True, h\<lparr>channel := channel h @ [frame]\<rparr>) else (False, h))"

definition key_mask :: "u16 \<Rightarrow> u16 option" where
  "key_mask keyref = (if unat keyref < 16 then Some (push_bit (unat keyref) 1) else None)"

definition handle_observe :: "u16 \<Rightarrow> connection_handle \<Rightarrow> connection_handle" where
  "handle_observe keyref h = (case key_mask keyref of
     Some msk \<Rightarrow> h\<lparr>observed_mask := observed_mask h OR msk\<rparr> | None \<Rightarrow> h)"

definition handle_unobserve :: "u16 \<Rightarrow> connection_handle \<Rightarrow> connection_handle" where
  "handle_unobserve keyref h = (case key_mask keyref of
     Some msk \<Rightarrow> h\<lparr>observed_mask := observed_mask h AND NOT msk\<rparr> | None \<Rightarrow> h)"

definition is_observing :: "u16 \<Rightarrow> connection_handle \<Rightarrow> bool" where
  "is_observing keyref h = (case key_mask keyref of
     Some msk \<Rightarrow> observed_mask h AND msk \<noteq> 0 | None \<Rightarrow> False)"

record connection_registry =
  next_id :: u64
  connections :: "u64 \<Rightarrow> connection_handle option"

definition registry_new :: connection_registry where
  "registry_new = \<lparr>next_id = 1, connections = (\<lambda>_. None)\<rparr>"

definition register :: "connection_registry \<Rightarrow> u64 \<times> connection_registry" where
  "register reg = (let connection_id = next_id reg in
     (connection_id, reg\<lparr>next_id := next_id reg + 1,
        connections := (connections reg)(connection_id \<mapsto> handle_new)\<rparr>))"

definition unregister :: "u64 \<Rightarrow> connection_registry \<Rightarrow> connection_registry" where
  "unregister connection_id reg = reg\<lparr>connections := (connections reg)(connection_id := None)\<rparr>"

text \<open>
  \<open>broadcast_changed\<close> visits the registered handles; each has its own channel, so the
  visiting order is not observable and the update is pointwise.
\<close>

definition broadcast_changed :: "u16 \<Rightarrow> connection_registry \<Rightarrow> connection_registry option" where
  "broadcast_changed keyref reg =
     map_option (\<lambda>frame. reg\<lparr>connections := (\<lambda>i. map_option
       (\<lambda>h. if is_observing keyref h then snd (handle_send frame h) else h) (connections reg i))\<rparr>)
     (encode_changed keyref)"

section \<open>Shared state\<close>

record shared_state =
  registry :: connection_registry
  rng_seed :: u64
  voltage_ma :: i64
  gp1_string :: rstr
  gp2_u64 :: u64
  gp3_i64 :: i64
  mirror_in :: rstr
  mirror_pending :: rstr
  mirror_generation :: u64
  mirror_out :: rstr
  small_str10 :: rstr
  small_str0 :: rstr
  perm_u64_w :: u64
  perm_u64_rw :: u64
  scheduled :: "u64 list"

text \<open>\<open>scheduled\<close> lists the generations of the spawned mirror updates that still sleep.\<close>

definition shared_new :: "u64 \<Rightarrow> connection_registry \<Rightarrow> shared_state" where
  "shared_new seed reg =
     \<lparr>registry = reg, rng_seed = seed, voltage_ma = 250, gp1_string = [], gp2_u64 = 0, gp3_i64 = 0,
      mirror_in = [], mirror_pending = [], mirror_generation = 0, mirror_out = [],
      small_str10 = [], small_str0 = [], perm_u64_w = 0, perm_u64_rw = 0, scheduled = []\<rparr>"

definition I64_MAX :: i64 where "I64_MAX = 0x7FFFFFFFFFFFFFFF"

definition u64_to_wire :: "u64 \<Rightarrow> i64" where
  "u64_to_wire v = (if unat v < 2 ^ 63 then v else I64_MAX)"

definition uptime_seconds :: "u64 \<Rightarrow> i64" where
  "uptime_seconds elapsed = (if unat elapsed < 2 ^ 63 then elapsed else I64_MAX)"

definition i64_saturating :: "int \<Rightarrow> i64" where
  "i64_saturating i = word_of_int (max (- (2 ^ 63)) (min (2 ^ 63 - 1) i))"

definition u64_saturating_add :: "u64 \<Rightarrow> u64 \<Rightarrow> u64" where
  "u64_saturating_add a b = (if unat a + unat b < 2 ^ 64 then a + b else - 1)"

definition expect_i64 :: "value_ref \<Rightarrow> u8 + i64" where
  "expect_i64 value = (case value of I64 v \<Rightarrow> Inr v | Bool _ \<Rightarrow> Inl ERR_TYPE_MISMATCH | Str _ \<Rightarrow> Inl ERR_TYPE_MISMATCH)"

definition expect_u64 :: "value_ref \<Rightarrow> u8 + u64" where
  "expect_u64 value = res_bind (expect_i64 value) (\<lambda>v. if sint v < 0 then Inl ERR_TYPE_MISMATCH else Inr v)"

definition expect_str :: "value_ref \<Rightarrow> u8 + rstr" where
  "expect_str value = (case value of Str s \<Rightarrow> Inr s | Bool _ \<Rightarrow> Inl ERR_TYPE_MISMATCH | I64 _ \<Rightarrow> Inl ERR_TYPE_MISMATCH)"

definition observable_change :: "u16 \<Rightarrow> bool \<Rightarrow> u16 option" where
  "observable_change keyref changed =
     (if changed \<and> (case key_spec keyref of Some spec \<Rightarrow> spec_flags spec AND OBSERVABLE \<noteq> 0 | None \<Rightarrow> False)
      then Some keyref else None)"

definition get_value :: "u64 \<Rightarrow> u16 \<Rightarrow> shared_state \<Rightarrow> u8 + wire_value" where
  "get_value elapsed keyref st =
     (case key_spec keyref of
        None \<Rightarrow> Inl ERR_UNKNOWN_KEYREF
      | Some spec \<Rightarrow>
          if spec_flags spec AND READABLE = 0 then Inl ERR_PERMISSION
          else if keyref = KEY_VOLTAGE_MA then Inr (Wire_I64 (voltage_ma st))
          else if keyref = KEY_UPTIME then Inr (Wire_I64 (uptime_seconds elapsed))
          else if keyref = KEY_GP1_STRING then Inr (Wire_Str (gp1_string st))
          else if keyref = KEY_GP2_U64 then Inr (Wire_I64 (u64_to_wire (gp2_u64 st)))
          else if keyref = KEY_GP3_I64 then Inr (Wire_I64 (gp3_i64 st))
          else if keyref = KEY_MIRROR_OUT then Inr (Wire_Str (mirror_out st))
          else if keyref = KEY_SMALL_STR10 then Inr (Wire_Str (small_str10 st))
          else if keyref = KEY_SMALL_STR0 then Inr (Wire_Str (small_str0 st))
          else if keyref = KEY_PERM_U64_RW then Inr (Wire_I64 (u64_to_wire (perm_u64_rw st)))
          else if keyref = KEY_PERM_U64_R then Inr (Wire_I64 1337)
          else Inl ERR_PERMISSION)"

record write_success =
  written_value :: wire_value
  changed_keyref :: "u16 option"

definition write_success_new :: "wire_value \<Rightarrow> u16 option \<Rightarrow> write_success" where
  "write_success_new v k = \<lparr>written_value = v, changed_keyref = k\<rparr>"

definition schedule_mirror_update :: "u64 \<Rightarrow> shared_state \<Rightarrow> shared_state" where
  "schedule_mirror_update generation st = st\<lparr>scheduled := scheduled st @ [generation]\<rparr>"

definition write_value :: "u16 \<Rightarrow> value_ref \<Rightarrow> (shared_state, u8, write_success) action" where
  "write_value keyref value st =
     (case key_spec keyref of
        None \<Rightarrow> (Inl ERR_UNKNOWN_KEYREF, st)
      | Some spec \<Rightarrow>
          if spec_flags spec AND WRITABLE = 0 then (Inl ERR_PERMISSION, st)
          else if keyref = KEY_GP1_STRING then
            act_bind (act_lift (expect_str value)) (\<lambda>v st.
              let changed = gp1_string st \<noteq> v; st = st\<lparr>gp1_string := v\<rparr> in
              (Inr (write_success_new (Wire_Str (gp1_string st)) (observable_change keyref changed)), st)) st
          else if keyref = KEY_GP2_U64 then
            act_bind (act_lift (expect_u64 value)) (\<lambda>v st.
              let previous = gp2_u64 st; st = st\<lparr>gp2_u64 := v\<rparr> in
              (Inr (write_success_new (Wire_I64 (u64_to_wire v)) (observable_change keyref (previous \<noteq> v))), st)) st
          else if keyref = KEY_GP3_I64 then
            act_bind (act_lift (expect_i64 value)) (\<lambda>v st.
              let previous = gp3_i64 st; st = st\<lparr>gp3_i64 := v\<rparr> in
              (Inr (write_success_new (Wire_I64 v) (observable_change keyref (previous \<noteq> v))), st)) st
          else if keyref = KEY_MIRROR_IN then
            act_bind (act_lift (expect_str value)) (\<lambda>v st.
              let st = st\<lparr>mirror_in := v\<rparr>; st = st\<lparr>mirror_pending := v\<rparr>;
                  generation = u64_saturating_add (mirror_generation st) 1;
                  st = st\<lparr>mirror_generation := mirror_generation st + 1\<rparr>;
                  st = schedule_mirror_update generation st
              in (Inr (write_success_new (Wire_Str v) None), st)) st
          else if keyref = KEY_SMALL_STR10 then
            act_bind (act_lift (expect_str value)) (\<lambda>v st.
              if length v > 10 then (Inl ERR_TYPE_MISMATCH, st)
              else let changed = small_str10 st \<noteq> v; st = st\<lparr>small_str10 := v\<rparr> in
                (Inr (write_success_new (Wire_Str (small_str10 st)) (observable_change keyref changed)), st)) st
          else if keyref = KEY_SMALL_STR0 then
            act_bind (act_lift (expect_str value)) (\<lambda>_. act_err ERR_TYPE_MISMATCH) st
          else if keyref = KEY_PERM_U64_W then
            act_bind (act_lift (expect_u64 value)) (\<lambda>v st.
              (Inr (write_success_new (Wire_I64 (u64_to_wire v)) None), st\<lparr>perm_u64_w := v\<rparr>)) st
          else if keyref = KEY_PERM_U64_RW then
            act_bind (act_lift (expect_u64 value)) (\<lambda>v st.
              (Inr (write_success_new (Wire_I64 (u64_to_wire v)) None), st\<lparr>perm_u64_rw := v\<rparr>)) st
          else (Inl ERR_PERMISSION, st))"

definition can_observe :: "u16 \<Rightarrow> u8 + unit" where
  "can_observe keyref = (case key_spec keyref of
     None \<Rightarrow> Inl ERR_UNKNOWN_KEYREF
   | Some spec \<Rightarrow> if spec_flags spec AND OBSERVABLE = 0 then Inl ERR_PERMISSION else Inr ())"

definition validate_keyref :: "u16 \<Rightarrow> u8 + unit" where
  "validate_keyref keyref = (if key_spec keyref \<noteq> None then Inr () else Inl ERR_UNKNOWN_KEYREF)"

section \<open>Background updates\<close>

definition mix_u64 :: "u64 \<Rightarrow> u64" where
  "mix_u64 value =
     (let first = value XOR drop_bit 30 value;
          second = first * 0xbf58476d1ce4e5b9;
          third = second XOR drop_bit 27 second;
          fourth = third * 0x94d049bb133111eb
      in fourth XOR drop_bit 31 fourth)"

definition next_voltage_offset :: "shared_state \<Rightarrow> i64 \<times> shared_state" where
  "next_voltage_offset st =
     (let seed = rng_seed st; st = st\<lparr>rng_seed := rng_seed st + 0x9e3779b97f4a7c15\<rparr>;
          mixed = mix_u64 seed;
          bucket = mixed mod 41
      in (i64_saturating ((if unat bucket < 2 ^ 63 then int (unat bucket) else 0) - 20), st))"

definition shared_broadcast :: "u16 \<Rightarrow> shared_state \<Rightarrow> shared_state option" where
  "shared_broadcast keyref st =
     map_option (\<lambda>reg. st\<lparr>registry := reg\<rparr>) (broadcast_changed keyref (registry st))"

definition update_voltage :: "shared_state \<Rightarrow> shared_state option" where
  "update_voltage st =
     (case next_voltage_offset st of (offset, st) \<Rightarrow>
        let next_value = i64_saturating (250 + sint offset);
            previous = voltage_ma st;
            st = st\<lparr>voltage_ma := next_value\<rparr>
        in if previous \<noteq> next_value then shared_broadcast KEY_VOLTAGE_MA st else Some st)"

definition flush_mirror_update :: "u64 \<Rightarrow> shared_state \<Rightarrow> shared_state option" where
  "flush_mirror_update generation st =
     (if mirror_generation st \<noteq> generation then Some st
      else let next_value = mirror_pending st;
               changed = mirror_out st \<noteq> next_value;
               st = (if changed then st\<lparr>mirror_out := next_value\<rparr> else st)
        in if changed then shared_broadcast KEY_MIRROR_OUT st else Some st)"

section \<open>Dispatch\<close>

text \<open>
  Operations on the handle of connection \<open>cid\<close>, which the registry holds while the
  connection's read loop runs.
\<close>

definition update_handle :: "u64 \<Rightarrow> (connection_handle \<Rightarrow> connection_handle) \<Rightarrow> shared_state \<Rightarrow> shared_state" where
  "update_handle cid f st = st\<lparr>registry := (registry st)\<lparr>connections :=
     (connections (registry st))(cid := map_option f (connections (registry st) cid))\<rparr>\<rparr>"

definition conn_send :: "u64 \<Rightarrow> bytes option \<Rightarrow> shared_state \<Rightarrow> (bool \<times> shared_state) option" where
  "conn_send cid encoded st =
     (case encoded of
        None \<Rightarrow> None
      | Some frame \<Rightarrow> (case connections (registry st) cid of
            None \<Rightarrow> Some (False, st)
          | Some h \<Rightarrow> Some (fst (handle_send frame h), update_handle cid (\<lambda>h. snd (handle_send frame h)) st)))"

definition dispatch_request :: "u64 \<Rightarrow> u64 \<Rightarrow> request_ref \<Rightarrow> shared_state \<Rightarrow> (bool \<times> shared_state) option" where
  "dispatch_request elapsed cid request st =
     (case request of
        Ping \<Rightarrow> conn_send cid encode_ok st
      | Identify \<Rightarrow> conn_send cid encode_identified st
      | GetKeytabLen \<Rightarrow> conn_send cid encode_keytab_len st
      | GetKey keyref \<Rightarrow>
          (case key_spec keyref of
             None \<Rightarrow> conn_send cid (encode_error ERR_UNKNOWN_KEYREF) st
           | Some spec \<Rightarrow> conn_send cid (encode_key spec) st)
      | Get keyref \<Rightarrow>
          (case get_value elapsed keyref st of
             Inr value \<Rightarrow> conn_send cid (encode_value_response VALUE value) st
           | Inl code \<Rightarrow> conn_send cid (encode_error code) st)
      | Write keyref value \<Rightarrow>
          (case write_value keyref value st of
             (Inr success, st) \<Rightarrow>
               (case conn_send cid (encode_value_response WRITTEN (written_value success)) st of
                  None \<Rightarrow> None
                | Some (False, st) \<Rightarrow> Some (False, st)
                | Some (True, st) \<Rightarrow>
                    (case changed_keyref success of
                       Some k \<Rightarrow> map_option (\<lambda>st. (True, st)) (shared_broadcast k st)
                     | None \<Rightarrow> Some (True, st)))
           | (Inl code, st) \<Rightarrow> conn_send cid (encode_error code) st)
      | Observe keyref \<Rightarrow>
          (case can_observe keyref of
             Inr _ \<Rightarrow>
               (case conn_send cid encode_ok st of
                  None \<Rightarrow> None
                | Some (False, st) \<Rightarrow> Some (False, st)
                | Some (True, st) \<Rightarrow> Some (True, update_handle cid (handle_observe keyref) st))
           | Inl code \<Rightarrow> conn_send cid (encode_error code) st)
      | Unobserve keyref \<Rightarrow>
          (case validate_keyref keyref of
             Inr _ \<Rightarrow> conn_send cid encode_ok (update_handle cid (handle_unobserve keyref) st)
           | Inl code \<Rightarrow> conn_send cid (encode_error code) st))"

definition dispatch_message :: "u64 \<Rightarrow> u64 \<Rightarrow> message_ref \<Rightarrow> shared_state \<Rightarrow> (bool \<times> shared_state) option" where
  "dispatch_message elapsed cid message st =
     (case message of
        CompatibilityRequest \<Rightarrow> conn_send cid encode_caps st
      | Request request \<Rightarrow> dispatch_request elapsed cid request st
      | OrdinaryResponse _ \<Rightarrow> Some (False, st)
      | CompatibilityResponse _ \<Rightarrow> Some (False, st)
      | Error _ \<Rightarrow> Some (False, st)
      | Changed _ \<Rightarrow> Some (False, st))"

end
