(* ===== verification/Test_Node_Facts.thy ===== *)
theory Test_Node_Facts
  imports Test_Node
begin

text \<open>
  The test node meets the protocol, request by request: the frames it builds are the
  encodings of well-formed messages, a write either fails without effect or stores exactly
  the written value, and every request is answered by exactly one conforming response.
\<close>

section \<open>The key table by index\<close>

lemma length_KEY_SPECS: "length KEY_SPECS = 14"
  by code_simp

lemma key_spec_None: "key_spec k = None \<longleftrightarrow> 14 \<le> unat k"
  by (simp add: key_spec_def list_get_None length_KEY_SPECS)

lemma key_spec_simps:
  "key_spec 0 = Some (spec_of ''voltage_ma'' (READABLE OR OBSERVABLE))"
  "key_spec 1 = Some (spec_of ''uptime'' READABLE)"
  "key_spec 2 = Some (spec_of ''gp1_string'' (READABLE OR WRITABLE OR OBSERVABLE))"
  "key_spec 3 = Some (spec_of ''gp2_u64'' (READABLE OR WRITABLE OR OBSERVABLE))"
  "key_spec 4 = Some (spec_of ''gp3_i64'' (READABLE OR WRITABLE OR OBSERVABLE))"
  "key_spec 5 = Some (spec_of ''mirror_in'' WRITABLE)"
  "key_spec 6 = Some (spec_of ''mirror_out'' (READABLE OR OBSERVABLE))"
  "key_spec 7 = Some (spec_of ''small_str10'' (READABLE OR WRITABLE OR OBSERVABLE))"
  "key_spec 8 = Some (spec_of ''small_str0'' (READABLE OR WRITABLE OR OBSERVABLE))"
  "key_spec 9 = Some (spec_of ''dead'' 0)"
  "key_spec 10 = Some (spec_of ''dead2'' 0)"
  "key_spec 11 = Some (spec_of ''perm_u64_w'' WRITABLE)"
  "key_spec 12 = Some (spec_of ''perm_u64_rw'' (READABLE OR WRITABLE))"
  "key_spec 13 = Some (spec_of ''perm_u64_r'' READABLE)"
  by (simp_all add: key_spec_def list_get_def KEY_SPECS_def)

lemma keyref_cases:
  assumes "unat (k :: u16) < 14"
  shows "k \<in> {0, 1, 2, 3, 4, 5, 6, 7, 8, 9, 10, 11, 12, 13}"
proof -
  have "[0..<14] = [0, 1, 2, 3, 4, 5, 6, 7, 8, 9, 10, 11, 12, 13 :: nat]" by code_simp
  moreover have "unat k \<in> set [0..<14]" using assms by simp
  ultimately have "unat k \<in> {0, 1, 2, 3, 4, 5, 6, 7, 8, 9, 10, 11, 12, 13}" by simp
  then have "word_of_nat (unat k) \<in> (word_of_nat :: nat \<Rightarrow> u16) ` {0, 1, 2, 3, 4, 5, 6, 7, 8, 9, 10, 11, 12, 13}"
    by (rule imageI)
  then show ?thesis by simp
qed

lemma flag_tests:
  "READABLE \<noteq> 0" "WRITABLE \<noteq> 0" "OBSERVABLE \<noteq> 0"
  "READABLE AND READABLE \<noteq> 0" "READABLE AND WRITABLE = 0" "READABLE AND OBSERVABLE = 0"
  "WRITABLE AND READABLE = 0" "WRITABLE AND WRITABLE \<noteq> 0" "WRITABLE AND OBSERVABLE = 0"
  "(READABLE OR OBSERVABLE) AND READABLE \<noteq> 0" "(READABLE OR OBSERVABLE) AND WRITABLE = 0"
  "(READABLE OR OBSERVABLE) AND OBSERVABLE \<noteq> 0"
  "(READABLE OR WRITABLE) AND READABLE \<noteq> 0" "(READABLE OR WRITABLE) AND WRITABLE \<noteq> 0"
  "(READABLE OR WRITABLE) AND OBSERVABLE = 0"
  "(READABLE OR WRITABLE OR OBSERVABLE) AND READABLE \<noteq> 0"
  "(READABLE OR WRITABLE OR OBSERVABLE) AND WRITABLE \<noteq> 0"
  "(READABLE OR WRITABLE OR OBSERVABLE) AND OBSERVABLE \<noteq> 0"
  by (simp_all add: flag_defs)

lemma spec_of_simps [simp]: "spec_flags (spec_of n f) = f" "spec_name (spec_of n f) = ascii n"
  by (simp_all add: spec_of_def)

text \<open>Every entry has valid flags and a valid short name.\<close>

lemma KEY_SPECS_wf: "list_all (\<lambda>s. flag_bits (KeyFlags (spec_flags s)) AND NOT VALID_MASK = 0 \<and>
    list_all (\<lambda>c. c < 0x80 \<and> c \<noteq> 0) (spec_name s) \<and> length (spec_name s) \<le> 20) KEY_SPECS"
  by code_simp

lemma ascii_wf: "list_all (\<lambda>c. c < 0x80 \<and> c \<noteq> 0) s \<Longrightarrow> length s \<le> 65535 \<Longrightarrow> wf_str s"
  by (auto simp: wf_str_def list_all_iff intro!: is_utf8_ascii)

lemma key_spec_wf:
  assumes "key_spec k = Some s"
  shows "wf_flags (KeyFlags (spec_flags s))" "wf_str (spec_name s)" "length (spec_name s) \<le> 20"
proof -
  have "s \<in> set KEY_SPECS" using assms by (auto simp: key_spec_def list_get_Some)
  then have "flag_bits (KeyFlags (spec_flags s)) AND NOT VALID_MASK = 0"
    "list_all (\<lambda>c. c < 0x80 \<and> c \<noteq> 0) (spec_name s)" "length (spec_name s) \<le> 20"
    using KEY_SPECS_wf by (auto simp: list_all_iff)
  then show "wf_flags (KeyFlags (spec_flags s))" "wf_str (spec_name s)" "length (spec_name s) \<le> 20"
    by (simp_all add: wf_flags_def ascii_wf)
qed

section \<open>Encoders produce well-formed frames\<close>

fun value_of_wire :: "wire_value \<Rightarrow> value_ref" where
  "value_of_wire (Wire_I64 i) = I64 i"
| "value_of_wire (Wire_Str s) = Str s"

lemma node_build_frame_eq:
  "node_build_frame oc p = (if length p \<le> 65535 then Some (frame_bytes oc p) else None)"
  by (simp add: node_build_frame_def u16_try_from_def frame_bytes_def)

lemma node_push_str16_eq: "length s \<le> 65535 \<Longrightarrow> node_push_str16 p s = Some (p @ encode_str16 s)"
  by (simp add: node_push_str16_def u16_try_from_def encode_str16_def)

text \<open>Strings the node stores: those a \<open>WRITE\<close> frame can carry.\<close>

definition stored_str :: "rstr \<Rightarrow> bool" where
  "stored_str s \<longleftrightarrow> wf_str s \<and> length s \<le> 65530"

fun stored_value :: "wire_value \<Rightarrow> bool" where
  "stored_value (Wire_I64 _) = True"
| "stored_value (Wire_Str s) = stored_str s"

lemma node_push_value_eq:
  "stored_value v \<Longrightarrow> node_push_value p v = Some (p @ encode_value (value_of_wire v))"
  by (cases v) (simp_all add: node_push_value_def node_push_str16_eq kind_as_byte_def stored_str_def)

lemma stored_value_length: "stored_value v \<Longrightarrow> length (encode_value (value_of_wire v)) \<le> 65535"
  by (cases v) (simp_all add: stored_str_def)

lemma stored_value_wf: "stored_value v \<Longrightarrow> wf_value (value_of_wire v)"
  by (cases v) (simp_all add: stored_str_def)

lemma node_caps_parse: "caps_parse node_caps = Inr \<lparr>caps_raw = node_caps, supports_changed = True\<rparr>"
  by code_simp

text \<open>The frames of the node.\<close>

lemma node_id_wf: "wf_str node_id" and node_caps_wf: "wf_str node_caps"
proof -
  have "list_all (\<lambda>c. c < 0x80 \<and> c \<noteq> 0) node_id \<and> length node_id \<le> 20" by code_simp
  then show "wf_str node_id" by (intro ascii_wf) auto
  have "list_all (\<lambda>c. c < 0x80 \<and> c \<noteq> 0) node_caps \<and> length node_caps \<le> 20" by code_simp
  then show "wf_str node_caps" by (intro ascii_wf) auto
qed

lemma node_str_lengths: "length node_id = 13" "length node_caps = 17"
  by (simp_all add: node_id_def node_caps_def ascii_def)

definition caps_message :: message_ref where
  "caps_message = CompatibilityResponse \<lparr>caps_raw = node_caps, supports_changed = True\<rparr>"

lemma encoders:
  "encode_ok = Some (message_bytes (OrdinaryResponse Ok))"
  "encode_identified = Some (message_bytes (OrdinaryResponse (Identified node_id)))"
  "encode_keytab_len = Some (message_bytes (OrdinaryResponse (KeytabLen KEY_COUNT)))"
  "encode_error code = Some (message_bytes (Error (ErrorResponse code)))"
  "encode_changed k = Some (message_bytes (Changed k))"
  "encode_caps = Some (message_bytes caps_message)"
  by (simp_all add: encode_ok_def encode_identified_def encode_keytab_len_def encode_error_def
      encode_changed_def encode_caps_def node_push_str16_eq node_build_frame_eq node_str_lengths
      message_bytes_def caps_message_def)

lemma encode_key_eq:
  "key_spec k = Some s \<Longrightarrow>
     encode_key s = Some (message_bytes (OrdinaryResponse (Key (KeyFlags (spec_flags s)) (spec_name s))))"
  using key_spec_wf(3) [of k s]
  by (simp add: encode_key_def node_push_str16_eq node_build_frame_eq message_bytes_def)

lemma encode_value_response_eq:
  assumes "stored_value v"
  shows "encode_value_response VALUE v = Some (message_bytes (OrdinaryResponse (Value (value_of_wire v))))"
    and "encode_value_response WRITTEN v = Some (message_bytes (OrdinaryResponse (Written (value_of_wire v))))"
  using stored_value_length [OF assms]
  by (simp_all add: encode_value_response_def node_push_value_eq assms node_build_frame_eq message_bytes_def)

text \<open>All of them are well-formed messages of the node direction.\<close>

lemma node_messages:
  "wire_message NodeToClient (OrdinaryResponse Ok)"
  "wire_message NodeToClient (OrdinaryResponse (Identified node_id))"
  "wire_message NodeToClient (OrdinaryResponse (KeytabLen n))"
  "wire_message NodeToClient (Error e)"
  "wire_message NodeToClient (Changed k)"
  "wire_message NodeToClient caps_message"
  by (simp_all add: wire_message_def opcodes_of_def node_opcodes_def node_id_wf node_caps_wf
      node_str_lengths caps_message_def wf_caps_def node_caps_parse)

lemma node_key_message:
  "key_spec k = Some s \<Longrightarrow>
     wire_message NodeToClient (OrdinaryResponse (Key (KeyFlags (spec_flags s)) (spec_name s)))"
  using key_spec_wf [of k s] by (simp add: wire_message_def opcodes_of_def node_opcodes_def)

lemma node_value_messages:
  assumes "stored_value v"
  shows "wire_message NodeToClient (OrdinaryResponse (Value (value_of_wire v)))"
    and "wire_message NodeToClient (OrdinaryResponse (Written (value_of_wire v)))"
  using stored_value_wf [OF assms] stored_value_length [OF assms]
  by (simp_all add: wire_message_def opcodes_of_def node_opcodes_def)

section \<open>Reading and writing keys\<close>

lemma nonneg_i64_bound: "0 \<le> sint v \<longleftrightarrow> unat v < 2 ^ 63" for v :: u64
proof
  assume "0 \<le> sint v"
  then have top: "\<not> bit v 63" using bit_last_iff [of v] by simp
  have "bit (take_bit 63 v) n = bit v n" if "n < 64" for n
    using that top by (cases "n = 63") (auto simp: bit_take_bit_iff)
  then have "take_bit 63 v = v" by (intro bit_word_eqI) simp
  then have "unat v = take_bit 63 (unat v)" by (metis unsigned_take_bit_eq)
  then show "unat v < 2 ^ 63" by (metis take_bit_nat_less_exp)
next
  assume "unat v < 2 ^ 63"
  then have "take_bit 63 (unat v) = unat v" by (simp add: take_bit_nat_eq_self_iff)
  then have "take_bit 63 v = v" by (metis unsigned_take_bit_eq unsigned_word_eqI)
  then have "\<not> bit v 63" by (metis bit_take_bit_iff less_irrefl)
  then show "0 \<le> sint v" using bit_last_iff [of v] by simp
qed

lemma u64_to_wire_nonneg: "0 \<le> sint v \<Longrightarrow> u64_to_wire v = v" for v :: u64
  by (simp add: u64_to_wire_def nonneg_i64_bound)

definition values_ok :: "shared_state \<Rightarrow> bool" where
  "values_ok st \<longleftrightarrow> stored_str (gp1_string st) \<and> stored_str (mirror_pending st) \<and>
     stored_str (mirror_out st) \<and> stored_str (small_str10 st) \<and> length (small_str10 st) \<le> 10 \<and>
     stored_str (small_str0 st)"

text \<open>The key and the written value determine the update of a successful write.\<close>

fun write_update :: "u16 \<Rightarrow> value_ref \<Rightarrow> shared_state \<Rightarrow> shared_state" where
  "write_update k (Str s) st =
     (if k = KEY_GP1_STRING then st\<lparr>gp1_string := s\<rparr>
      else if k = KEY_SMALL_STR10 then st\<lparr>small_str10 := s\<rparr>
      else st\<lparr>mirror_in := s, mirror_pending := s, mirror_generation := mirror_generation st + 1,
              scheduled := scheduled st @ [u64_saturating_add (mirror_generation st) 1]\<rparr>)"
| "write_update k (I64 i) st =
     (if k = KEY_GP2_U64 then st\<lparr>gp2_u64 := i\<rparr>
      else if k = KEY_GP3_I64 then st\<lparr>gp3_i64 := i\<rparr>
      else if k = KEY_PERM_U64_W then st\<lparr>perm_u64_w := i\<rparr>
      else st\<lparr>perm_u64_rw := i\<rparr>)"
| "write_update k (Bool b) st = st"

text \<open>Which values a key accepts.\<close>

fun write_accepts :: "u16 \<Rightarrow> value_ref \<Rightarrow> bool" where
  "write_accepts k (Str s) \<longleftrightarrow> k = KEY_GP1_STRING \<or> k = KEY_MIRROR_IN \<or> k = KEY_SMALL_STR10 \<and> length s \<le> 10"
| "write_accepts k (I64 i) \<longleftrightarrow> k = KEY_GP3_I64 \<or> k \<in> {KEY_GP2_U64, KEY_PERM_U64_W, KEY_PERM_U64_RW} \<and> 0 \<le> sint i"
| "write_accepts k (Bool b) \<longleftrightarrow> False"

fun wire_of_value :: "value_ref \<Rightarrow> wire_value" where
  "wire_of_value (Str s) = Wire_Str s"
| "wire_of_value (I64 i) = Wire_I64 i"
| "wire_of_value (Bool b) = Wire_I64 0"

text \<open>When an accepted write changes an observable key.\<close>

fun write_changes :: "u16 \<Rightarrow> value_ref \<Rightarrow> shared_state \<Rightarrow> bool" where
  "write_changes k (Str s) st \<longleftrightarrow>
     k = KEY_GP1_STRING \<and> gp1_string st \<noteq> s \<or> k = KEY_SMALL_STR10 \<and> small_str10 st \<noteq> s"
| "write_changes k (I64 i) st \<longleftrightarrow>
     k = KEY_GP2_U64 \<and> gp2_u64 st \<noteq> i \<or> k = KEY_GP3_I64 \<and> gp3_i64 st \<noteq> i"
| "write_changes k (Bool b) st \<longleftrightarrow> False"

definition write_error :: "u16 \<Rightarrow> u8" where
  "write_error k = (case key_spec k of None \<Rightarrow> ERR_UNKNOWN_KEYREF
     | Some s \<Rightarrow> if spec_flags s AND WRITABLE = 0 then ERR_PERMISSION else ERR_TYPE_MISMATCH)"

lemma observable_change_eq:
  "observable_change k c = (if c \<and> k \<in> {0, 2, 3, 4, 6, 7, 8} then Some k else None)"
proof (cases "unat k < 14")
  case True
  from keyref_cases [OF True] show ?thesis
    by (elim insertE emptyE) (simp_all add: observable_change_def key_spec_simps flag_tests)
next
  case False
  then have "key_spec k = None" by (simp add: key_spec_None)
  moreover from False have "k \<notin> {0, 2, 3, 4, 6, 7, 8}" by auto
  ultimately show ?thesis by (simp add: observable_change_def)
qed

lemma write_value_eq:
  "write_value k v st =
     (if write_accepts k v
      then (Inr \<lparr>written_value = wire_of_value v,
                 changed_keyref = (if write_changes k v st then Some k else None)\<rparr>,
            write_update k v st)
      else (Inl (write_error k), st))"
proof (cases "unat k < 14")
  case True
  from keyref_cases [OF True] show ?thesis
    by (elim insertE emptyE; cases v)
      (simp_all add: write_value_def write_error_def key_spec_simps flag_tests key_defs
        expect_i64_def expect_u64_def expect_str_def observable_change_eq write_success_new_def
        schedule_mirror_update_def u64_to_wire_nonneg Let_def act_bind_def)
next
  case False
  then have "key_spec k = None" by (simp add: key_spec_None)
  moreover from False have "\<not> write_accepts k v" by (cases v) (auto simp: key_defs)
  ultimately show ?thesis by (simp add: write_value_def write_error_def)
qed

text \<open>Reading a key.\<close>

definition readable_keys :: "u16 set" where
  "readable_keys = {0, 1, 2, 3, 4, 6, 7, 8, 12, 13}"

lemma get_value_Inl: "get_value e k st = Inl c \<longleftrightarrow>
    k \<notin> readable_keys \<and> c = (if key_spec k = None then ERR_UNKNOWN_KEYREF else ERR_PERMISSION)"
proof (cases "unat k < 14")
  case True
  from keyref_cases [OF True] show ?thesis
    by (elim insertE emptyE)
      (auto simp: get_value_def key_spec_simps flag_tests key_defs readable_keys_def)
next
  case False
  then have "key_spec k = None" by (simp add: key_spec_None)
  moreover from False have "k \<notin> readable_keys" by (auto simp: readable_keys_def)
  ultimately show ?thesis by (auto simp: get_value_def)
qed

lemma get_value_Inr_stored: "values_ok st \<Longrightarrow> get_value e k st = Inr v \<Longrightarrow> stored_value v"
  by (auto simp: get_value_def values_ok_def split: option.splits if_splits)

lemma fitting_str: "fitting_value (Str s) \<longleftrightarrow> stored_str s"
  by (auto simp: fitting_value_def stored_str_def)

lemma write_update_values_ok:
  "values_ok st \<Longrightarrow> fitting_value v \<Longrightarrow> write_accepts k v \<Longrightarrow> values_ok (write_update k v st)"
  by (cases v) (auto simp: values_ok_def fitting_str key_defs)

lemma written_stored: "fitting_value v \<Longrightarrow> stored_value (wire_of_value v)"
  by (cases v) (auto simp: fitting_str)

lemma value_of_wire_of: "write_accepts k v \<Longrightarrow> value_of_wire (wire_of_value v) = v"
  by (cases v) auto

lemma write_update_registry [simp]: "registry (write_update k v st) = registry st"
  by (cases v) auto

text \<open>A written key reads back as written, and the other keys read as before.\<close>

lemma get_written:
  "write_accepts k v \<Longrightarrow> k \<in> readable_keys \<Longrightarrow> get_value e k (write_update k v st) = Inr (wire_of_value v)"
  by (cases v)
    (auto simp: key_defs get_value_def key_spec_simps flag_tests readable_keys_def u64_to_wire_nonneg)

lemma get_other:
  "write_accepts k v \<Longrightarrow> j \<noteq> k \<Longrightarrow> get_value e j (write_update k v st) = get_value e j st"
  by (cases v; cases "key_spec j") (auto simp: key_defs get_value_def)

section \<open>Effects on the connections\<close>

definition connection :: "u64 \<Rightarrow> shared_state \<Rightarrow> connection_handle option" where
  "connection cid st = connections (registry st) cid"

definition sent_to :: "u64 \<Rightarrow> bytes \<Rightarrow> shared_state \<Rightarrow> shared_state" where
  "sent_to cid frame = update_handle cid (\<lambda>h. h\<lparr>channel := channel h @ [frame]\<rparr>)"

definition notify :: "u16 \<Rightarrow> connection_handle \<Rightarrow> connection_handle" where
  "notify k h = (if is_observing k h \<and> receiver_open h
     then h\<lparr>channel := channel h @ [message_bytes (Changed k)]\<rparr> else h)"

definition notify_all :: "u16 \<Rightarrow> shared_state \<Rightarrow> shared_state" where
  "notify_all k st = st\<lparr>registry := (registry st)\<lparr>connections :=
     (\<lambda>i. map_option (notify k) (connections (registry st) i))\<rparr>\<rparr>"

text \<open>A connection whose writer task still takes frames.\<close>

definition open_connection :: "u64 \<Rightarrow> shared_state \<Rightarrow> bool" where
  "open_connection cid st \<longleftrightarrow> (\<exists>h. connection cid st = Some h \<and> receiver_open h)"

lemma shared_broadcast_eq: "shared_broadcast k st = Some (notify_all k st)"
  by (auto simp: shared_broadcast_def broadcast_changed_def encoders notify_all_def notify_def
      handle_send_def fun_eq_iff map_option_case split: option.splits)

lemma conn_send_open: "open_connection cid st \<Longrightarrow> conn_send cid (Some f) st = Some (True, sent_to cid f st)"
  by (auto simp: open_connection_def connection_def conn_send_def handle_send_def sent_to_def update_handle_def)

lemma conn_send_closed: "\<not> open_connection cid st \<Longrightarrow> conn_send cid (Some f) st = Some (False, st)"
  by (auto simp: open_connection_def connection_def conn_send_def handle_send_def update_handle_def
      split: option.splits intro!: shared_state.equality connection_registry.equality)

lemma handle_observe_fields [simp]:
  "receiver_open (handle_unobserve k h) = receiver_open h" "channel (handle_unobserve k h) = channel h"
  "receiver_open (handle_observe k h) = receiver_open h" "channel (handle_observe k h) = channel h"
  by (simp_all add: handle_unobserve_def handle_observe_def split: option.split)

lemma open_connection_frame:
  "open_connection cid (write_update k v st) = open_connection cid st"
  "open_connection cid (update_handle c (handle_unobserve k) st) = open_connection cid st"
  by (auto simp: open_connection_def connection_def update_handle_def)

section \<open>The response to a message\<close>

definition observable_keys :: "u16 set" where
  "observable_keys = {0, 2, 3, 4, 6, 7, 8}"

definition observe_error :: "u16 \<Rightarrow> u8" where
  "observe_error k = (if key_spec k = None then ERR_UNKNOWN_KEYREF else ERR_PERMISSION)"

lemma can_observe_eq: "can_observe k = (if k \<in> observable_keys then Inr () else Inl (observe_error k))"
proof (cases "unat k < 14")
  case True
  from keyref_cases [OF True] show ?thesis
    by (elim insertE emptyE)
      (auto simp: can_observe_def key_spec_simps flag_tests observable_keys_def observe_error_def)
next
  case False
  then have "key_spec k = None" by (simp add: key_spec_None)
  moreover from False have "k \<notin> observable_keys" by (auto simp: observable_keys_def)
  ultimately show ?thesis by (simp add: can_observe_def observe_error_def)
qed

fun request_response_of :: "u64 \<Rightarrow> shared_state \<Rightarrow> request_ref \<Rightarrow> message_ref" where
  "request_response_of e st Ping = OrdinaryResponse Ok"
| "request_response_of e st Identify = OrdinaryResponse (Identified node_id)"
| "request_response_of e st GetKeytabLen = OrdinaryResponse (KeytabLen KEY_COUNT)"
| "request_response_of e st (GetKey k) =
     (case key_spec k of
        None \<Rightarrow> Error (ErrorResponse ERR_UNKNOWN_KEYREF)
      | Some s \<Rightarrow> OrdinaryResponse (Key (KeyFlags (spec_flags s)) (spec_name s)))"
| "request_response_of e st (Get k) =
     (case get_value e k st of
        Inl c \<Rightarrow> Error (ErrorResponse c) | Inr v \<Rightarrow> OrdinaryResponse (Value (value_of_wire v)))"
| "request_response_of e st (Write k v) =
     (if write_accepts k v then OrdinaryResponse (Written v) else Error (ErrorResponse (write_error k)))"
| "request_response_of e st (Observe k) =
     (if k \<in> observable_keys then OrdinaryResponse Ok else Error (ErrorResponse (observe_error k)))"
| "request_response_of e st (Unobserve k) =
     (if key_spec k = None then Error (ErrorResponse ERR_UNKNOWN_KEYREF) else OrdinaryResponse Ok)"

fun response_of :: "u64 \<Rightarrow> shared_state \<Rightarrow> message_ref \<Rightarrow> message_ref" where
  "response_of e st (Request q) = request_response_of e st q"
| "response_of e st _ = caps_message"

text \<open>The changes of state before the response is sent and after it.\<close>

fun effect_before :: "u64 \<Rightarrow> message_ref \<Rightarrow> shared_state \<Rightarrow> shared_state" where
  "effect_before cid (Request (Write k v)) st = (if write_accepts k v then write_update k v st else st)"
| "effect_before cid (Request (Unobserve k)) st =
     (if key_spec k = None then st else update_handle cid (handle_unobserve k) st)"
| "effect_before cid _ st = st"

fun effect_after :: "u64 \<Rightarrow> shared_state \<Rightarrow> message_ref \<Rightarrow> shared_state \<Rightarrow> shared_state" where
  "effect_after cid st0 (Request (Write k v)) st =
     (if write_accepts k v \<and> write_changes k v st0 then notify_all k st else st)"
| "effect_after cid st0 (Request (Observe k)) st =
     (if k \<in> observable_keys then update_handle cid (handle_observe k) st else st)"
| "effect_after cid st0 _ st = st"

lemma wire_client_cases:
  assumes "wire_message ClientToNode m"
  obtains "m = CompatibilityRequest" | q where "m = Request q"
proof (cases m)
  case (OrdinaryResponse r)
  then show ?thesis using assms
    by (cases r) (auto simp: wire_message_def opcodes_of_def client_opcodes_def opcode_defs)
qed (use assms that in \<open>auto simp: wire_message_def opcodes_of_def client_opcodes_def opcode_defs\<close>)

lemma wire_write_fitting: "wire_message ClientToNode (Request (Write k v)) \<Longrightarrow> fitting_value v"
  by (simp add: wire_message_def fitting_value_def)

lemma dispatch_message_eq:
  assumes "values_ok st" and "open_connection cid st" and wire: "wire_message ClientToNode m"
  shows "dispatch_message e cid m st =
     Some (True, effect_after cid st m (sent_to cid (message_bytes (response_of e st m)) (effect_before cid m st)))"
proof (cases rule: wire_client_cases [OF wire])
  case 1
  then show ?thesis by (simp add: dispatch_message_def encoders conn_send_open assms)
next
  case (2 q)
  have "dispatch_request e cid q st =
     Some (True, effect_after cid st m (sent_to cid (message_bytes (request_response_of e st q)) (effect_before cid m st)))"
  proof (cases q)
    case (GetKey k)
    then show ?thesis
      by (cases "key_spec k")
        (simp_all add: dispatch_request_def 2 encoders encode_key_eq conn_send_open assms)
  next
    case (Get k)
    then show ?thesis
      using get_value_Inr_stored [OF assms(1), of e k]
      by (cases "get_value e k st")
        (simp_all add: dispatch_request_def 2 encoders encode_value_response_eq conn_send_open assms)
  next
    case (Write k v)
    then have "stored_value (wire_of_value v)"
      using wire 2 by (auto intro: written_stored wire_write_fitting)
    then show ?thesis
      using Write
      by (simp add: dispatch_request_def 2 write_value_eq encoders encode_value_response_eq
          conn_send_open assms open_connection_frame value_of_wire_of shared_broadcast_eq)
  next
    case (Observe k)
    then show ?thesis by (simp add: dispatch_request_def 2 can_observe_eq encoders conn_send_open assms)
  next
    case (Unobserve k)
    then show ?thesis
      by (simp add: dispatch_request_def 2 validate_keyref_def encoders conn_send_open assms open_connection_frame)
  qed (simp_all add: dispatch_request_def 2 encoders conn_send_open assms)
  then show ?thesis by (simp add: dispatch_message_def 2)
qed

section \<open>Responses conform to the protocol\<close>

lemma write_error_codes: "write_error k \<in> {0x01, 0x02, 0x03}"
  by (auto simp: write_error_def err_defs split: option.splits)

lemma response_of_answers:
  assumes "wire_message ClientToNode m"
  shows "answers m (response_of e st m)"
proof (cases rule: wire_client_cases [OF assms])
  case 1
  then show ?thesis by (simp add: caps_message_def)
next
  case (2 q)
  then show ?thesis
    using write_error_codes
    by (cases q) (auto simp: expected_responses err_defs observe_error_def get_value_Inl
        split: option.splits sum.splits)
qed

lemma response_of_wire:
  assumes "values_ok st" and "wire_message ClientToNode m"
  shows "wire_message NodeToClient (response_of e st m)"
proof (cases rule: wire_client_cases [OF assms(2)])
  case 1
  then show ?thesis by (simp add: node_messages)
next
  case (2 q)
  show ?thesis
  proof (cases q)
    case (Get k)
    then show ?thesis
      using get_value_Inr_stored [OF assms(1), of e k]
      by (auto simp: 2 node_messages node_value_messages split: sum.splits)
  next
    case (Write k v)
    then have "stored_value (wire_of_value v)"
      using assms(2) 2 by (auto intro: written_stored wire_write_fitting)
    from node_value_messages(2) [OF this] show ?thesis
      using Write value_of_wire_of [of k v] by (auto simp: 2 node_messages)
  qed (auto simp: 2 node_messages node_key_message split: option.splits)
qed

text \<open>What a message appends to the channel of its connection after the response.\<close>

fun own_notifications :: "u64 \<Rightarrow> message_ref \<Rightarrow> shared_state \<Rightarrow> u16 list" where
  "own_notifications cid (Request (Write k v)) st =
     (if write_accepts k v \<and> write_changes k v st \<and>
         (\<exists>h. connection cid st = Some h \<and> is_observing k h) then [k] else [])"
| "own_notifications cid _ st = []"

definition sent :: "u64 \<Rightarrow> shared_state \<Rightarrow> bytes list" where
  "sent cid st = (case connection cid st of None \<Rightarrow> [] | Some h \<Rightarrow> channel h)"

lemma connection_effects:
  "connection c (update_handle cid f st) = (if c = cid then map_option f (connection c st) else connection c st)"
  "connection c (notify_all k st) = map_option (notify k) (connection c st)"
  "connection c (write_update k v st) = connection c st"
  by (simp_all add: connection_def update_handle_def notify_all_def)

lemma is_observing_channel [simp]: "is_observing k (h\<lparr>channel := fs\<rparr>) = is_observing k h"
  by (simp add: is_observing_def split: option.split)

lemma sent_after_dispatch:
  assumes "open_connection cid st"
  shows "sent cid (effect_after cid st m (sent_to cid f (effect_before cid m st))) =
     sent cid st @ f # map (\<lambda>k. message_bytes (Changed k)) (own_notifications cid m st)"
proof -
  obtain h where h: "connection cid st = Some h" "receiver_open h"
    using assms by (auto simp: open_connection_def)
  show ?thesis
  proof (cases m)
    case (Request q)
    with h show ?thesis
      by (cases q) (auto simp: sent_def sent_to_def connection_effects notify_def)
  qed (use h in \<open>auto simp: sent_def sent_to_def connection_effects\<close>)
qed

end
