(* ===== verification/Test_Node_Run.thy ===== *)
theory Test_Node_Run
  imports Test_Node_Facts
begin

text \<open>
  The test node as a state machine: connections come and go, messages arrive in any
  interleaving with the voltage ticks, the delayed mirror updates and writer tasks that stop.
  The invariants of the reachable states carry the properties of the node.
\<close>

section \<open>Steps\<close>

datatype node_event =
    Connected u64
  | Disconnected u64
  | Received u64 message_ref bool
  | Voltage_Tick
  | Mirror_Flush u64
  | Writer_Stopped u64

definition shared_register :: "shared_state \<Rightarrow> u64 \<times> shared_state" where
  "shared_register st = (case register (registry st) of (cid, reg) \<Rightarrow> (cid, st\<lparr>registry := reg\<rparr>))"

inductive node_step :: "shared_state \<Rightarrow> node_event \<Rightarrow> shared_state \<Rightarrow> bool" where
  connected: "shared_register st = (cid, st') \<Longrightarrow> node_step st (Connected cid) st'"
| disconnected: "connection cid st \<noteq> None \<Longrightarrow>
    node_step st (Disconnected cid) (st\<lparr>registry := unregister cid (registry st)\<rparr>)"
| received: "connection cid st \<noteq> None \<Longrightarrow> wire_message ClientToNode m \<Longrightarrow>
    dispatch_message elapsed cid m st = Some (ok, st') \<Longrightarrow> node_step st (Received cid m ok) st'"
| voltage_tick: "update_voltage st = Some st' \<Longrightarrow> node_step st Voltage_Tick st'"
| mirror_flush: "generation \<in> set (scheduled st) \<Longrightarrow>
    flush_mirror_update generation (st\<lparr>scheduled := remove1 generation (scheduled st)\<rparr>) = Some st' \<Longrightarrow>
    node_step st (Mirror_Flush generation) st'"
| writer_stopped: "node_step st (Writer_Stopped cid) (update_handle cid (\<lambda>h. h\<lparr>receiver_open := False\<rparr>) st)"

text \<open>Runs from the start of the process; the newest event comes first.\<close>

inductive node_run :: "node_event list \<Rightarrow> shared_state \<Rightarrow> bool" where
  start: "node_run [] (shared_new seed registry_new)"
| step: "node_run es st \<Longrightarrow> node_step st e st' \<Longrightarrow> node_run (e # es) st'"

inductive_cases node_stepE [elim]: "node_step st e st'"

text \<open>What the history says about observation of a key by a connection.\<close>

fun observed_by :: "node_event list \<Rightarrow> u64 \<Rightarrow> u16 \<Rightarrow> bool" where
  "observed_by [] cid k \<longleftrightarrow> False"
| "observed_by (Connected c # es) cid k \<longleftrightarrow> c \<noteq> cid \<and> observed_by es cid k"
| "observed_by (Received c (Request (Observe j)) ok # es) cid k \<longleftrightarrow>
     (c = cid \<and> j = k \<and> ok \<and> k \<in> observable_keys) \<or> observed_by es cid k"
| "observed_by (Received c (Request (Unobserve j)) ok # es) cid k \<longleftrightarrow>
     \<not> (c = cid \<and> j = k) \<and> observed_by es cid k"
| "observed_by (_ # es) cid k \<longleftrightarrow> observed_by es cid k"

section \<open>Dispatch on an arbitrary connection\<close>

text \<open>With the writer task gone a message has no effect but its state change before the send.\<close>

lemma dispatch_closed:
  assumes "values_ok st" and "\<not> open_connection cid st" and wire: "wire_message ClientToNode m"
  shows "dispatch_message e cid m st = Some (False, effect_before cid m st)"
proof (cases rule: wire_client_cases [OF wire])
  case 1
  then show ?thesis by (simp add: dispatch_message_def encoders conn_send_closed assms)
next
  case (2 q)
  have "dispatch_request e cid q st = Some (False, effect_before cid m st)"
  proof (cases q)
    case (GetKey k)
    then show ?thesis
      by (cases "key_spec k")
        (simp_all add: dispatch_request_def 2 encoders encode_key_eq conn_send_closed assms)
  next
    case (Get k)
    then show ?thesis
      using get_value_Inr_stored [OF assms(1), of e k]
      by (cases "get_value e k st")
        (simp_all add: dispatch_request_def 2 encoders encode_value_response_eq conn_send_closed assms)
  next
    case (Write k v)
    then have "stored_value (wire_of_value v)"
      using wire 2 by (auto intro: written_stored wire_write_fitting)
    then show ?thesis
      using Write
      by (simp add: dispatch_request_def 2 write_value_eq encoders encode_value_response_eq
          conn_send_closed assms open_connection_frame)
  next
    case (Observe k)
    then show ?thesis by (simp add: dispatch_request_def 2 can_observe_eq encoders conn_send_closed assms)
  next
    case (Unobserve k)
    then show ?thesis
      by (simp add: dispatch_request_def 2 validate_keyref_def encoders conn_send_closed assms open_connection_frame)
  qed (simp_all add: dispatch_request_def 2 encoders conn_send_closed assms)
  then show ?thesis by (simp add: dispatch_message_def 2)
qed

lemma dispatch_result:
  assumes "values_ok st" and "wire_message ClientToNode m"
    and "dispatch_message e cid m st = Some (ok, st')"
  shows "ok = open_connection cid st" and "st' = (if ok
     then effect_after cid st m (sent_to cid (message_bytes (response_of e st m)) (effect_before cid m st))
     else effect_before cid m st)"
  using assms dispatch_message_eq [OF assms(1) _ assms(2), of cid e] dispatch_closed [OF assms(1) _ assms(2), of cid e]
  by (cases "open_connection cid st"; simp)+

section \<open>Invariants\<close>

lemma values_ok_effects:
  "values_ok (update_handle cid f st) = values_ok st"
  "values_ok (sent_to cid frame st) = values_ok st"
  "values_ok (notify_all k st) = values_ok st"
  by (simp_all add: values_ok_def update_handle_def sent_to_def notify_all_def)

lemma values_ok_before:
  "values_ok st \<Longrightarrow> wire_message ClientToNode m \<Longrightarrow> values_ok (effect_before cid m st)"
  by (cases "(cid, m, st)" rule: effect_before.cases)
    (auto simp: values_ok_effects write_update_values_ok wire_write_fitting)

lemma values_ok_after: "values_ok (effect_after cid st0 m st) = values_ok st"
  by (cases "(cid, st0, m, st)" rule: effect_after.cases) (auto simp: values_ok_effects)

lemma voltage_effects [simp]:
  "voltage_ma (update_handle cid f st) = voltage_ma st"
  "voltage_ma (sent_to cid frame st) = voltage_ma st"
  "voltage_ma (notify_all k st) = voltage_ma st"
  "voltage_ma (write_update k v st) = voltage_ma st"
  by (simp_all add: update_handle_def sent_to_def notify_all_def) (cases v; simp)

lemma voltage_dispatch [simp]:
  "voltage_ma (effect_before cid m st) = voltage_ma st"
  "voltage_ma (effect_after cid st0 m st) = voltage_ma st"
  by (cases "(cid, m, st)" rule: effect_before.cases; simp)
    (cases "(cid, st0, m, st)" rule: effect_after.cases; simp)

definition voltage_ok :: "i64 \<Rightarrow> bool" where
  "voltage_ok v \<longleftrightarrow> 230 \<le> sint v \<and> sint v \<le> 270"

lemma i64_saturating_small: "- 1000 \<le> i \<Longrightarrow> i \<le> 1000 \<Longrightarrow> sint (i64_saturating i) = i"
  by (simp add: i64_saturating_def signed_of_int signed_take_bit_int_eq_self)

lemma voltage_offset:
  "next_voltage_offset st = (offset, st') \<Longrightarrow>
     - 20 \<le> sint offset \<and> sint offset \<le> 20 \<and> st' = st\<lparr>rng_seed := rng_seed st + 0x9e3779b97f4a7c15\<rparr>"
proof -
  have "uint (mix_u64 (rng_seed st) mod 41) = uint (mix_u64 (rng_seed st)) mod 41"
    by (simp add: uint_mod)
  then have b: "0 \<le> uint (mix_u64 (rng_seed st) mod 41)" "uint (mix_u64 (rng_seed st) mod 41) < 41" by simp_all
  assume "next_voltage_offset st = (offset, st')"
  with b show ?thesis by (auto simp: next_voltage_offset_def Let_def i64_saturating_small)
qed

lemma update_voltage_eq:
  assumes "update_voltage st = Some st'"
  obtains v s where "voltage_ok v" and "st' = (if voltage_ma st \<noteq> v
      then notify_all KEY_VOLTAGE_MA (st\<lparr>rng_seed := s, voltage_ma := v\<rparr>)
      else st\<lparr>rng_seed := s, voltage_ma := v\<rparr>)"
proof -
  obtain offset st1 where n: "next_voltage_offset st = (offset, st1)" by (cases "next_voltage_offset st")
  let ?v = "i64_saturating (250 + sint offset)"
  from voltage_offset [OF n] have "voltage_ok ?v" by (simp add: voltage_ok_def i64_saturating_small)
  moreover have "st' = (if voltage_ma st \<noteq> ?v
      then notify_all KEY_VOLTAGE_MA (st\<lparr>rng_seed := rng_seed st1, voltage_ma := ?v\<rparr>)
      else st\<lparr>rng_seed := rng_seed st1, voltage_ma := ?v\<rparr>)"
    using assms voltage_offset [OF n]
    by (auto simp: update_voltage_def n Let_def shared_broadcast_eq split: if_splits)
  ultimately show ?thesis using that by blast
qed

lemma flush_mirror_eq:
  "flush_mirror_update g st = Some (if mirror_generation st = g \<and> mirror_out st \<noteq> mirror_pending st
     then notify_all KEY_MIRROR_OUT (st\<lparr>mirror_out := mirror_pending st\<rparr>) else st)"
  by (simp add: flush_mirror_update_def Let_def shared_broadcast_eq)

lemma update_voltage_total: "update_voltage st \<noteq> None"
  by (simp add: update_voltage_def shared_broadcast_eq Let_def split: prod.split)

text \<open>Observation bits.\<close>

lemma is_observing_bit: "is_observing k h \<longleftrightarrow> unat k < 16 \<and> bit (observed_mask h) (unat k)"
  by (simp add: is_observing_def key_mask_def and_exp_eq_0_iff_not_bit)

lemma is_observing_updates:
  "is_observing k (handle_observe j h) \<longleftrightarrow> is_observing k h \<or> (j = k \<and> unat k < 16)"
  "is_observing k (handle_unobserve j h) \<longleftrightarrow> is_observing k h \<and> j \<noteq> k"
  "\<not> is_observing k handle_new"
  "is_observing k (notify j h) = is_observing k h"
  "is_observing k (h\<lparr>receiver_open := b\<rparr>) = is_observing k h"
  by (auto simp: is_observing_bit handle_observe_def handle_unobserve_def key_mask_def handle_new_def
      notify_def bit_simps word_unat_eq_iff)

lemma observable_keys_small: "k \<in> observable_keys \<Longrightarrow> unat k < 16"
  by (auto simp: observable_keys_def)

lemma observed_by_observable: "observed_by es cid k \<Longrightarrow> k \<in> observable_keys"
  by (induction es cid k rule: observed_by.induct) auto

lemma observable_key_spec: "k \<in> observable_keys \<Longrightarrow> key_spec k \<noteq> None"
  by (auto simp: observable_keys_def key_spec_simps)

lemma observed_by_key_spec: "key_spec k = None \<Longrightarrow> \<not> observed_by es cid k"
  using observed_by_observable observable_key_spec by blast

definition observation_ok :: "node_event list \<Rightarrow> shared_state \<Rightarrow> bool" where
  "observation_ok es st \<longleftrightarrow>
     (\<forall>cid h k. connection cid st = Some h \<longrightarrow> (is_observing k h \<longleftrightarrow> observed_by es cid k))"

lemma observation_ok_received:
  assumes inv: "observation_ok es st" and "values_ok st" and wire: "wire_message ClientToNode m"
    and "dispatch_message e cid m st = Some (ok, st')"
  shows "observation_ok (Received cid m ok # es) st'"
proof -
  note st' = dispatch_result [OF assms(2,3,4)]
  have upd: "connection c (sent_to cid f s) =
      (if c = cid then map_option (\<lambda>h. h\<lparr>channel := channel h @ [f]\<rparr>) (connection c s) else connection c s)" for c f s
    by (simp add: sent_to_def connection_effects)
  show ?thesis
  proof (cases rule: wire_client_cases [OF wire])
    case 1
    with inv st' show ?thesis by (auto simp: observation_ok_def upd)
  next
    case (2 q)
    show ?thesis
    proof (cases q)
      case (Write k v)
      with inv st' 2 show ?thesis
        by (auto simp: observation_ok_def upd connection_effects is_observing_updates split: if_splits)
    next
      case (Observe j)
      with inv st' 2 show ?thesis
        by (auto simp: observation_ok_def upd connection_effects is_observing_updates observable_keys_small
            split: if_splits)
    next
      case (Unobserve j)
      with inv st' 2 show ?thesis
        by (auto simp: observation_ok_def upd connection_effects is_observing_updates observed_by_key_spec
            split: if_splits)
    qed (use inv st' 2 in \<open>auto simp: observation_ok_def upd\<close>)
  qed
qed

lemma observation_ok_map:
  assumes "observation_ok es st" and "\<And>cid. connection cid st' = map_option f (connection cid st)"
    and "\<And>k h. is_observing k (f h) = is_observing k h" and "\<And>cid k. observed_by (e # es) cid k = observed_by es cid k"
  shows "observation_ok (e # es) st'"
  using assms by (auto simp: observation_ok_def)

lemma registry_same_connection: "registry st' = registry st \<Longrightarrow> connection cid st' = connection cid st"
  by (simp add: connection_def)

definition node_inv :: "node_event list \<Rightarrow> shared_state \<Rightarrow> bool" where
  "node_inv es st \<longleftrightarrow> values_ok st \<and> voltage_ok (voltage_ma st) \<and> observation_ok es st"

lemma values_ok_voltage: "values_ok (st\<lparr>rng_seed := s, voltage_ma := v\<rparr>) = values_ok st"
  by (simp add: values_ok_def)

lemma node_inv_start: "node_inv [] (shared_new seed registry_new)"
proof -
  have "wf_str []" by (simp add: wf_str_def is_utf8_ascii)
  then show ?thesis
    by (simp add: node_inv_def values_ok_def stored_str_def shared_new_def voltage_ok_def observation_ok_def
        connection_def registry_new_def)
qed

lemma node_inv_step: "node_step st e st' \<Longrightarrow> node_inv es st \<Longrightarrow> node_inv (e # es) st'"
proof (induction rule: node_step.induct)
  case (connected st cid st')
  then show ?case
    by (auto simp: node_inv_def shared_register_def register_def Let_def values_ok_def observation_ok_def
        connection_def is_observing_updates split: if_splits)
next
  case (disconnected cid st)
  then show ?case
    by (auto simp: node_inv_def values_ok_def observation_ok_def connection_def unregister_def)
next
  case (received cid st m elapsed ok st')
  then have "values_ok st" by (simp add: node_inv_def)
  note res = dispatch_result [OF this received(2,3)]
  have "values_ok st'" and "voltage_ma st' = voltage_ma st"
    using res received(4) values_ok_before [of st m cid] received(2) \<open>values_ok st\<close>
    by (auto simp: values_ok_after values_ok_effects)
  then show ?case
    using received observation_ok_received [OF _ \<open>values_ok st\<close> received(2,3)]
    by (simp add: node_inv_def)
next
  case (voltage_tick st st')
  obtain v s where v: "voltage_ok v" and st': "st' = (if voltage_ma st \<noteq> v
      then notify_all KEY_VOLTAGE_MA (st\<lparr>rng_seed := s, voltage_ma := v\<rparr>)
      else st\<lparr>rng_seed := s, voltage_ma := v\<rparr>)"
    using update_voltage_eq [OF voltage_tick(1)] by blast
  have "connection cid st' = map_option (if voltage_ma st \<noteq> v then notify KEY_VOLTAGE_MA else id) (connection cid st)" for cid
    by (simp add: st' connection_effects option.map_id) (simp add: connection_def)
  note conn = this
  have "observation_ok (Voltage_Tick # es) st'"
    by (rule observation_ok_map [OF _ conn]) (use voltage_tick(2) in \<open>auto simp: node_inv_def is_observing_updates\<close>)
  then show ?case
    using voltage_tick(2) v by (simp add: node_inv_def st' values_ok_effects values_ok_voltage)
next
  case (mirror_flush g st st')
  then have st': "st' = (let s = st\<lparr>scheduled := remove1 g (scheduled st)\<rparr> in
      if mirror_generation st = g \<and> mirror_out st \<noteq> mirror_pending st
      then notify_all KEY_MIRROR_OUT (s\<lparr>mirror_out := mirror_pending st\<rparr>) else s)"
    by (auto simp: flush_mirror_eq Let_def)
  have "connection cid st' = map_option (if mirror_generation st = g \<and> mirror_out st \<noteq> mirror_pending st
      then notify KEY_MIRROR_OUT else id) (connection cid st)" for cid
    by (simp add: st' Let_def connection_effects option.map_id) (simp add: connection_def)
  note conn = this
  have "observation_ok (Mirror_Flush g # es) st'"
    by (rule observation_ok_map [OF _ conn]) (use mirror_flush(3) in \<open>auto simp: node_inv_def is_observing_updates\<close>)
  moreover have "values_ok st'" "voltage_ma st' = voltage_ma st"
    using mirror_flush(3) by (auto simp: st' Let_def node_inv_def values_ok_effects) (auto simp: values_ok_def)
  ultimately show ?case using mirror_flush(3) by (simp add: node_inv_def)
next
  case (writer_stopped st cid)
  then show ?case
    by (auto simp: node_inv_def values_ok_effects observation_ok_def connection_effects is_observing_updates
        split: if_splits)
qed

lemma node_run_inv: "node_run es st \<Longrightarrow> node_inv es st"
  by (induction rule: node_run.induct) (simp_all add: node_inv_start node_inv_step)

end
