(* ===== verification/Test_Node_Props.thy ===== *)
theory Test_Node_Props
  imports Test_Node_Run
begin

text \<open>
  The properties of the test node over its reachable states: one conforming response per
  request, no panic, failed requests without effect, reads after writes, notifications only
  while observed, the bounded voltage, the mirror key that catches up, and the truth of the
  advertised capabilities and key flags.
\<close>

section \<open>A connected node, for the witnesses\<close>

definition connected_node :: shared_state where
  "connected_node = snd (shared_register (shared_new 0 registry_new))"

lemma connected_node_run: "node_run [Connected 1] connected_node"
proof -
  have "shared_register (shared_new 0 registry_new) = (1, connected_node)"
    by (simp add: connected_node_def shared_register_def register_def shared_new_def registry_new_def Let_def)
  then show ?thesis using node_run.step [OF node_run.start node_step.connected] by blast
qed

lemma connected_node_open: "open_connection 1 connected_node"
  by (simp add: connected_node_def shared_register_def register_def shared_new_def registry_new_def Let_def
      open_connection_def connection_def handle_new_def)

section \<open>Properties\<close>

text \<open>
  C6: in every reachable state a request on an open connection is answered by exactly
  one frame on that connection, which is the well-formed success response the protocol
  pairs with the request or an error with a code it lists for it; nothing else follows but at
  most one \<open>CHANGED\<close> for the key, after the \<open>WRITTEN\<close> response of a successful write.
\<close>

theorem node_answers_request:
  assumes "node_run es st" and "open_connection cid st" and "wire_message ClientToNode m"
  shows "\<exists>resp ks st'. dispatch_message elapsed cid m st = Some (True, st') \<and>
     sent cid st' = sent cid st @ message_bytes resp # map (\<lambda>k. message_bytes (Changed k)) ks \<and>
     answers m resp \<and> wire_message NodeToClient resp \<and> length ks \<le> 1 \<and>
     (\<forall>k \<in> set ks. \<exists>v. m = Request (Write k v) \<and> resp = OrdinaryResponse (Written v))"
proof -
  have ok: "values_ok st" using node_run_inv [OF assms(1)] by (simp add: node_inv_def)
  let ?resp = "response_of elapsed st m" and ?ks = "own_notifications cid m st"
  have ks: "length ?ks \<le> 1"
    "\<forall>k \<in> set ?ks. \<exists>v. m = Request (Write k v) \<and> ?resp = OrdinaryResponse (Written v)"
    by (cases "(cid, m, st)" rule: own_notifications.cases; simp)+
  show ?thesis
    using dispatch_message_eq [OF ok assms(2,3), of elapsed] response_of_answers [OF assms(3)]
      response_of_wire [OF ok assms(3)] ks
      sent_after_dispatch [OF assms(2), of m "message_bytes ?resp"]
    by (intro exI [of _ ?resp] exI [of _ ?ks]) auto
qed

lemma node_answers_request_witness:
  "\<exists>resp ks st'. dispatch_message 5 1 (Request (Get 1)) connected_node = Some (True, st') \<and>
     sent 1 st' = sent 1 connected_node @ message_bytes resp # map (\<lambda>k. message_bytes (Changed k)) ks \<and>
     answers (Request (Get 1)) resp \<and> wire_message NodeToClient resp \<and> length ks \<le> 1 \<and>
     (\<forall>k \<in> set ks. \<exists>v. Request (Get 1) = Request (Write k v) \<and> resp = OrdinaryResponse (Written v))"
  by (rule node_answers_request [OF connected_node_run connected_node_open wire_requests(2)])

text \<open>
  No operation of the node panics in a reachable state: responses always fit their
  length fields, so dispatching any message, the voltage update and every mirror update
  return.
\<close>

lemma node_total:
  assumes "node_run es st" and "wire_message ClientToNode m"
  shows "dispatch_message elapsed cid m st \<noteq> None \<and> update_voltage st \<noteq> None \<and> flush_mirror_update g st \<noteq> None"
proof -
  have ok: "values_ok st" using node_run_inv [OF assms(1)] by (simp add: node_inv_def)
  show ?thesis
    using dispatch_message_eq [OF ok _ assms(2), of cid elapsed] dispatch_closed [OF ok _ assms(2), of cid elapsed]
      update_voltage_total [of st]
    by (cases "open_connection cid st") (auto simp: flush_mirror_eq)
qed

lemma node_total_example:
  "dispatch_message 0 1 (Request (Get 2)) connected_node \<noteq> None \<and> update_voltage connected_node \<noteq> None
     \<and> flush_mirror_update 0 connected_node \<noteq> None"
  by (rule node_total [OF connected_node_run wire_requests(2)])

text \<open>
  C28: a request answered with an error has no side effect: the state after it is the
  state before it with the error frame in the connection's channel.
\<close>

theorem node_error_no_effect:
  assumes "node_run es st" and "wire_message ClientToNode m"
    and "dispatch_message elapsed cid m st = Some (True, st')"
    and "take 1 (drop (length (sent cid st)) (sent cid st')) = [message_bytes (Error err)]"
  shows "st' = sent_to cid (message_bytes (Error err)) st"
proof -
  have ok: "values_ok st" using node_run_inv [OF assms(1)] by (simp add: node_inv_def)
  let ?resp = "response_of elapsed st m"
  note res = dispatch_result [OF ok assms(2,3)]
  then have op: "open_connection cid st" by simp
  have "message_bytes ?resp = message_bytes (Error err)"
    using res assms(4) sent_after_dispatch [OF op, of m "message_bytes ?resp"] by simp
  then have resp: "?resp = Error err"
    using message_bytes_inj [OF response_of_wire [OF ok assms(2)] node_messages(4)] by blast
  show ?thesis
  proof (cases rule: wire_client_cases [OF assms(2)])
    case 1
    with resp show ?thesis by (simp add: caps_message_def)
  next
    case (2 q)
    with resp res show ?thesis
      by (cases q) (auto split: if_splits option.splits sum.splits)
  qed
qed

lemma node_error_no_effect_witness:
  "\<exists>st'. dispatch_message 0 1 (Request (Get 5)) connected_node = Some (True, st') \<and>
     st' = sent_to 1 (message_bytes (Error (ErrorResponse ERR_PERMISSION))) connected_node"
proof -
  have ok: "values_ok connected_node" using node_run_inv [OF connected_node_run] by (simp add: node_inv_def)
  let ?m = "Request (Get 5)"
  have err: "get_value 0 5 connected_node = Inl ERR_PERMISSION"
    by (simp add: get_value_Inl readable_keys_def key_spec_simps)
  from dispatch_message_eq [OF ok connected_node_open wire_requests(2), of 0 5]
  obtain st' where st': "dispatch_message 0 1 ?m connected_node = Some (True, st')" by blast
  note res = dispatch_result [OF ok wire_requests(2) st']
  have "sent 1 st' = sent 1 connected_node @ [message_bytes (Error (ErrorResponse ERR_PERMISSION))]"
    using res sent_after_dispatch [OF connected_node_open, of ?m] by (simp add: err)
  then show ?thesis
    using node_error_no_effect [OF connected_node_run wire_requests(2) st'] st' by simp
qed

text \<open>
  C27: a write either fails with a listed code and changes nothing, or it returns the
  value it was given, a read of the key (when it is readable) then yields that value, every
  other key reads as before, and an observable key whose value differs is reported as changed.
\<close>

theorem write_value_correct:
  "case write_value k v st of
     (Inl code, st') \<Rightarrow> st' = st \<and> code = write_error k
   | (Inr w, st') \<Rightarrow>
       value_of_wire (written_value w) = v \<and>
       (\<forall>elapsed j. get_value elapsed j st' =
          (if j = k \<and> k \<in> readable_keys then Inr (written_value w) else get_value elapsed j st)) \<and>
       (changed_keyref w = Some k \<longleftrightarrow>
          k \<in> observable_keys \<and>
          (get_value 0 k st' \<noteq> get_value 0 k st \<or> k = KEY_GP2_U64 \<and> gp2_u64 st' \<noteq> gp2_u64 st)) \<and>
       (changed_keyref w = None \<or> changed_keyref w = Some k)"
proof (cases "write_accepts k v")
  case False
  then show ?thesis by (simp add: write_value_eq)
next
  case True
  have unread: "get_value e k (write_update k v st) = get_value e k st" if "k \<notin> readable_keys" for e
    using that get_value_Inl [of e k] by (metis)
  have chg: "write_changes k v st \<longleftrightarrow> k \<in> observable_keys \<and>
      (get_value 0 k (write_update k v st) \<noteq> get_value 0 k st
       \<or> k = KEY_GP2_U64 \<and> gp2_u64 (write_update k v st) \<noteq> gp2_u64 st)"
    using True
    by (cases v) (auto simp: key_defs observable_keys_def get_value_def key_spec_simps flag_tests)
  have read: "get_value e j (write_update k v st) =
      (if j = k \<and> k \<in> readable_keys then Inr (wire_of_value v) else get_value e j st)" for e j
    using unread get_written [OF True] get_other [OF True] by (cases "j = k") simp_all
  show ?thesis
    unfolding write_value_eq if_P [OF True] prod.case sum.case write_success.select_convs
  proof (intro conjI allI)
    show "value_of_wire (wire_of_value v) = v" by (rule value_of_wire_of [OF True])
  qed (use read chg in auto)
qed

lemma write_value_correct_witness:
  "\<exists>w st'. write_value 4 (I64 7) connected_node = (Inr w, st') \<and> value_of_wire (written_value w) = I64 7 \<and>
     get_value 0 4 st' = Inr (written_value w)"
proof -
  have acc: "write_accepts 4 (I64 7)" by (simp add: key_defs)
  obtain w st' where w: "write_value 4 (I64 7) connected_node = (Inr w, st')"
    unfolding write_value_eq if_P [OF acc] by blast
  moreover have "4 \<in> readable_keys" by (simp add: readable_keys_def)
  ultimately show ?thesis
    using write_value_correct [where k = 4 and v = "I64 7" and st = connected_node] by simp
qed

section \<open>Notifications\<close>

lemma sent_effects:
  "sent c (notify_all k st) = sent c st @
     (if \<exists>h. connection c st = Some h \<and> is_observing k h \<and> receiver_open h then [message_bytes (Changed k)] else [])"
  "sent c (sent_to cid f st) = sent c st @ (if c = cid \<and> connection c st \<noteq> None then [f] else [])"
  "sent c (write_update k v st) = sent c st"
  "sent c (update_handle cid (handle_observe k) st) = sent c st"
  "sent c (update_handle cid (handle_unobserve k) st) = sent c st"
  "sent c (update_handle cid (\<lambda>h. h\<lparr>receiver_open := b\<rparr>) st) = sent c st"
  by (auto simp: sent_def connection_effects sent_to_def notify_def split: option.splits)

lemma changed_bytes_eq [simp]: "message_bytes (Changed j) = message_bytes (Changed k) \<longleftrightarrow> j = k"
  using message_bytes_inj [OF node_messages(5) node_messages(5)] by blast

lemma connection_sent_to:
  "connection c (sent_to cid f st) =
     (if c = cid then map_option (\<lambda>h. h\<lparr>channel := channel h @ [f]\<rparr>) (connection c st) else connection c st)"
  by (simp add: sent_to_def connection_effects)

text \<open>Frames a message adds to a channel are its response or a notification to an observer.\<close>

lemma notification_in_effects:
  assumes "f \<noteq> message_bytes (Changed k)" and "s = effect_after cid st m (sent_to cid f (effect_before cid m st))"
    and "message_bytes (Changed k) \<in> set (drop (length (sent c st)) (sent c s))"
  shows "\<exists>h. connection c st = Some h \<and> is_observing k h"
proof (cases m)
  case (Request q)
  with assms show ?thesis
    by (cases q) (auto simp: sent_effects connection_effects connection_sent_to split: if_splits)
qed (use assms in \<open>auto simp: sent_effects split: if_splits\<close>)

lemma notification_before:
  "sent c (effect_before cid m st) = sent c st"
  by (cases "(cid, m, st)" rule: effect_before.cases) (simp_all add: sent_effects)

lemma notification_in_dispatch:
  assumes ok: "values_ok st" and wire: "wire_message ClientToNode m"
    and disp: "dispatch_message e cid m st = Some (b, st')"
    and new: "message_bytes (Changed k) \<in> set (drop (length (sent c st)) (sent c st'))"
  shows "\<exists>h. connection c st = Some h \<and> is_observing k h"
proof -
  note res = dispatch_result [OF ok wire disp]
  have "message_bytes (response_of e st m) \<noteq> message_bytes (Changed k)"
    using message_bytes_inj [OF response_of_wire [OF ok wire] node_messages(5)]
      answers_not_changed [OF response_of_answers [OF wire]] by blast
  then show ?thesis
    using res(2) new notification_in_effects [of _ k st' cid st m c]
    by (cases b) (auto simp: notification_before)
qed

lemma notification_in_step:
  assumes "node_step st e st'" and "values_ok st"
    and "message_bytes (Changed k) \<in> set (drop (length (sent c st)) (sent c st'))"
  shows "\<exists>h. connection c st = Some h \<and> is_observing k h"
  using assms
proof (induction rule: node_step.induct)
  case (connected st cid st')
  then show ?case
    by (auto simp: shared_register_def register_def Let_def sent_def connection_def handle_new_def split: if_splits)
next
  case (disconnected cid st)
  then show ?case by (auto simp: sent_def connection_def unregister_def split: if_splits)
next
  case (received cid st m elapsed ok st')
  then show ?case using notification_in_dispatch by blast
next
  case (voltage_tick st st')
  obtain v s where st': "st' = (if voltage_ma st \<noteq> v
      then notify_all KEY_VOLTAGE_MA (st\<lparr>rng_seed := s, voltage_ma := v\<rparr>)
      else st\<lparr>rng_seed := s, voltage_ma := v\<rparr>)"
    using update_voltage_eq [OF voltage_tick(1)] by blast
  define st1 where "st1 = st\<lparr>rng_seed := s, voltage_ma := v\<rparr>"
  have same: "sent c st1 = sent c st" "connection c st1 = connection c st"
    by (auto simp: sent_def connection_def st1_def)
  show ?case
  proof (cases "voltage_ma st = v")
    case True
    then have "st' = st1" using st' by (simp only: st1_def simp_thms if_False)
    then show ?thesis using voltage_tick(3) same by simp
  next
    case False
    then have "st' = notify_all KEY_VOLTAGE_MA st1" using st' by (simp only: st1_def simp_thms if_True)
    then show ?thesis using voltage_tick(3) by (auto simp: sent_effects same split: if_splits)
  qed
next
  case (mirror_flush g st st')
  let ?s = "st\<lparr>scheduled := remove1 g (scheduled st)\<rparr>"
  let ?s' = "?s\<lparr>mirror_out := mirror_pending st\<rparr>"
  have same: "sent c ?s = sent c st" "connection c ?s' = connection c st" "sent c ?s' = sent c st"
    by (auto simp: sent_def connection_def)
  have "st' = (if mirror_generation st = g \<and> mirror_out st \<noteq> mirror_pending st
      then notify_all KEY_MIRROR_OUT ?s' else ?s)"
    using mirror_flush(2) by (auto simp: flush_mirror_eq)
  then consider "st' = ?s" | "st' = notify_all KEY_MIRROR_OUT ?s'" by presburger
  then show ?case
  proof cases
    case 1
    with mirror_flush(4) show ?thesis by (simp add: same)
  next
    case 2
    with mirror_flush(4) show ?thesis by (auto simp: sent_effects same split: if_splits)
  qed
next
  case (writer_stopped st cid)
  then show ?case by (simp add: sent_effects)
qed


text \<open>A history in which connection 1 observes key 4 before writing it.\<close>

lemma observed_write_history:
  obtains st st' where "node_run [Received 1 (Request (Observe 4)) True, Connected 1] st"
    and "node_step st (Received 1 (Request (Write 4 (I64 7))) True) st'"
    and "message_bytes (Changed 4) \<in> set (drop (length (sent 1 st)) (sent 1 st'))"
proof -
  let ?obs = "Request (Observe 4)" and ?wr = "Request (Write 4 (I64 7))"
  have inv: "values_ok connected_node" using node_run_inv [OF connected_node_run] by (simp add: node_inv_def)
  define st where "st = update_handle 1 (handle_observe 4) (sent_to 1 (message_bytes (OrdinaryResponse Ok)) connected_node)"
  have disp: "dispatch_message 0 1 ?obs connected_node = Some (True, st)"
    using dispatch_message_eq [OF inv connected_node_open wire_requests(4), of 0 4]
    by (simp add: st_def observable_keys_def)
  have run: "node_run [Received 1 ?obs True, Connected 1] st"
    by (rule node_run.step [OF connected_node_run node_step.received [OF _ wire_requests(4) disp]])
      (use connected_node_open in \<open>auto simp: open_connection_def\<close>)
  have inv': "values_ok st" using inv by (simp add: st_def values_ok_effects)
  have op: "open_connection 1 st" and gp3: "gp3_i64 st = 0"
    and obs: "\<exists>h. connection 1 st = Some h \<and> is_observing 4 h"
    using connected_node_open
    by (auto simp: open_connection_def st_def connection_effects connection_sent_to is_observing_updates)
      (simp add: connected_node_def update_handle_def sent_to_def shared_register_def register_def
        shared_new_def registry_new_def Let_def)
  from dispatch_message_eq [OF inv' op wire_requests(9), of 0 4 7]
  obtain st' where disp': "dispatch_message 0 1 ?wr st = Some (True, st')" by blast
  have "own_notifications 1 ?wr st = [4]" using obs gp3 by (simp add: key_defs)
  then have "message_bytes (Changed 4) \<in> set (drop (length (sent 1 st)) (sent 1 st'))"
    using dispatch_result(2) [OF inv' wire_requests(9) disp'] sent_after_dispatch [OF op, of ?wr] by simp
  moreover have "node_step st (Received 1 ?wr True) st'"
    by (rule node_step.received [OF _ wire_requests(9) disp']) (use op in \<open>auto simp: open_connection_def\<close>)
  ultimately show ?thesis using that run by blast
qed


text \<open>
  C35: the measured voltage a client reads stays between 230 and 270 in every reachable
  state, whatever the seed and the number of ticks.
\<close>

theorem voltage_in_range:
  assumes "node_run es st"
  shows "\<exists>v. get_value elapsed KEY_VOLTAGE_MA st = Inr (Wire_I64 v) \<and> 230 \<le> sint v \<and> sint v \<le> 270"
  using node_run_inv [OF assms]
  by (simp add: node_inv_def voltage_ok_def get_value_def key_defs key_spec_simps flag_tests)

lemma voltage_in_range_witness:
  "\<exists>v. get_value 0 KEY_VOLTAGE_MA connected_node = Inr (Wire_I64 v) \<and> 230 \<le> sint v \<and> sint v \<le> 270"
  by (rule voltage_in_range [OF connected_node_run])

section \<open>The mirror key\<close>

text \<open>
  Between a write to \<open>mirror_in\<close> and its delayed update the copies differ; the update of the
  last write is always still scheduled. The generation counter is exact below its wrap.
\<close>

definition mirror_inv :: "node_event list \<Rightarrow> shared_state \<Rightarrow> bool" where
  "mirror_inv es st \<longleftrightarrow> mirror_in st = mirror_pending st \<and> unat (mirror_generation st) \<le> length es \<and>
     (mirror_out st = mirror_pending st \<or> mirror_generation st \<in> set (scheduled st))"

lemma mirror_fields [simp]:
  "mirror_in (update_handle cid f st) = mirror_in st" "mirror_pending (update_handle cid f st) = mirror_pending st"
  "mirror_out (update_handle cid f st) = mirror_out st" "scheduled (update_handle cid f st) = scheduled st"
  "mirror_generation (update_handle cid f st) = mirror_generation st"
  "mirror_in (notify_all k st) = mirror_in st" "mirror_pending (notify_all k st) = mirror_pending st"
  "mirror_out (notify_all k st) = mirror_out st" "scheduled (notify_all k st) = scheduled st"
  "mirror_generation (notify_all k st) = mirror_generation st"
  by (simp_all add: update_handle_def notify_all_def)

lemma mirror_fields_sent [simp]:
  "mirror_in (sent_to cid f st) = mirror_in st" "mirror_pending (sent_to cid f st) = mirror_pending st"
  "mirror_out (sent_to cid f st) = mirror_out st" "scheduled (sent_to cid f st) = scheduled st"
  "mirror_generation (sent_to cid f st) = mirror_generation st"
  by (simp_all add: sent_to_def)

lemma mirror_inv_fields:
  "mirror_in st' = mirror_in st \<Longrightarrow> mirror_pending st' = mirror_pending st \<Longrightarrow> mirror_out st' = mirror_out st \<Longrightarrow>
   scheduled st' = scheduled st \<Longrightarrow> mirror_generation st' = mirror_generation st \<Longrightarrow>
   mirror_inv es st \<Longrightarrow> mirror_inv (e # es) st'"
  by (simp add: mirror_inv_def)

lemma mirror_after [simp]:
  "mirror_in (effect_after cid st0 m st) = mirror_in st"
  "mirror_pending (effect_after cid st0 m st) = mirror_pending st"
  "mirror_out (effect_after cid st0 m st) = mirror_out st"
  "scheduled (effect_after cid st0 m st) = scheduled st"
  "mirror_generation (effect_after cid st0 m st) = mirror_generation st"
  by (cases "(cid, st0, m, st)" rule: effect_after.cases; simp)+

lemma mirror_inv_before:
  assumes inv: "mirror_inv es st" and len: "length es < 2 ^ 64 - 1"
  shows "mirror_inv (e # es) (effect_before cid m st)"
proof (cases "\<exists>s. m = Request (Write KEY_MIRROR_IN (Str s))")
  case True
  then obtain s where m: "m = Request (Write KEY_MIRROR_IN (Str s))" ..
  let ?g = "mirror_generation st"
  have g: "unat ?g + 1 < 2 ^ 64" using inv len by (simp add: mirror_inv_def)
  then have "u64_saturating_add ?g 1 = ?g + 1" by (simp add: u64_saturating_add_def)
  moreover have "unat (?g + 1) = unat ?g + 1" using g by (simp add: unat_word_ariths)
  ultimately show ?thesis using inv by (simp add: m mirror_inv_def key_defs)
next
  case False
  then show ?thesis
  proof (cases "(cid, m, st)" rule: effect_before.cases)
    case (1 cid k v st)
    with False inv show ?thesis by (cases v) (auto simp: mirror_inv_def)
  qed (use inv in \<open>auto simp: mirror_inv_def\<close>)
qed

lemma mirror_inv_step:
  "node_step st e st' \<Longrightarrow> values_ok st \<Longrightarrow> mirror_inv es st \<Longrightarrow> length es < 2 ^ 64 - 1 \<Longrightarrow> mirror_inv (e # es) st'"
proof (induction rule: node_step.induct)
  case (connected st cid st')
  then show ?case by (auto simp: shared_register_def register_def Let_def mirror_inv_def)
next
  case (disconnected cid st)
  then show ?case by (auto simp: mirror_inv_def)
next
  case (received cid st m elapsed ok st')
  note res = dispatch_result(2) [OF received(4,2,3)]
  from mirror_inv_before [OF received(5,6)] have inv: "mirror_inv (Received cid m ok # es) (effect_before cid m st)" .
  with res show ?case by (cases ok) (simp_all add: mirror_inv_def)
next
  case (voltage_tick st st')
  obtain v s where "st' = (if voltage_ma st \<noteq> v
      then notify_all KEY_VOLTAGE_MA (st\<lparr>rng_seed := s, voltage_ma := v\<rparr>)
      else st\<lparr>rng_seed := s, voltage_ma := v\<rparr>)"
    using update_voltage_eq [OF voltage_tick(1)] by blast
  then have "mirror_in st' = mirror_in st \<and> mirror_pending st' = mirror_pending st \<and> mirror_out st' = mirror_out st
      \<and> scheduled st' = scheduled st \<and> mirror_generation st' = mirror_generation st"
    by (simp split: if_splits)
  then show ?case using mirror_inv_fields voltage_tick(3) by blast
next
  case (mirror_flush g st st')
  let ?s = "st\<lparr>scheduled := remove1 g (scheduled st)\<rparr>"
  have st': "st' = (if mirror_generation st = g \<and> mirror_out st \<noteq> mirror_pending st
      then notify_all KEY_MIRROR_OUT (?s\<lparr>mirror_out := mirror_pending st\<rparr>) else ?s)"
    using mirror_flush(2) by (auto simp: flush_mirror_eq)
  show ?case
  proof (cases "mirror_generation st = g")
    case True
    with st' mirror_flush(4) show ?thesis by (auto simp: mirror_inv_def)
  next
    case False
    with st' mirror_flush(4) show ?thesis by (auto simp: mirror_inv_def)
  qed
next
  case (writer_stopped st cid)
  then show ?case by (simp add: mirror_inv_def)
qed

lemma node_run_mirror: "node_run es st \<Longrightarrow> length es < 2 ^ 64 \<Longrightarrow> mirror_inv es st"
proof (induction rule: node_run.induct)
  case (start seed)
  then show ?case by (simp add: mirror_inv_def shared_new_def)
next
  case (step es st e st')
  moreover have "values_ok st" using node_run_inv [OF step(1)] by (simp add: node_inv_def)
  ultimately show ?case using mirror_inv_step [of st e st' es] by simp
qed

text \<open>
  The mirror key catches up: in every history of fewer than 2^64 events, once no
  delayed update is outstanding, \<open>mirror_out\<close> reads the string last written to \<open>mirror_in\<close>.
\<close>

lemma mirror_catches_up:
  assumes "node_run es st" and "length es < 2 ^ 64" and "scheduled st = []"
  shows "get_value elapsed KEY_MIRROR_OUT st = Inr (Wire_Str (mirror_in st))"
  using node_run_mirror [OF assms(1,2)] assms(3)
  by (simp add: mirror_inv_def get_value_def key_defs key_spec_simps flag_tests)

lemma mirror_catches_up_witness: "get_value 0 KEY_MIRROR_OUT connected_node = Inr (Wire_Str (mirror_in connected_node))"
  by (rule mirror_catches_up [OF connected_node_run])
    (simp_all add: connected_node_def shared_register_def register_def shared_new_def registry_new_def Let_def)

section \<open>What the node advertises\<close>

text \<open>
  The capability string of the node is accurate: it is well formed, announces \<open>!\<close>, and
  its pairs are exactly the request and response pairs the protocol defines, all known.
\<close>

lemma advertised_caps:
  "case caps_parse node_caps of
     Inl _ \<Rightarrow> False
   | Inr c \<Rightarrow> supports_changed c \<and> list_all entry_known (caps_entries (caps_iter_of c)) \<and>
       set (map (\<lambda>e. (entry_request e, entry_response e)) (caps_entries (caps_iter_of c))) = set response_table"
proof -
  have pairs: "caps_pairs node_caps =
      Some ([(0x50, 0x6B), (0x49, 0x69), (0x43, 0x63), (0x53, 0x73), (0x47, 0x67), (0x57, 0x77),
             (0x4E, 0x6B), (0x55, 0x6B)], True)"
    by (simp add: node_caps_def ascii_def)
  have "caps_entries (caps_iter_of \<lparr>caps_raw = node_caps, supports_changed = True\<rparr>) =
      map entry_of [(0x50, 0x6B), (0x49, 0x69), (0x43, 0x63), (0x53, 0x73), (0x47, 0x67), (0x57, 0x77),
             (0x4E, 0x6B), (0x55, 0x6B)]"
    using caps_entries_from [OF pairs, of "[]"] by (simp add: caps_iter_of_def)
  then show ?thesis
    by (simp add: node_caps_parse entry_of_def expected_ordinary_response_def response_table_def
        opcode_defs) blast
qed

lemma write_accepts_keys: "write_accepts k v \<Longrightarrow> k \<in> {2, 3, 4, 5, 7, 11, 12}"
  by (cases v) (auto simp: key_defs)

text \<open>
  The flags a key reports are true of it: a key can be read exactly when it is flagged
  readable, observed exactly when flagged observable, and refuses every write for lack of
  permission exactly when it is not flagged writable; and the reported key count is the bound
  of the valid key references.
\<close>

lemma key_flags_truthful:
  "case key_spec k of
     None \<Rightarrow> unat KEY_COUNT \<le> unat k
   | Some s \<Rightarrow> unat k < unat KEY_COUNT \<and>
       is_readable (KeyFlags (spec_flags s)) = (\<exists>v. get_value elapsed k st = Inr v) \<and>
       is_observable (KeyFlags (spec_flags s)) = (can_observe k = Inr ()) \<and>
       is_writable (KeyFlags (spec_flags s)) = (\<exists>v. fst (write_value k v st) \<noteq> Inl ERR_PERMISSION)"
proof (cases "unat k < 14")
  case True
  have err: "fst (write_value k v st) \<noteq> Inl ERR_PERMISSION \<longleftrightarrow> write_accepts k v \<or> write_error k \<noteq> ERR_PERMISSION" for v
    by (simp add: write_value_eq)
  have reads: "(\<exists>v. get_value elapsed k st = Inr v) \<longleftrightarrow> k \<in> readable_keys"
    using get_value_Inl [of elapsed k st] by (cases "get_value elapsed k st") auto
  from keyref_cases [OF True] show ?thesis
    unfolding reads err
    by (elim insertE emptyE)
      (auto simp: key_spec_simps KEY_COUNT_def is_readable_def is_observable_def is_writable_def
        flag_tests readable_keys_def can_observe_def write_error_def err_defs key_defs
        dest!: write_accepts_keys)
next
  case False
  then show ?thesis by (simp add: key_spec_None [THEN iffD2] KEY_COUNT_def)
qed

end
