(* ===== verification/Test_Node_Race.thy ===== *)
theory Test_Node_Race
  imports Test_Node_Props
begin

text \<open>
  The test node at the granularity of its tasks: \<open>broadcast_changed\<close> runs on the task that
  changed the key, looks at the observation mask of a connection and then sends, while the
  connection's own task may serve requests in between. The atomic steps are the atomic
  operations of the code: the swap of the voltage, the load of the mask, the channel send,
  and one dispatched message.
\<close>

datatype broadcast_pc =
    Broadcast_Idle
  | Broadcast_Checking u16 u64
  | Broadcast_Sending u16 u64

inductive task_step :: "shared_state \<times> broadcast_pc \<Rightarrow> shared_state \<times> broadcast_pc \<Rightarrow> bool" where
  voltage_swap: "next_voltage_offset st = (offset, st1) \<Longrightarrow> next_value = i64_saturating (250 + sint offset) \<Longrightarrow>
    voltage_ma st1 \<noteq> next_value \<Longrightarrow> connection cid st \<noteq> None \<Longrightarrow>
    task_step (st, Broadcast_Idle) (st1\<lparr>voltage_ma := next_value\<rparr>, Broadcast_Checking KEY_VOLTAGE_MA cid)"
| mask_load: "connection cid st = Some h \<Longrightarrow>
    task_step (st, Broadcast_Checking k cid)
      (st, if is_observing k h then Broadcast_Sending k cid else Broadcast_Idle)"
| channel_send: "conn_send cid (encode_changed k) st = Some (ok, st') \<Longrightarrow>
    task_step (st, Broadcast_Sending k cid) (st', Broadcast_Idle)"
| message: "connection cid st \<noteq> None \<Longrightarrow> wire_message ClientToNode m \<Longrightarrow>
    dispatch_message e cid m st = Some (ok, st') \<Longrightarrow> task_step (st, pc) (st', pc)"

inductive_simps task_step_idle: "task_step (st, Broadcast_Idle) c"
inductive_simps task_step_sending: "task_step (st, Broadcast_Sending k cid) c"

section \<open>A notification after the response to UNOBSERVE\<close>

text \<open>
  The run: connection 1 observes the voltage, a tick changes it and sees the observation,
  the connection serves an \<open>UNOBSERVE\<close>, and only then the tick sends its notification.
\<close>

definition race_seed :: u64 where "race_seed = 1"

definition race_start :: shared_state where
  "race_start = snd (shared_register (shared_new race_seed registry_new))"

lemma race_start_run: "node_run [Connected 1] race_start"
proof -
  have "shared_register (shared_new race_seed registry_new) = (1, race_start)"
    by (simp add: race_start_def shared_register_def register_def shared_new_def registry_new_def Let_def)
  then show ?thesis using node_run.step [OF node_run.start node_step.connected] by blast
qed

lemma race_start_fields:
  "connection 1 race_start = Some handle_new" "voltage_ma race_start = 250" "rng_seed race_start = race_seed"
  by (simp_all add: race_start_def shared_register_def register_def shared_new_def registry_new_def Let_def connection_def)

lemma race_offset: "rng_seed st = race_seed \<Longrightarrow>
    next_voltage_offset st = (19, st\<lparr>rng_seed := race_seed + 0x9e3779b97f4a7c15\<rparr>)"
proof -
  have "mix_u64 race_seed mod 41 = 39" by code_simp
  then show "rng_seed st = race_seed \<Longrightarrow> ?thesis"
    by (simp add: next_voltage_offset_def Let_def i64_saturating_def)
qed

text \<open>The states of the node: after OBSERVE, after the voltage has changed, and after UNOBSERVE.\<close>

definition race_observed :: shared_state where
  "race_observed = update_handle 1 (handle_observe 0) (sent_to 1 (message_bytes (OrdinaryResponse Ok)) race_start)"

definition race_changed :: shared_state where
  "race_changed = race_observed\<lparr>rng_seed := race_seed + 0x9e3779b97f4a7c15, voltage_ma := i64_saturating 269\<rparr>"

definition race_unobserved :: shared_state where
  "race_unobserved = sent_to 1 (message_bytes (OrdinaryResponse Ok)) (update_handle 1 (handle_unobserve 0) race_changed)"

lemma race_observed_step:
  "dispatch_message 0 1 (Request (Observe KEY_VOLTAGE_MA)) race_start = Some (True, race_observed)"
  "values_ok race_observed" "sent 1 race_observed = [message_bytes (OrdinaryResponse Ok)]"
proof -
  have ok: "values_ok race_start" using node_run_inv [OF race_start_run] by (simp add: node_inv_def)
  have op: "open_connection 1 race_start" by (simp add: open_connection_def race_start_fields handle_new_def)
  show "dispatch_message 0 1 (Request (Observe KEY_VOLTAGE_MA)) race_start = Some (True, race_observed)"
    using dispatch_message_eq [OF ok op wire_requests(4), of 0 0]
    by (simp add: race_observed_def observable_keys_def KEY_VOLTAGE_MA_def)
  show "values_ok race_observed" using ok by (simp add: race_observed_def values_ok_effects)
  show "sent 1 race_observed = [message_bytes (OrdinaryResponse Ok)]"
    by (simp add: race_observed_def sent_effects race_start_fields) (simp add: sent_def race_start_fields handle_new_def)
qed

lemma race_observer:
  obtains h where "connection 1 race_observed = Some h" "is_observing 0 h" "receiver_open h"
  by (simp add: race_observed_def connection_effects connection_sent_to race_start_fields is_observing_updates handle_new_def)

lemma race_changed_same:
  "connection 1 race_changed = connection 1 race_observed" "sent 1 race_changed = sent 1 race_observed"
  "values_ok race_changed = values_ok race_observed"
  by (auto simp: race_changed_def connection_def sent_def values_ok_def)

lemma race_changed_run:
  "task_step\<^sup>*\<^sup>* (race_observed, Broadcast_Idle) (race_changed, Broadcast_Sending 0 1)"
proof -
  obtain h where h: "connection 1 race_observed = Some h" "is_observing 0 h" "receiver_open h" by (rule race_observer)
  have seed: "rng_seed race_observed = race_seed" "voltage_ma race_observed = 250"
    by (simp_all add: race_observed_def update_handle_def sent_to_def race_start_fields)
  have neq: "(250 :: i64) \<noteq> i64_saturating 269" by (simp add: i64_saturating_def)
  have "task_step (race_observed, Broadcast_Idle) (race_changed, Broadcast_Checking 0 1)"
    using task_step.voltage_swap [OF race_offset [OF seed(1)] refl, of 1] h seed neq
    by (simp add: race_changed_def KEY_VOLTAGE_MA_def)
  moreover have "task_step (race_changed, Broadcast_Checking 0 1) (race_changed, Broadcast_Sending 0 1)"
    using task_step.mask_load [of 1 race_changed h 0] h by (simp add: race_changed_same)
  ultimately show ?thesis by (meson converse_rtranclp_into_rtranclp r_into_rtranclp)
qed

lemma race_unobserved_step:
  "dispatch_message 0 1 (Request (Unobserve KEY_VOLTAGE_MA)) race_changed = Some (True, race_unobserved)"
  "task_step (race_changed, Broadcast_Sending 0 1) (race_unobserved, Broadcast_Sending 0 1)"
  "open_connection 1 race_unobserved"
  "sent 1 race_unobserved = [message_bytes (OrdinaryResponse Ok), message_bytes (OrdinaryResponse Ok)]"
proof -
  obtain h where h: "connection 1 race_observed = Some h" "is_observing 0 h" "receiver_open h" by (rule race_observer)
  have ok: "values_ok race_changed" and op: "open_connection 1 race_changed"
    using race_observed_step(2) h by (simp_all add: race_changed_same open_connection_def)
  have d: "dispatch_message 0 1 (Request (Unobserve 0)) race_changed = Some (True, race_unobserved)"
    using dispatch_message_eq [OF ok op wire_requests(5), of 0 0]
    by (simp add: race_unobserved_def key_spec_simps KEY_VOLTAGE_MA_def)
  then show "dispatch_message 0 1 (Request (Unobserve KEY_VOLTAGE_MA)) race_changed = Some (True, race_unobserved)"
    by (simp add: KEY_VOLTAGE_MA_def)
  show "task_step (race_changed, Broadcast_Sending 0 1) (race_unobserved, Broadcast_Sending 0 1)"
    by (rule task_step.message [OF _ wire_requests(5) d]) (simp add: race_changed_same h)
  show "open_connection 1 race_unobserved"
    using h by (simp add: race_unobserved_def open_connection_def connection_sent_to connection_effects race_changed_same)
  show "sent 1 race_unobserved = [message_bytes (OrdinaryResponse Ok), message_bytes (OrdinaryResponse Ok)]"
    by (simp add: race_unobserved_def sent_effects connection_sent_to connection_effects race_changed_same h race_observed_step(3))
qed

text \<open>
  C24: the node can send a notification after the success response to \<open>UNOBSERVE\<close>: some
  interleaving of the voltage task with a connection that observes and then unobserves the
  voltage puts the responses to both requests into the channel and then a \<open>CHANGED\<close> for that key.
\<close>

theorem changed_after_unobserve:
  "\<exists>st0 st1 st2 st3 st4.
     node_run [Connected 1] st0 \<and>
     dispatch_message 0 1 (Request (Observe KEY_VOLTAGE_MA)) st0 = Some (True, st1) \<and>
     task_step\<^sup>*\<^sup>* (st1, Broadcast_Idle) (st2, Broadcast_Sending KEY_VOLTAGE_MA 1) \<and>
     dispatch_message 0 1 (Request (Unobserve KEY_VOLTAGE_MA)) st2 = Some (True, st3) \<and>
     task_step (st2, Broadcast_Sending KEY_VOLTAGE_MA 1) (st3, Broadcast_Sending KEY_VOLTAGE_MA 1) \<and>
     task_step (st3, Broadcast_Sending KEY_VOLTAGE_MA 1) (st4, Broadcast_Idle) \<and>
     sent 1 st4 = [message_bytes (OrdinaryResponse Ok), message_bytes (OrdinaryResponse Ok),
                   message_bytes (Changed KEY_VOLTAGE_MA)]"
proof -
  define st4 where "st4 = sent_to 1 (message_bytes (Changed 0)) race_unobserved"
  have send: "task_step (race_unobserved, Broadcast_Sending 0 1) (st4, Broadcast_Idle)"
    using task_step.channel_send [of 1 0 race_unobserved True st4] conn_send_open [OF race_unobserved_step(3)]
    by (simp add: encoders st4_def)
  obtain h where "connection 1 race_unobserved = Some h"
    using race_unobserved_step(3) by (auto simp: open_connection_def)
  then have "sent 1 st4 = [message_bytes (OrdinaryResponse Ok), message_bytes (OrdinaryResponse Ok), message_bytes (Changed 0)]"
    by (simp add: st4_def sent_effects race_unobserved_step(4))
  then show ?thesis
    using race_start_run race_observed_step(1) race_changed_run race_unobserved_step(1,2) send
    unfolding KEY_VOLTAGE_MA_def by blast
qed

end
