(* ===== verification/Test_Node_Main.thy ===== *)
theory Test_Node_Main
  imports Test_Node_Props
begin

text \<open>
  The process of the test node (\<open>qup-test-node/src/main.rs\<close>): \<open>main\<close> binds the listener, starts
  the voltage task and accepts connections; every accepted connection is served by a task of its
  own. A history is a list of what the listener and the tasks do, in any order. The listener,
  the clock and the scheduler are parameters.
\<close>

section \<open>The process\<close>

text \<open>The time since the epoch in seconds and nanoseconds, unless the clock is before it.\<close>

definition initial_seed :: "(u64 \<times> u32) option \<Rightarrow> u64" where
  "initial_seed since_epoch =
     (case since_epoch of
        None \<Rightarrow> 0x5eed123456789abc
      | Some (secs, subsec_nanos) \<Rightarrow> secs XOR ucast subsec_nanos)"

text \<open>The voltage task over a number of ticks of its interval.\<close>

fun run_voltage_loop :: "nat \<Rightarrow> shared_state \<Rightarrow> shared_state option" where
  "run_voltage_loop 0 st = Some st"
| "run_voltage_loop (Suc ticks) st = Option.bind (update_voltage st) (run_voltage_loop ticks)"

text \<open>
  A step of a task: the first of the spawned connections registers, a connection has read a
  message at the given uptime, its read loop has ended, the voltage ticks, a delayed update of
  the mirror wakes, or a writer stops.
\<close>

datatype node_task =
    Task_Register
  | Task_Message u64 u64 message_ref
  | Task_Ends u64
  | Task_Tick
  | Task_Wakes u64
  | Task_Writer_Stops u64

text \<open>A task that is not there does nothing. The number counts the spawned connections not yet registered.\<close>

fun run_task :: "node_task \<Rightarrow> nat \<times> shared_state \<Rightarrow> (nat \<times> shared_state) option" where
  "run_task Task_Register (n, st) =
     Some (if n = 0 then (n, st) else (n - 1, snd (shared_register st)))"
| "run_task (Task_Message elapsed cid m) (n, st) =
     (if connection cid st = None then Some (n, st)
      else map_option (\<lambda>(_, st). (n, st)) (dispatch_message elapsed cid m st))"
| "run_task (Task_Ends cid) (n, st) =
     Some (n, if connection cid st = None then st else st\<lparr>registry := unregister cid (registry st)\<rparr>)"
| "run_task Task_Tick (n, st) = map_option (Pair n) (run_voltage_loop 1 st)"
| "run_task (Task_Wakes generation) (n, st) =
     (if generation \<in> set (scheduled st)
      then map_option (Pair n) (flush_mirror_update generation (st\<lparr>scheduled := remove1 generation (scheduled st)\<rparr>))
      else Some (n, st))"
| "run_task (Task_Writer_Stops cid) (n, st) =
     Some (n, update_handle cid (\<lambda>h. h\<lparr>receiver_open := False\<rparr>) st)"

datatype 'io main_event = Accept "'io + unit" | Runs node_task

fun accept_loop :: "'io main_event list \<Rightarrow> nat \<times> shared_state \<Rightarrow> ('io + nat \<times> shared_state) option" where
  "accept_loop [] s = Some (Inr s)"
| "accept_loop (Accept (Inl e) # events) s = Some (Inl e)"
| "accept_loop (Accept (Inr _) # events) (n, st) = accept_loop events (n + 1, st)"
| "accept_loop (Runs task # events) s = (case run_task task s of None \<Rightarrow> None | Some s \<Rightarrow> accept_loop events s)"

text \<open>An error of the listener ends the process; \<open>None\<close> is the panic of a task.\<close>

definition node_main ::
  "'io + unit \<Rightarrow> (u64 \<times> u32) option \<Rightarrow> 'io main_event list \<Rightarrow> ('io + nat \<times> shared_state) option" where
  "node_main bound since_epoch events =
     (case bound of
        Inl e \<Rightarrow> Some (Inl e)
      | Inr _ \<Rightarrow> accept_loop events (0, shared_new (initial_seed since_epoch) registry_new))"

section \<open>The process stays in the reachable states\<close>

fun task_ok :: "node_task \<Rightarrow> bool" where
  "task_ok (Task_Message elapsed cid m) = wire_message ClientToNode m"
| "task_ok _ = True"

fun main_event_ok :: "'io main_event \<Rightarrow> bool" where
  "main_event_ok (Runs task) = task_ok task"
| "main_event_ok (Accept _) = True"

lemma run_task_reachable:
  assumes "node_run es st" and "task_ok task"
  obtains n' st' es' where "run_task task (n, st) = Some (n', st')" and "node_run es' st'"
proof (cases task)
  case Task_Register
  obtain cid st' where reg: "shared_register st = (cid, st')" by fastforce
  then have "node_run (Connected cid # es) st'" using assms(1) by (blast intro: node_run.step node_step.connected)
  then show ?thesis
    using that [of n st es] that [of "n - 1" st' "Connected cid # es"] assms(1) reg by (cases n) (simp_all add: Task_Register)
next
  case (Task_Message elapsed cid m)
  then have wire: "wire_message ClientToNode m" using assms(2) by simp
  obtain ok st' where sent: "dispatch_message elapsed cid m st = Some (ok, st')"
    using node_total [OF assms(1) wire, of elapsed cid] by fastforce
  show ?thesis
  proof (cases "connection cid st = None")
    case False
    then have "node_run (Received cid m ok # es) st'"
      using assms(1) wire sent by (blast intro: node_run.step node_step.received)
    then show ?thesis using that [of n st'] False sent by (simp add: Task_Message)
  qed (use that [of n st] assms(1) Task_Message in simp)
next
  case (Task_Ends cid)
  show ?thesis
  proof (cases "connection cid st = None")
    case False
    then have "node_run (Disconnected cid # es) (st\<lparr>registry := unregister cid (registry st)\<rparr>)"
      using assms(1) by (blast intro: node_run.step node_step.disconnected)
    then show ?thesis using that False by (simp add: Task_Ends)
  qed (use that [of n st] assms(1) Task_Ends in simp)
next
  case Task_Tick
  obtain st' where "update_voltage st = Some st'" using update_voltage_total [of st] by blast
  moreover from this have "node_run (Voltage_Tick # es) st'"
    using assms(1) by (blast intro: node_run.step node_step.voltage_tick)
  ultimately show ?thesis using that [of n st'] by (simp add: Task_Tick)
next
  case (Task_Wakes generation)
  let ?st = "st\<lparr>scheduled := remove1 generation (scheduled st)\<rparr>"
  show ?thesis
  proof (cases "generation \<in> set (scheduled st)")
    case True
    obtain st' where flushed: "flush_mirror_update generation ?st = Some st'"
      by (cases "flush_mirror_update generation ?st") (auto simp: flush_mirror_eq)
    then have "node_run (Mirror_Flush generation # es) st'"
      using assms(1) True by (blast intro: node_run.step node_step.mirror_flush)
    then show ?thesis using that [of n st'] True flushed by (simp add: Task_Wakes)
  qed (use that [of n st] assms(1) Task_Wakes in simp)
next
  case (Task_Writer_Stops cid)
  have "node_run (Writer_Stopped cid # es) (update_handle cid (\<lambda>h. h\<lparr>receiver_open := False\<rparr>) st)"
    using assms(1) by (blast intro: node_run.step node_step.writer_stopped)
  then show ?thesis using that by (simp add: Task_Writer_Stops)
qed

definition reachable_outcome :: "'io + nat \<times> shared_state \<Rightarrow> bool" where
  "reachable_outcome outcome \<longleftrightarrow> (case outcome of Inl _ \<Rightarrow> True | Inr (_, st) \<Rightarrow> \<exists>es. node_run es st)"

lemma accept_loop_reachable:
  "node_run es (snd s) \<Longrightarrow> list_all main_event_ok events \<Longrightarrow>
     \<exists>outcome. accept_loop events s = Some outcome \<and> reachable_outcome outcome"
proof (induction events s arbitrary: es rule: accept_loop.induct)
  case (4 task events s)
  obtain n' st' es' where "run_task task s = Some (n', st')" "node_run es' st'"
    using run_task_reachable [of es "snd s" task "fst s"] "4.prems" by auto
  then show ?case using "4.IH" [of "(n', st')" es'] "4.prems" by simp
qed (auto simp: reachable_outcome_def)

section \<open>Property\<close>

text \<open>
  C29: whatever the listener accepts and in whatever order the tasks run, the process of the
  test node does not panic: it ends only with an error of the listener, and its shared state
  is one that the steps of the node reach from the start.
\<close>

theorem node_process_never_panics:
  assumes "list_all main_event_ok events"
  shows "\<exists>outcome. node_main bound since_epoch events = Some outcome \<and> reachable_outcome outcome \<and>
     (\<forall>e. outcome = Inl e \<longrightarrow> bound = Inl e \<or> Accept (Inl e) \<in> set events)"
proof -
  have errors: "accept_loop events s = Some (Inl e) \<Longrightarrow> Accept (Inl e) \<in> set events" for events s e
    by (induction events s rule: accept_loop.induct) (auto split: option.splits)
  show ?thesis
  proof (cases bound)
    case (Inr u)
    obtain outcome where "accept_loop events (0, shared_new (initial_seed since_epoch) registry_new) = Some outcome"
      "reachable_outcome outcome"
      using accept_loop_reachable [OF _ assms] node_run.start by (metis snd_conv)
    then show ?thesis using Inr errors by (auto simp: node_main_def)
  qed (simp add: node_main_def reachable_outcome_def)
qed

lemma node_process_never_panics_witness:
  "\<exists>outcome. node_main (Inr ()) None
     [Accept (Inr ()), Runs Task_Register, Runs Task_Tick, Runs (Task_Message 0 1 (Request (Get 2))), Accept (Inl ())] = Some outcome
     \<and> reachable_outcome outcome \<and> outcome = Inl ()"
proof -
  let ?events = "[Accept (Inr ()), Runs Task_Register, Runs Task_Tick, Runs (Task_Message 0 1 (Request (Get 2))), Accept (Inl ())]"
  have "list_all main_event_ok ?events" using wire_requests(2) by simp
  then obtain outcome where run: "node_main (Inr ()) None ?events = Some outcome" "reachable_outcome outcome"
    using node_process_never_panics [of ?events "Inr ()" None] by blast
  have "accept_loop (es @ [Accept (Inl e)]) s = Some out \<Longrightarrow> \<exists>e. out = Inl e" for es e s and out :: "unit + nat \<times> shared_state"
    by (induction es s rule: accept_loop.induct) (auto split: option.splits)
  from this [of "butlast ?events" "()"] run(1) have "outcome = Inl ()" by (auto simp: node_main_def)
  with run show ?thesis by simp
qed

end
