(* ===== verification/Transport.thy ===== *)
theory Transport
  imports Frames
begin

text \<open>
  Reading a frame from a byte stream (\<open>io/sync.rs\<close>, \<open>io/asynch.rs\<close>). The transport is a
  parameter, the \<open>read_exact\<close> of the \<open>ByteRead\<close> trait as an action on the reader's state.
  The locale \<open>byte_source\<close> states the contract of the trait: the reader delivers the bytes
  of a pending stream in order and fails when too few are left. Its facts are interpreted on
  the fragmenting \<open>SliceReader\<close> of the repository.
\<close>

section \<open>Operations\<close>

datatype 'e read_frame_error =
    Transport 'e
  | BufferTooSmall nat nat
  | Frame frame_error

datatype 'e async_read_frame_error =
    AsyncTransport 'e
  | AsyncBufferTooSmall nat nat
  | AsyncFrame frame_error

type_synonym ('r, 'e) reader = "nat \<Rightarrow> ('r, 'e, bytes) action"
type_synonym ('s, 'io) writer = "bytes \<Rightarrow> ('s, 'io, unit) action"

text \<open>
  \<open>buf_len\<close> is the length of the caller's payload buffer. \<open>get_mut(..required)\<close> is the
  second length check; it cannot fail after the first.
\<close>

definition read_frame ::
  "('r, 'e) reader \<Rightarrow> wire_direction \<Rightarrow> nat \<Rightarrow> ('r, 'e read_frame_error, frame_view) action" where
  "read_frame read_exact direction buf_len =
     act_bind (act_map_err Transport (read_exact 3)) (\<lambda>header.
       let oc = Opcode (header ! 0);
           len = from_be [header ! 1, header ! 2] :: u16;
           required = unat len
       in if buf_len < required then act_err (BufferTooSmall required buf_len)
       else act_bind (act_map_err Transport (read_exact required)) (\<lambda>payload.
         act_bind (act_map_err Transport (read_exact 1)) (\<lambda>checksum.
           let expected = compute_checksum oc payload in
           if checksum ! 0 \<noteq> expected then
             (let sum = as_u8 oc;
                  sum = sum + header ! 1;
                  sum = sum + header ! 2;
                  sum = foldl (+) sum payload;
                  sum = sum + checksum ! 0
              in act_err (Frame (ChecksumMismatch sum)))
           else act_bind (act_lift (res_map_err Frame (validate oc direction))) (\<lambda>_.
             act_ok (frame_view_new (frame_header_new oc len (checksum ! 0)) payload)))))"

text \<open>
  The asynchronous reader; each \<open>.await\<close> on \<open>read_exact\<close> is the action that the future
  performs when it completes.
\<close>

definition read_frame_async ::
  "('r, 'e) reader \<Rightarrow> wire_direction \<Rightarrow> nat \<Rightarrow> ('r, 'e async_read_frame_error, frame_view) action" where
  "read_frame_async read_exact direction buf_len =
     act_bind (act_map_err AsyncTransport (read_exact 3)) (\<lambda>header.
       let oc = Opcode (header ! 0);
           len = from_be [header ! 1, header ! 2] :: u16;
           required = unat len
       in if buf_len < required then act_err (AsyncBufferTooSmall required buf_len)
       else act_bind (act_map_err AsyncTransport (read_exact required)) (\<lambda>payload.
         act_bind (act_map_err AsyncTransport (read_exact 1)) (\<lambda>checksum.
           let expected = compute_checksum oc payload in
           if checksum ! 0 \<noteq> expected then
             (let sum = as_u8 oc;
                  sum = sum + header ! 1;
                  sum = sum + header ! 2;
                  sum = foldl (+) sum payload;
                  sum = sum + checksum ! 0
              in act_err (AsyncFrame (ChecksumMismatch sum)))
           else act_bind (act_lift (res_map_err AsyncFrame (validate oc direction))) (\<lambda>_.
             act_ok (frame_view_new (frame_header_new oc len (checksum ! 0)) payload)))))"

fun to_async :: "'e read_frame_error \<Rightarrow> 'e async_read_frame_error" where
  "to_async (Transport e) = AsyncTransport e"
| "to_async (BufferTooSmall required available) = AsyncBufferTooSmall required available"
| "to_async (Frame e) = AsyncFrame e"

section \<open>The contract of a byte source\<close>

text \<open>A stream either starts with a complete frame or has not received one yet.\<close>

lemma stream_frame_cases:
  obtains (short) "length bs < 3 \<or> length bs < 4 + unat (from_be (take 2 (drop 1 bs)) :: u16)"
  | (whole) o1 hi lo p k rest where "bs = o1 # hi # lo # p @ [k] @ rest"
      "length p = unat (from_be [hi, lo] :: u16)"
proof (cases "length bs < 3 \<or> length bs < 4 + unat (from_be (take 2 (drop 1 bs)) :: u16)")
  case True
  then show ?thesis by (rule short)
next
  case False
  then obtain o1 hi lo q where bs: "bs = [o1, hi, lo] @ q" and q: "1 + unat (from_be [hi, lo] :: u16) \<le> length q"
    by (auto simp: not_less Suc_le_length_iff eval_nat_numeral)
  let ?n = "unat (from_be [hi, lo] :: u16)"
  have "q = take ?n q @ [q ! ?n] @ drop (Suc ?n) q"
    using q id_take_nth_drop [of ?n q] by simp
  then show ?thesis using q bs by (intro whole [of o1 hi lo "take ?n q"]) auto
qed

lemma length_four_parts: "length (o1 # hi # lo # p @ [c]) = length p + 4"
  by simp

locale byte_source =
  fixes read_exact :: "('r, 'e) reader"
    and pending :: "'r \<Rightarrow> bytes"
    and valid :: "'r \<Rightarrow> bool"
  assumes read_enough: "valid r \<Longrightarrow> n \<le> length (pending r) \<Longrightarrow>
      \<exists>r'. read_exact n r = (Inr (take n (pending r)), r') \<and> pending r' = drop n (pending r) \<and> valid r'"
    and read_short: "valid r \<Longrightarrow> length (pending r) < n \<Longrightarrow> \<exists>e r'. read_exact n r = (Inl e, r') \<and> valid r'"
begin

lemma read_append:
  assumes "valid r" and "pending r = xs @ ys"
  shows "\<exists>r'. read_exact (length xs) r = (Inr xs, r') \<and> pending r' = ys \<and> valid r'"
  using read_enough [of r "length xs"] assms by simp

text \<open>With a whole frame pending, the reader agrees with the slice parser on that frame.\<close>

lemma read_frame_whole:
  assumes "valid r" and pend: "pending r = o1 # hi # lo # p @ [c] @ rest"
    and len: "length p = unat (from_be [hi, lo] :: u16)" and buf: "length p \<le> buf_len"
  shows "\<exists>r'. read_frame read_exact dir buf_len r =
      (res_map_err Frame (parse_frame dir (o1 # hi # lo # p @ [c])), r') \<and> pending r' = rest \<and> valid r'"
proof -
  obtain r1 where r1: "read_exact 3 r = (Inr [o1, hi, lo], r1)" "pending r1 = p @ [c] @ rest" "valid r1"
    using read_append [of r "[o1, hi, lo]" "p @ [c] @ rest"] assms by (auto simp: eval_nat_numeral)
  obtain r2 where r2: "read_exact (length p) r1 = (Inr p, r2)" "pending r2 = [c] @ rest" "valid r2"
    using read_append [OF r1(3,2)] by auto
  obtain r3 where r3: "read_exact 1 r2 = (Inr [c], r3)" "pending r3 = rest" "valid r3"
    using read_append [OF r2(3,2)] by auto
  have hl: "to_be 2 (word_of_nat (length p) :: u16) = [hi, lo]" using len be_2_length by metis
  have sum: "frame_sum (o1 # hi # lo # p @ [c]) = 0 \<longleftrightarrow> c = compute_checksum (Opcode o1) p"
    using checksum_unique [of "Opcode o1" p c] by (simp add: hl algebra_simps)
  have "read_frame read_exact dir buf_len r =
      (res_map_err Frame (parse_frame dir (o1 # hi # lo # p @ [c])), r3)"
    using r1 r2 r3 len buf sum
    by (cases "c = compute_checksum (Opcode o1) p"; cases "validate (Opcode o1) dir")
      (simp_all add: read_frame_def act_bind_def act_map_err_def Let_def parse_frame_parts
        foldl_add_word add.assoc)
  with r3 show ?thesis by blast
qed

text \<open>With less than a frame pending, the result is a transport error or the buffer check.\<close>

lemma read_frame_short:
  assumes "valid r"
    and short: "length (pending r) < 3 \<or> length (pending r) < 4 + unat (from_be (take 2 (drop 1 (pending r))) :: u16)"
  shows "\<exists>e r'. read_frame read_exact dir buf_len r = (Inl e, r') \<and>
      ((\<exists>t. e = Transport t) \<or> (\<exists>n. e = BufferTooSmall n buf_len \<and> buf_len < n))"
proof (cases "length (pending r) < 3")
  case True
  then obtain t r' where "read_exact 3 r = (Inl t, r')" using read_short [OF assms(1)] by blast
  then show ?thesis by (simp add: read_frame_def act_bind_def act_map_err_def)
next
  case False
  then obtain o1 hi lo q where pend: "pending r = [o1, hi, lo] @ q"
    by (auto simp: not_less Suc_le_length_iff eval_nat_numeral)
  let ?n = "unat (from_be [hi, lo] :: u16)"
  from short False pend have q: "length q < 1 + ?n" by simp
  obtain r1 where r1: "read_exact 3 r = (Inr [o1, hi, lo], r1)" "pending r1 = q" "valid r1"
    using read_append [OF assms(1) pend] by (auto simp: eval_nat_numeral)
  consider "buf_len < ?n" | "\<not> buf_len < ?n" "length q < ?n" | "\<not> buf_len < ?n" "length q = ?n"
    using q by linarith
  then show ?thesis
  proof cases
    case 1
    with r1 show ?thesis by (simp add: read_frame_def act_bind_def act_map_err_def Let_def)
  next
    case 2
    with r1 obtain t r2 where "read_exact ?n r1 = (Inl t, r2)" using read_short [of r1 ?n] by auto
    with r1 2 show ?thesis by (simp add: read_frame_def act_bind_def act_map_err_def Let_def)
  next
    case 3
    then obtain r2 where r2: "read_exact ?n r1 = (Inr q, r2)" "pending r2 = []" "valid r2"
      using read_enough [of r1 ?n] r1 by auto
    obtain t r3 where "read_exact 1 r2 = (Inl t, r3)" using read_short [of r2 1] r2 by auto
    with r1 r2 3 show ?thesis by (simp add: read_frame_def act_bind_def act_map_err_def Let_def)
  qed
qed

text \<open>A successful read took exactly one frame of the protocol off the stream.\<close>

lemma read_frame_Inr:
  assumes "valid r" and ok: "read_frame read_exact dir buf_len r = (Inr f, r')"
  shows "\<exists>oc p. oc \<in> set (opcodes_of dir) \<and> length p \<le> 65535 \<and> length p \<le> buf_len \<and> f = view_of oc p
      \<and> pending r = frame_bytes oc p @ pending r' \<and> valid r'"
proof -
  have "\<not> (length (pending r) < 3 \<or> length (pending r) < 4 + unat (from_be (take 2 (drop 1 (pending r))) :: u16))"
    using read_frame_short [OF assms(1), of dir buf_len] ok by auto
  then obtain o1 hi lo q where pend: "pending r = [o1, hi, lo] @ q" and q: "1 + unat (from_be [hi, lo] :: u16) \<le> length q"
    by (auto simp: not_less Suc_le_length_iff eval_nat_numeral)
  let ?n = "unat (from_be [hi, lo] :: u16)"
  define p c rest where "p = take ?n q" and "c = q ! ?n" and "rest = drop (Suc ?n) q"
  have p: "length p = ?n" using q by (simp add: p_def)
  have "q = p @ [c] @ rest"
    using q id_take_nth_drop [of ?n q] by (simp add: p_def c_def rest_def)
  then have pend: "pending r = o1 # hi # lo # p @ [c] @ rest" using pend by simp
  have buf: "length p \<le> buf_len"
  proof (rule ccontr)
    assume "\<not> length p \<le> buf_len"
    moreover obtain r1 where "read_exact 3 r = (Inr [o1, hi, lo], r1)"
      using read_append [of r "[o1, hi, lo]"] assms(1) pend by (auto simp: eval_nat_numeral)
    ultimately show False using ok p by (simp add: read_frame_def act_bind_def act_map_err_def Let_def)
  qed
  from read_frame_whole [OF assms(1) pend p buf, of dir] ok
  have "parse_frame dir (o1 # hi # lo # p @ [c]) = Inr f" and r': "pending r' = rest" "valid r'"
    by (auto simp: res_map_err_def split: sum.splits)
  then obtain oc p' where "oc \<in> set (opcodes_of dir)" "length p' \<le> 65535"
    "o1 # hi # lo # p @ [c] = frame_bytes oc p'" "f = view_of oc p'"
    by (auto simp: parse_frame_layout)
  moreover from this have "length p' = length p"
    using length_frame_bytes [of oc p'] by (metis (no_types) length_frame_bytes add_right_cancel
        length_four_parts)
  ultimately show ?thesis
    using pend r' buf by (intro exI [of _ oc] exI [of _ p']) (simp flip: append_Cons)
qed

lemma read_frame_frame_bytes:
  assumes "valid r" and "pending r = frame_bytes oc p @ rest"
    and "oc \<in> set (opcodes_of dir)" and "length p \<le> 65535" and "length p \<le> buf_len"
  shows "\<exists>r'. read_frame read_exact dir buf_len r = (Inr (view_of oc p), r') \<and> pending r' = rest \<and> valid r'"
proof -
  obtain hi lo where hl: "to_be 2 (word_of_nat (length p) :: u16) = [hi, lo]" by (simp add: to_be_2_eq)
  then have "length p = unat (from_be [hi, lo] :: u16)" using assms(4) be_2_length by metis
  moreover have parts: "frame_bytes oc p = as_u8 oc # hi # lo # p @ [compute_checksum oc p]"
    by (simp add: frame_bytes_def hl)
  moreover have "parse_frame dir (frame_bytes oc p) = Inr (view_of oc p)"
    using assms by (auto simp: parse_frame_layout)
  ultimately show ?thesis
    using read_frame_whole [of r "as_u8 oc" hi lo p "compute_checksum oc p" rest buf_len dir] assms by auto
qed

end

section \<open>The fragmenting reader of the repository\<close>

text \<open>
  \<open>SliceReader\<close> delivers at most \<open>max_chunk\<close> bytes in each round of its loop. With
  \<open>max_chunk = 0\<close> the loop does not end: \<open>slice_fill\<close> is then \<open>None\<close>, which the reader action
  reports as the error \<open>None\<close>.
\<close>

datatype test_error = UnexpectedEof

record slice_reader =
  slice_bytes :: bytes
  slice_cursor :: nat
  slice_max_chunk :: nat

partial_function (option) slice_fill ::
  "slice_reader \<Rightarrow> nat \<Rightarrow> bytes \<Rightarrow> ((test_error + bytes) \<times> slice_reader) option" where
  "slice_fill sr len buf =
     (if length buf < len then
        (if length (slice_bytes sr) \<le> slice_cursor sr then Some (Inl UnexpectedEof, sr)
         else let available = length (slice_bytes sr) - slice_cursor sr;
                  to_copy = min (min available (slice_max_chunk sr)) (len - length buf)
              in slice_fill (sr\<lparr>slice_cursor := slice_cursor sr + to_copy\<rparr>) len
                   (buf @ take to_copy (drop (slice_cursor sr) (slice_bytes sr))))
      else Some (Inr buf, sr))"

definition slice_read_exact :: "(slice_reader, test_error option) reader" where
  "slice_read_exact n sr =
     (case slice_fill sr n [] of
        None \<Rightarrow> (Inl None, sr)
      | Some (r, sr') \<Rightarrow> (res_map_err Some r, sr'))"

definition slice_pending :: "slice_reader \<Rightarrow> bytes" where
  "slice_pending sr = drop (slice_cursor sr) (slice_bytes sr)"

definition slice_valid :: "slice_reader \<Rightarrow> bool" where
  "slice_valid sr \<longleftrightarrow> 0 < slice_max_chunk sr"

lemma slice_fill_correct:
  assumes "slice_valid sr"
  shows "\<exists>res sr'. slice_fill sr len buf = Some (res, sr') \<and> slice_valid sr' \<and>
     (if len - length buf \<le> length (slice_pending sr)
      then res = Inr (buf @ take (len - length buf) (slice_pending sr)) \<and>
           slice_pending sr' = drop (len - length buf) (slice_pending sr)
      else res = Inl UnexpectedEof)"
  using assms
proof (induction "len - length buf" arbitrary: sr buf rule: less_induct)
  case less
  let ?avail = "length (slice_bytes sr) - slice_cursor sr"
  let ?n = "min (min ?avail (slice_max_chunk sr)) (len - length buf)"
  consider "len \<le> length buf" | "length buf < len" "?avail = 0" | "length buf < len" "0 < ?avail"
    by linarith
  then show ?case
  proof cases
    case 3
    define n where "n = ?n"
    then have n: "0 < n" "n \<le> length (slice_pending sr)" "n \<le> len - length buf"
      using 3 less.prems by (auto simp: slice_valid_def slice_pending_def)
    let ?sr = "sr\<lparr>slice_cursor := slice_cursor sr + n\<rparr>"
    let ?buf = "buf @ take n (slice_pending sr)"
    have step: "slice_fill sr len buf = slice_fill ?sr len ?buf"
      using 3 by (subst slice_fill.simps) (simp add: Let_def slice_pending_def n_def)
    have valid: "slice_valid ?sr" using less.prems by (simp add: slice_valid_def)
    have pend: "slice_pending ?sr = drop n (slice_pending sr)"
      by (simp add: slice_pending_def add.commute)
    have len: "len - length ?buf = len - length buf - n" using n by simp
    have "len - length ?buf < len - length buf" using n by simp
    from less.hyps [OF this valid] obtain res sr' where fill: "slice_fill sr len buf = Some (res, sr')"
      "slice_valid sr'" and res: "if len - length ?buf \<le> length (slice_pending ?sr)
      then res = Inr (?buf @ take (len - length ?buf) (slice_pending ?sr)) \<and>
           slice_pending sr' = drop (len - length ?buf) (slice_pending ?sr)
      else res = Inl UnexpectedEof"
      unfolding step by blast
    have split: "take (len - length buf) (slice_pending sr) =
        take n (slice_pending sr) @ take (len - length buf - n) (drop n (slice_pending sr))"
      using n take_add [of n "len - length buf - n" "slice_pending sr"] by simp
    show ?thesis
      using fill res n by (simp add: len pend split le_diff_conv split: if_splits)
  qed (use less.prems in \<open>simp_all add: slice_fill.simps [of sr] slice_pending_def\<close>)
qed

interpretation slice: byte_source slice_read_exact slice_pending slice_valid
proof
  fix sr n assume "slice_valid sr" "n \<le> length (slice_pending sr)"
  then show "\<exists>r'. slice_read_exact n sr = (Inr (take n (slice_pending sr)), r') \<and>
      slice_pending r' = drop n (slice_pending sr) \<and> slice_valid r'"
    using slice_fill_correct [of sr n "[]"] by (auto simp: slice_read_exact_def)
next
  fix sr n assume "slice_valid sr" "length (slice_pending sr) < n"
  then show "\<exists>e r'. slice_read_exact n sr = (Inl e, r') \<and> slice_valid r'"
    using slice_fill_correct [of sr n "[]"] by (auto simp: slice_read_exact_def)
qed

text \<open>A byte list as a transport: all its bytes have arrived.\<close>

definition list_read :: "(bytes, unit) reader" where
  "list_read n bs = (if n \<le> length bs then (Inr (take n bs), drop n bs) else (Inl (), bs))"

interpretation list_source: byte_source list_read "\<lambda>bs. bs" "\<lambda>_. True"
  by unfold_locales (auto simp: list_read_def)

section \<open>Properties\<close>

text \<open>
  C25: over any transport that keeps the contract of \<open>ByteRead\<close>, reading a frame succeeds
  exactly when a valid frame of that direction whose payload fits the caller's buffer is next
  on the stream; it returns the view of that frame and leaves the stream right behind it,
  however the transport fragments the bytes.
\<close>

theorem read_frame_iff:
  assumes "byte_source read_exact pending valid" and "valid r"
  shows "(\<exists>r'. read_frame read_exact dir buf_len r = (Inr f, r') \<and> pending r' = rest) \<longleftrightarrow>
     (\<exists>oc p. oc \<in> set (opcodes_of dir) \<and> length p \<le> 65535 \<and> length p \<le> buf_len \<and>
        f = view_of oc p \<and> pending r = frame_bytes oc p @ rest)"
  using byte_source.read_frame_Inr [OF assms] byte_source.read_frame_frame_bytes [OF assms] by blast

lemma slice_valid_one: "slice_valid \<lparr>slice_bytes = bs, slice_cursor = 0, slice_max_chunk = 1\<rparr>"
  by (simp add: slice_valid_def)

lemma read_frame_iff_witness:
  "\<exists>r'. read_frame slice_read_exact ClientToNode 8
      \<lparr>slice_bytes = frame_bytes GETKEY [0, 1] @ [0x3F], slice_cursor = 0, slice_max_chunk = 1\<rparr>
      = (Inr (view_of GETKEY [0, 1]), r') \<and> slice_pending r' = [0x3F]"
  unfolding read_frame_iff [OF slice.byte_source_axioms, OF slice_valid_one]
  by (intro exI [of _ GETKEY] exI [of _ "[0, 1]"])
    (simp add: slice_pending_def opcodes_of_def client_opcodes_def)

text \<open>
  The asynchronous frame reader is the synchronous one: on every transport, stream,
  direction and buffer length it performs the same reads and returns the same view or the
  corresponding error.
\<close>

lemma read_frame_async_eq:
  "read_frame_async read_exact dir buf_len r =
     (case read_frame read_exact dir buf_len r of (res, r') \<Rightarrow> (res_map_err to_async res, r'))"
  by (auto simp: read_frame_async_def read_frame_def act_bind_def act_map_err_def Let_def
      res_map_err_def act_lift_def act_ok_def act_err_def split: prod.splits sum.splits)

end
