(* ===== verification/Embassy_Value.thy ===== *)
theory Embassy_Value
  imports Transport
begin

text \<open>
  The value types of \<open>qup-embassy\<close> (\<open>qup-embassy/src/lib.rs\<close>): permissions, decoded request
  values, the trait \<open>QupValue\<close> and its implementations for \<open>bool\<close>, \<open>i64\<close>,
  \<open>heapless::String<N>\<close> and the unit enums of \<open>derive(Value)\<close>, the writes into the caller's
  buffer included. The contract of the trait is the locale \<open>qup_value\<close>, interpreted on every
  implementation.
\<close>

section \<open>Permissions and request values\<close>

datatype perm = PermNone | PermR | PermW | PermRW | PermN | PermRN | PermWN | PermRWN

definition flags_bits :: "perm \<Rightarrow> u8" where
  "flags_bits p =
     (case p of
        PermNone \<Rightarrow> 0
      | PermR \<Rightarrow> READABLE
      | PermW \<Rightarrow> WRITABLE
      | PermRW \<Rightarrow> READABLE OR WRITABLE
      | PermN \<Rightarrow> OBSERVABLE
      | PermRN \<Rightarrow> READABLE OR OBSERVABLE
      | PermWN \<Rightarrow> WRITABLE OR OBSERVABLE
      | PermRWN \<Rightarrow> READABLE OR WRITABLE OR OBSERVABLE)"

definition perm_readable :: "perm \<Rightarrow> bool" where
  "perm_readable p \<longleftrightarrow> flags_bits p AND READABLE \<noteq> 0"

definition perm_writable :: "perm \<Rightarrow> bool" where
  "perm_writable p \<longleftrightarrow> flags_bits p AND WRITABLE \<noteq> 0"

definition perm_observable :: "perm \<Rightarrow> bool" where
  "perm_observable p \<longleftrightarrow> flags_bits p AND OBSERVABLE \<noteq> 0"

datatype wire_value_ref = WireBool bool | WireI64 i64 | WireStr rstr | OversizedStr

datatype wire_value_error = TypeMismatch | ValueTooLarge | ValueContainsNul

definition wire_value_error_display :: "wire_value_error \<Rightarrow> string" where
  "wire_value_error_display e =
     (case e of
        TypeMismatch \<Rightarrow> ''type mismatch''
      | ValueTooLarge \<Rightarrow> ''value exceeds wire representation''
      | ValueContainsNul \<Rightarrow> ''string contains NUL byte'')"

section \<open>Writing into a buffer\<close>

text \<open>
  \<open>write_exact(dst, src)\<close> copies \<open>src\<close> to the front of \<open>dst\<close>; \<open>None\<close> is the panic of the slice
  index. \<open>write_slice a b src\<close> is the call with \<open>dst = &mut buffer[a..b]\<close> and \<open>set_byte i b\<close>
  is \<open>buffer[i] = b\<close>.
\<close>

definition write_exact :: "bytes \<Rightarrow> bytes \<Rightarrow> bytes option" where
  "write_exact dst src =
     (if length src \<le> length dst then Some (src @ drop (length src) dst) else None)"

definition write_slice :: "nat \<Rightarrow> nat \<Rightarrow> bytes \<Rightarrow> (bytes, 'e fault, unit) action" where
  "write_slice a b src buffer =
     (if a \<le> b \<and> b \<le> length buffer then
        (case write_exact (take (b - a) (drop a buffer)) src of
           Some dst \<Rightarrow> (Inr (), take a buffer @ dst @ drop b buffer)
         | None \<Rightarrow> (Inl Panic, buffer))
      else (Inl Panic, buffer))"

definition write_front :: "bytes \<Rightarrow> (bytes, 'e fault, unit) action" where
  "write_front src buffer =
     (case write_exact buffer src of
        Some dst \<Rightarrow> (Inr (), dst)
      | None \<Rightarrow> (Inl Panic, buffer))"

definition write_from :: "nat \<Rightarrow> bytes \<Rightarrow> (bytes, 'e fault, unit) action" where
  "write_from a src buffer = write_slice a (length buffer) src buffer"

definition set_byte :: "nat \<Rightarrow> u8 \<Rightarrow> (bytes, 'e fault, unit) action" where
  "set_byte i b buffer =
     (if i < length buffer then (Inr (), buffer[i := b]) else (Inl Panic, buffer))"

section \<open>The implementations of \<open>QupValue\<close>\<close>

definition bool_DEFAULT :: bool where "bool_DEFAULT = False"
definition bool_MAX_WIRE_LEN :: nat where "bool_MAX_WIRE_LEN = 2"

definition bool_encode :: "bool \<Rightarrow> (bytes, wire_value_error fault, nat) action" where
  "bool_encode v =
     act_bind (write_front [kind_as_byte Bool_Kind, if v then 1 else 0]) (\<lambda>_. act_ok 2)"

definition bool_decode :: "wire_value_ref \<Rightarrow> wire_value_error + bool" where
  "bool_decode w =
     (case w of
        WireBool v \<Rightarrow> Inr v
      | WireI64 _ \<Rightarrow> Inl TypeMismatch
      | WireStr _ \<Rightarrow> Inl TypeMismatch
      | OversizedStr \<Rightarrow> Inl TypeMismatch)"

definition i64_DEFAULT :: i64 where "i64_DEFAULT = 0"
definition i64_MAX_WIRE_LEN :: nat where "i64_MAX_WIRE_LEN = 9"

definition i64_encode :: "i64 \<Rightarrow> (bytes, wire_value_error fault, nat) action" where
  "i64_encode v =
     act_bind (set_byte 0 (kind_as_byte I64_Kind)) (\<lambda>_.
     act_bind (write_from 1 (to_be 8 v)) (\<lambda>_. act_ok 9))"

definition i64_decode :: "wire_value_ref \<Rightarrow> wire_value_error + i64" where
  "i64_decode w =
     (case w of
        WireI64 v \<Rightarrow> Inr v
      | WireBool _ \<Rightarrow> Inl TypeMismatch
      | WireStr _ \<Rightarrow> Inl TypeMismatch
      | OversizedStr \<Rightarrow> Inl TypeMismatch)"

text \<open>The default of the trait: no inline string.\<close>

definition default_MAX_STR_LEN :: nat where "default_MAX_STR_LEN = 0"

definition default_validate :: "'v \<Rightarrow> wire_value_error + unit" where
  "default_validate v = Inr ()"

text \<open>
  \<open>heapless::String<N>\<close> is its bytes. \<open>push_str n s t\<close> stands for \<open>String::<n>::push_str\<close> of
  the \<open>heapless\<close> crate on a string \<open>s\<close>; \<open>None\<close> is its capacity error.
\<close>

definition string_DEFAULT :: rstr where "string_DEFAULT = []"
definition string_MAX_WIRE_LEN :: "nat \<Rightarrow> nat" where "string_MAX_WIRE_LEN n = 3 + n"
definition string_MAX_STR_LEN :: "nat \<Rightarrow> nat" where "string_MAX_STR_LEN n = n"

definition string_validate :: "rstr \<Rightarrow> wire_value_error + unit" where
  "string_validate v =
     (if 0 \<in> set v then Inl ValueContainsNul
      else if 65535 < length v then Inl ValueTooLarge
      else Inr ())"

definition string_encode :: "rstr \<Rightarrow> (bytes, wire_value_error fault, nat) action" where
  "string_encode v =
     act_bind (act_lift (res_map_err Fail (string_validate v))) (\<lambda>_.
     act_bind (set_byte 0 (kind_as_byte Str_Kind)) (\<lambda>_.
       case u16_try_from (length v) of
         None \<Rightarrow> act_err (Fail ValueTooLarge)
       | Some len \<Rightarrow>
           act_bind (write_slice 1 3 (to_be 2 len)) (\<lambda>_.
           act_bind (write_slice 3 (3 + length v) v) (\<lambda>_. act_ok (3 + length v)))))"

type_synonym push_str_fn = "nat \<Rightarrow> rstr \<Rightarrow> rstr \<Rightarrow> rstr option"

definition string_decode :: "push_str_fn \<Rightarrow> nat \<Rightarrow> wire_value_ref \<Rightarrow> wire_value_error + rstr" where
  "string_decode push_str n w =
     (case w of
        WireStr v \<Rightarrow>
          (case push_str n [] v of
             Some decoded \<Rightarrow> Inr decoded
           | None \<Rightarrow> Inl TypeMismatch)
      | OversizedStr \<Rightarrow> Inl TypeMismatch
      | WireBool _ \<Rightarrow> Inl TypeMismatch
      | WireI64 _ \<Rightarrow> Inl TypeMismatch)"

text \<open>\<open>__private::encode_str_value\<close>, which the derived implementations call.\<close>

definition encode_str_value :: "rstr \<Rightarrow> (bytes, wire_value_error fault, nat) action" where
  "encode_str_value v =
     (if 0 \<in> set v then act_err (Fail ValueContainsNul)
      else case u16_try_from (length v) of
         None \<Rightarrow> act_err (Fail ValueTooLarge)
       | Some len \<Rightarrow>
           act_bind (set_byte 0 (kind_as_byte Str_Kind)) (\<lambda>_.
           act_bind (write_slice 1 3 (to_be 2 len)) (\<lambda>_.
           act_bind (write_slice 3 (3 + length v) v) (\<lambda>_. act_ok (3 + length v)))))"

text \<open>
  The implementation that \<open>derive(Value)\<close> writes for a unit enum: a value is the index of its
  variant, \<open>names\<close> are the wire names in the order of the variants.
\<close>

fun position :: "('a \<Rightarrow> bool) \<Rightarrow> 'a list \<Rightarrow> nat option" where
  "position P [] = None"
| "position P (x # xs) = (if P x then Some 0 else map_option Suc (position P xs))"

definition enum_MAX_STR_LEN :: "rstr list \<Rightarrow> nat" where
  "enum_MAX_STR_LEN names = fold max (map length names) 0"

definition enum_MAX_WIRE_LEN :: "rstr list \<Rightarrow> nat" where
  "enum_MAX_WIRE_LEN names = 3 + enum_MAX_STR_LEN names"

definition enum_encode :: "rstr list \<Rightarrow> nat \<Rightarrow> (bytes, wire_value_error fault, nat) action" where
  "enum_encode names i =
     (case list_get names i of
        Some wire_name \<Rightarrow> encode_str_value wire_name
      | None \<Rightarrow> act_err Panic)"

definition enum_decode :: "rstr list \<Rightarrow> wire_value_ref \<Rightarrow> wire_value_error + nat" where
  "enum_decode names w =
     (case w of
        WireStr v \<Rightarrow>
          (case position (\<lambda>wire_name. wire_name = v) names of
             Some i \<Rightarrow> Inr i
           | None \<Rightarrow> Inl TypeMismatch)
      | WireBool _ \<Rightarrow> Inl TypeMismatch
      | WireI64 _ \<Rightarrow> Inl TypeMismatch
      | OversizedStr \<Rightarrow> Inl TypeMismatch)"

section \<open>Lemmas on buffers and positions\<close>

lemma position_Some: "position P xs = Some i \<longleftrightarrow> i < length xs \<and> P (xs ! i) \<and> (\<forall>j < i. \<not> P (xs ! j))"
  by (induction xs arbitrary: i)
    (auto simp: nth_Cons less_Suc_eq_0_disj split: nat.splits)

lemma position_None: "position P xs = None \<longleftrightarrow> (\<forall>x \<in> set xs. \<not> P x)"
  by (induction xs) auto

lemma position_nth: "distinct xs \<Longrightarrow> i < length xs \<Longrightarrow> position (\<lambda>x. x = xs ! i) xs = Some i"
  by (auto simp: position_Some nth_eq_iff_index_eq)

lemma fold_max_ge: "x \<in> set xs \<Longrightarrow> x \<le> fold max xs (m :: nat)"
  and fold_max_start: "m \<le> fold max xs (m :: nat)"
proof (induction xs arbitrary: m)
  case (Cons y ys)
  { case 1 then show ?case using Cons.IH(1) Cons.IH(2) [of "max y m"] by auto }
  { case 2 show ?case using Cons.IH(2) [of "max y m"] by simp }
qed simp_all

lemma name_length: "i < length names \<Longrightarrow> length (names ! i) \<le> enum_MAX_STR_LEN names"
  unfolding enum_MAX_STR_LEN_def by (rule fold_max_ge) simp

lemma write_front_fits:
  "length src \<le> length buffer \<Longrightarrow> write_front src buffer = (Inr (), src @ drop (length src) buffer)"
  by (simp add: write_front_def write_exact_def)

lemma set_byte_fits: "buffer \<noteq> [] \<Longrightarrow> set_byte 0 b buffer = (Inr (), b # drop 1 buffer)"
  by (cases buffer) (simp_all add: set_byte_def)

lemma write_slice_fits:
  assumes "length p = a" and "b = a + length src" and "length src \<le> length rest"
  shows "write_slice a b src (p @ rest) = (Inr (), p @ src @ drop (length src) rest)"
  using assms by (simp add: write_slice_def write_exact_def)

lemma write_value_string:
  assumes "3 + length v \<le> length buffer" and "length v \<le> 65535"
  shows "act_bind (set_byte 0 b) (\<lambda>_. act_bind (write_slice 1 3 (to_be 2 (word_of_nat (length v) :: u16))) (\<lambda>_.
      act_bind (write_slice 3 (3 + length v) v) (\<lambda>_. act_ok (3 + length v)))) buffer =
    (Inr (3 + length v) :: 'e fault + nat, (b # encode_str16 v) @ drop (3 + length v) buffer)"
proof -
  let ?n = "to_be 2 (word_of_nat (length v) :: u16)"
  let ?rest = "drop 3 buffer"
  have "buffer \<noteq> []" using assms by auto
  then have one: "set_byte 0 b buffer = (Inr () :: 'e fault + unit, b # drop 1 buffer)" by (rule set_byte_fits)
  have two: "write_slice 1 3 ?n ([b] @ drop 1 buffer) = (Inr () :: 'e fault + unit, [b] @ ?n @ drop (length ?n) (drop 1 buffer))"
    using assms by (intro write_slice_fits) auto
  have three: "write_slice 3 (3 + length v) v ((b # ?n) @ ?rest) = (Inr () :: 'e fault + unit, (b # ?n) @ v @ drop (length v) ?rest)"
    using assms by (intro write_slice_fits) auto
  have "drop (length ?n) (drop 1 buffer) = ?rest" by (simp add: numeral_eq_Suc)
  with one two three show ?thesis
    by (simp add: act_bind_def encode_str16_def add.commute)
qed

section \<open>The contract of \<open>QupValue\<close>\<close>

text \<open>
  \<open>impl_ok\<close> is the condition under which the implementation exists (what the derive macro
  checked), \<open>inhabits\<close> tells which model values are values of the Rust type, \<open>repr\<close> is the
  wire value a key value stands for.
\<close>

fun as_wire :: "value_ref \<Rightarrow> wire_value_ref" where
  "as_wire (Bool b) = WireBool b"
| "as_wire (I64 i) = WireI64 i"
| "as_wire (Str s) = WireStr s"

lemma as_wire_inj: "as_wire v = as_wire w \<longleftrightarrow> v = w"
  by (cases v; cases w) auto

lemma as_wire_not_oversized [simp]: "as_wire v \<noteq> OversizedStr" "OversizedStr \<noteq> as_wire v"
  by (cases v; simp)+

fun wf_wire :: "wire_value_ref \<Rightarrow> bool" where
  "wf_wire (WireStr s) = wf_str s"
| "wf_wire _ = True"

fun str_len :: "value_ref \<Rightarrow> nat" where
  "str_len (Str s) = length s"
| "str_len _ = 0"

locale qup_value =
  fixes impl_ok :: bool
    and max_wire_len :: nat
    and max_str_len :: nat
    and validate :: "'v \<Rightarrow> wire_value_error + unit"
    and encode :: "'v \<Rightarrow> (bytes, wire_value_error fault, nat) action"
    and decode :: "wire_value_ref \<Rightarrow> wire_value_error + 'v"
    and repr :: "'v \<Rightarrow> value_ref"
    and inhabits :: "'v \<Rightarrow> bool"
  assumes validate_wf: "impl_ok \<Longrightarrow> inhabits v \<Longrightarrow> validate v = Inr () \<longleftrightarrow> wf_value (repr v)"
    and encode_valid: "impl_ok \<Longrightarrow> inhabits v \<Longrightarrow> wf_value (repr v) \<Longrightarrow> max_wire_len \<le> length buffer \<Longrightarrow>
      encode v buffer = (Inr (length (encode_value (repr v))),
        encode_value (repr v) @ drop (length (encode_value (repr v))) buffer)"
    and encode_invalid: "impl_ok \<Longrightarrow> inhabits v \<Longrightarrow> \<not> wf_value (repr v) \<Longrightarrow> \<exists>e. encode v buffer = (Inl (Fail e), buffer)"
    and repr_fits: "impl_ok \<Longrightarrow> inhabits v \<Longrightarrow> length (encode_value (repr v)) \<le> max_wire_len \<and> str_len (repr v) \<le> max_str_len"
    and decode_sound: "impl_ok \<Longrightarrow> wf_wire w \<Longrightarrow> decode w = Inr v \<Longrightarrow> inhabits v \<and> w = as_wire (repr v)"
    and decode_complete: "impl_ok \<Longrightarrow> inhabits v \<Longrightarrow> wf_value (repr v) \<Longrightarrow> decode (as_wire (repr v)) = Inr v"
begin

text \<open>What a buffer of the advertised size receives decodes back to the value.\<close>

lemma encode_in_buffer:
  assumes "impl_ok" and "inhabits v" and "wf_value (repr v)" and "max_wire_len \<le> length buffer"
  obtains buffer' where "encode v buffer = (Inr (length (encode_value (repr v))), buffer')"
    and "take (length (encode_value (repr v))) buffer' = encode_value (repr v)"
    and "length buffer' = length buffer"
  using encode_valid [OF assms] repr_fits [OF assms(1,2)] assms(4)
  by (intro that [of "encode_value (repr v) @ drop (length (encode_value (repr v))) buffer"]) auto

lemma decode_oversized: "impl_ok \<Longrightarrow> \<exists>e. decode OversizedStr = Inl e"
  using decode_sound [of OversizedStr] by (cases "decode OversizedStr") auto

lemma decode_valid: "impl_ok \<Longrightarrow> wf_wire w \<Longrightarrow> decode w = Inr v \<Longrightarrow> wf_value (repr v)"
  using decode_sound [of w v] by (cases "repr v") auto

lemma decode_iff:
  assumes "impl_ok" and "wf_wire w"
  shows "decode w = Inr v \<longleftrightarrow> inhabits v \<and> wf_value (repr v) \<and> w = as_wire (repr v)"
  using assms decode_sound decode_complete decode_valid by blast

lemma decode_cases:
  assumes "impl_ok" and "wf_wire w"
  obtains v where "decode w = Inr v" "inhabits v" "wf_value (repr v)" "validate v = Inr ()" "w = as_wire (repr v)"
    | e where "decode w = Inl e"
proof (cases "decode w")
  case (Inr v)
  then show ?thesis using that(1) [of v] decode_iff [OF assms, of v] validate_wf [OF assms(1), of v] by blast
qed (use that(2) in blast)

end


section \<open>Interpretations\<close>

interpretation bool_value: qup_value True bool_MAX_WIRE_LEN default_MAX_STR_LEN default_validate
  bool_encode bool_decode Bool "\<lambda>_. True"
  by unfold_locales (auto simp: default_validate_def bool_encode_def bool_MAX_WIRE_LEN_def
      default_MAX_STR_LEN_def bool_decode_def kind_as_byte_def act_bind_Inr write_front_fits
      split: wire_value_ref.splits)

interpretation i64_value: qup_value True i64_MAX_WIRE_LEN default_MAX_STR_LEN default_validate
  i64_encode i64_decode I64 "\<lambda>_. True"
proof
  fix v :: i64 and buffer :: bytes
  assume len: "i64_MAX_WIRE_LEN \<le> length buffer"
  then have one: "set_byte 0 (kind_as_byte I64_Kind) buffer =
      (Inr () :: wire_value_error fault + unit, [I64_TAG] @ drop 1 buffer)"
    by (subst set_byte_fits) (auto simp: i64_MAX_WIRE_LEN_def kind_as_byte_def)
  have "write_slice 1 (length buffer) (to_be 8 v) ([I64_TAG] @ drop 1 buffer) =
      (Inr () :: wire_value_error fault + unit, [I64_TAG] @ to_be 8 v @ drop 8 (drop 1 buffer))"
    using len by (simp add: write_slice_def write_exact_def i64_MAX_WIRE_LEN_def)
  moreover have "Suc (length buffer - Suc 0) = length buffer"
    using len by (simp add: i64_MAX_WIRE_LEN_def)
  ultimately show "i64_encode v buffer = (Inr (length (encode_value (I64 v))),
      encode_value (I64 v) @ drop (length (encode_value (I64 v))) buffer)"
    using len one
    by (simp add: i64_encode_def act_bind_def write_from_def i64_MAX_WIRE_LEN_def)
qed (auto simp: default_validate_def i64_MAX_WIRE_LEN_def default_MAX_STR_LEN_def i64_decode_def
    split: wire_value_ref.splits)

text \<open>The documented behaviour of \<open>heapless::String::push_str\<close>: it fails without effect beyond the capacity.\<close>

locale heapless_string =
  fixes push_str :: push_str_fn
  assumes push_str_law: "push_str n s t = (if length s + length t \<le> n then Some (s @ t) else None)"

lemma string_validate_wf: "is_utf8 v \<Longrightarrow> string_validate v = Inr () \<longleftrightarrow> wf_str v"
  by (auto simp: string_validate_def wf_str_def)

lemma length_encode_Str: "length (encode_value (Str v)) = 3 + length v"
  by simp

lemma string_encode_valid:
  assumes "wf_str v" and "3 + length v \<le> length buffer"
  shows "string_encode v buffer = (Inr (length (encode_value (Str v))),
      encode_value (Str v) @ drop (length (encode_value (Str v))) buffer)"
proof -
  have len: "length v \<le> 65535" and "string_validate v = Inr ()"
    using assms(1) by (auto simp: wf_str_def string_validate_def)
  then show ?thesis
    using write_value_string [OF assms(2) len, of "kind_as_byte Str_Kind"]
    unfolding length_encode_Str
    by (simp add: string_encode_def u16_try_from_def kind_as_byte_def)
qed

lemma encode_str_value_valid:
  assumes "wf_str v" and "3 + length v \<le> length buffer"
  shows "encode_str_value v buffer = (Inr (length (encode_value (Str v))),
      encode_value (Str v) @ drop (length (encode_value (Str v))) buffer)"
proof -
  have len: "length v \<le> 65535" and "0 \<notin> set v" using assms(1) by (auto simp: wf_str_def)
  then show ?thesis
    using write_value_string [OF assms(2) len, of "kind_as_byte Str_Kind"]
    unfolding length_encode_Str
    by (simp add: encode_str_value_def u16_try_from_def kind_as_byte_def)
qed

definition string_inhabits :: "nat \<Rightarrow> rstr \<Rightarrow> bool" where
  "string_inhabits n v \<longleftrightarrow> is_utf8 v \<and> length v \<le> n"

sublocale heapless_string \<subseteq> string_value: qup_value True "string_MAX_WIRE_LEN n" "string_MAX_STR_LEN n"
  string_validate string_encode "string_decode push_str n" Str "string_inhabits n" for n
proof
  fix v buffer assume v: "string_inhabits n v"
  then show "string_validate v = Inr () \<longleftrightarrow> wf_value (Str v)"
    by (simp add: string_validate_wf string_inhabits_def)
  show "length (encode_value (Str v)) \<le> string_MAX_WIRE_LEN n \<and> str_len (Str v) \<le> string_MAX_STR_LEN n"
    using v by (simp add: string_inhabits_def string_MAX_WIRE_LEN_def string_MAX_STR_LEN_def)
  show "wf_value (Str v) \<Longrightarrow> string_MAX_WIRE_LEN n \<le> length buffer \<Longrightarrow> string_encode v buffer =
      (Inr (length (encode_value (Str v))), encode_value (Str v) @ drop (length (encode_value (Str v))) buffer)"
    using v by (intro string_encode_valid) (auto simp: string_inhabits_def string_MAX_WIRE_LEN_def)
  assume "\<not> wf_value (Str v)"
  then obtain e where "string_validate v = Inl e"
    using v string_validate_wf [of v] by (cases "string_validate v") (auto simp: string_inhabits_def)
  then show "\<exists>e. string_encode v buffer = (Inl (Fail e), buffer)" by (simp add: string_encode_def)
qed (auto simp: string_decode_def push_str_law string_inhabits_def wf_str_def
    split: wire_value_ref.splits if_splits)

definition derived_names_ok :: "rstr list \<Rightarrow> bool" where
  "derived_names_ok names \<longleftrightarrow> names \<noteq> [] \<and> distinct names \<and> (\<forall>s \<in> set names. s \<noteq> [] \<and> wf_str s)"

lemma wf_str_nth: "derived_names_ok names \<Longrightarrow> i < length names \<Longrightarrow> wf_str (names ! i)"
  by (simp add: derived_names_ok_def)

interpretation enum_value: qup_value "derived_names_ok names" "enum_MAX_WIRE_LEN names"
  "enum_MAX_STR_LEN names" default_validate "enum_encode names" "enum_decode names"
  "\<lambda>i. Str (names ! i)" "\<lambda>i. i < length names" for names
proof
  fix v buffer assume ok: "derived_names_ok names" and v: "v < length names"
  show "default_validate v = Inr () \<longleftrightarrow> wf_value (Str (names ! v))"
    using wf_str_nth [OF ok v] by (simp add: default_validate_def)
  show "enum_encode names v buffer = (Inr (length (encode_value (Str (names ! v)))),
      encode_value (Str (names ! v)) @ drop (length (encode_value (Str (names ! v)))) buffer)"
    if "enum_MAX_WIRE_LEN names \<le> length buffer"
    using encode_str_value_valid [OF wf_str_nth [OF ok v], of buffer] name_length [OF v] that v
    by (simp add: enum_encode_def enum_MAX_WIRE_LEN_def list_get_def)
  show "length (encode_value (Str (names ! v))) \<le> enum_MAX_WIRE_LEN names \<and>
      str_len (Str (names ! v)) \<le> enum_MAX_STR_LEN names"
    using name_length [OF v] by (simp add: enum_MAX_WIRE_LEN_def)
  show "enum_decode names (as_wire (Str (names ! v))) = Inr v"
    using position_nth [OF _ v] ok by (simp add: enum_decode_def derived_names_ok_def)
  show "\<not> wf_value (Str (names ! v)) \<Longrightarrow> \<exists>e. enum_encode names v buffer = (Inl (Fail e), buffer)"
    using wf_str_nth [OF ok v] by simp
next
  fix w v assume "enum_decode names w = Inr v"
  then show "v < length names \<and> w = as_wire (Str (names ! v))"
    by (auto simp: enum_decode_def position_Some split: wire_value_ref.splits option.splits)
qed

end
