(* ===== verification/Embassy_Key.thy ===== *)
theory Embassy_Key
  imports Embassy_Value
begin

text \<open>
  The keys of \<open>qup-embassy\<close> (\<open>Key<T, PERM>\<close> and \<open>ErasedKey\<close> in \<open>qup-embassy/src/lib.rs\<close>): the
  value types a registry may hold, a key with its stored value and generation counter, local
  reads and writes, waiting for updates, and the operations the server calls. The signals of
  \<open>embassy_sync\<close> and \<open>heapless::String::push_str\<close> are parameters (\<open>embassy_lib\<close>); a key with the
  notifier its server attached is a pair of the key and that signal.
\<close>

section \<open>Libraries\<close>

text \<open>
  \<open>lib_signal\<close> is \<open>Signal::signal(())\<close>; \<open>lib_wait\<close> polls \<open>Signal::wait()\<close>: \<open>None\<close> while it is
  pending, \<open>Some\<close> the signal it leaves behind when it completes.
\<close>

record 'g embassy_lib =
  lib_push_str :: push_str_fn
  lib_new_signal :: 'g
  lib_signal :: "'g \<Rightarrow> 'g"
  lib_wait :: "'g \<Rightarrow> 'g option"

section \<open>Values of any type\<close>

text \<open>\<open>T\<close> of \<open>Key<T, PERM>\<close>: a derived enum has its wire names and the index of its default.\<close>

datatype key_type = BoolT | I64T | StringT nat | EnumT "rstr list" nat

datatype key_value = BoolV bool | I64V i64 | StringV rstr | VariantV nat

fun type_DEFAULT :: "key_type \<Rightarrow> key_value" where
  "type_DEFAULT BoolT = BoolV bool_DEFAULT"
| "type_DEFAULT I64T = I64V i64_DEFAULT"
| "type_DEFAULT (StringT n) = StringV string_DEFAULT"
| "type_DEFAULT (EnumT names d) = VariantV d"

fun type_MAX_WIRE_LEN :: "key_type \<Rightarrow> nat" where
  "type_MAX_WIRE_LEN BoolT = bool_MAX_WIRE_LEN"
| "type_MAX_WIRE_LEN I64T = i64_MAX_WIRE_LEN"
| "type_MAX_WIRE_LEN (StringT n) = string_MAX_WIRE_LEN n"
| "type_MAX_WIRE_LEN (EnumT names d) = enum_MAX_WIRE_LEN names"

fun type_MAX_STR_LEN :: "key_type \<Rightarrow> nat" where
  "type_MAX_STR_LEN BoolT = default_MAX_STR_LEN"
| "type_MAX_STR_LEN I64T = default_MAX_STR_LEN"
| "type_MAX_STR_LEN (StringT n) = string_MAX_STR_LEN n"
| "type_MAX_STR_LEN (EnumT names d) = enum_MAX_STR_LEN names"

fun value_validate :: "key_value \<Rightarrow> wire_value_error + unit" where
  "value_validate (StringV s) = string_validate s"
| "value_validate v = default_validate v"

text \<open>A value of another type than the key's cannot occur; the model panics.\<close>

fun value_encode :: "key_type \<Rightarrow> key_value \<Rightarrow> (bytes, wire_value_error fault, nat) action" where
  "value_encode BoolT (BoolV b) = bool_encode b"
| "value_encode I64T (I64V i) = i64_encode i"
| "value_encode (StringT n) (StringV s) = string_encode s"
| "value_encode (EnumT names d) (VariantV i) = enum_encode names i"
| "value_encode _ _ = act_err Panic"

fun value_of_wire :: "push_str_fn \<Rightarrow> key_type \<Rightarrow> wire_value_ref \<Rightarrow> wire_value_error + key_value" where
  "value_of_wire push_str BoolT w = res_map BoolV (bool_decode w)"
| "value_of_wire push_str I64T w = res_map I64V (i64_decode w)"
| "value_of_wire push_str (StringT n) w = res_map StringV (string_decode push_str n w)"
| "value_of_wire push_str (EnumT names d) w = res_map VariantV (enum_decode names w)"

fun value_repr :: "key_type \<Rightarrow> key_value \<Rightarrow> value_ref" where
  "value_repr (EnumT names d) (VariantV i) = Str (names ! i)"
| "value_repr _ (BoolV b) = Bool b"
| "value_repr _ (I64V i) = I64 i"
| "value_repr _ (StringV s) = Str s"
| "value_repr _ (VariantV i) = Bool False"

fun value_inhabits :: "key_type \<Rightarrow> key_value \<Rightarrow> bool" where
  "value_inhabits BoolT (BoolV b) \<longleftrightarrow> True"
| "value_inhabits I64T (I64V i) \<longleftrightarrow> True"
| "value_inhabits (StringT n) (StringV s) \<longleftrightarrow> string_inhabits n s"
| "value_inhabits (EnumT names d) (VariantV i) \<longleftrightarrow> i < length names"
| "value_inhabits _ _ \<longleftrightarrow> False"

fun type_ok :: "key_type \<Rightarrow> bool" where
  "type_ok (EnumT names d) \<longleftrightarrow> derived_names_ok names \<and> d < length names"
| "type_ok _ \<longleftrightarrow> True"

fun_cases value_inhabits_type: "value_inhabits BoolT v" "value_inhabits I64T v"
  "value_inhabits (StringT n) v" "value_inhabits (EnumT names d) v"

lemma value_inhabits_cases:
  assumes "value_inhabits ty v"
  obtains b where "ty = BoolT" "v = BoolV b" | i where "ty = I64T" "v = I64V i"
    | n s where "ty = StringT n" "v = StringV s" "string_inhabits n s"
    | names d i where "ty = EnumT names d" "v = VariantV i" "i < length names"
  using assms by (cases ty; cases v) auto

section \<open>Keys\<close>

record 'g ekey =
  key_name :: rstr
  key_keyref :: u16
  key_perm :: perm
  key_type :: key_type
  key_slot :: key_value
  key_change_signal :: 'g
  key_notifier :: bool
  key_generation :: u32

text \<open>\<open>assert_wire_string\<close>: the loop over the bytes, \<open>False\<close> for the failed assertion.\<close>

function no_nul_from :: "bytes \<Rightarrow> nat \<Rightarrow> bool" where
  "no_nul_from bs index =
     (if index < length bs then (if bs ! index \<noteq> 0x00 then no_nul_from bs (index + 1) else False)
      else True)"
  by pat_completeness auto
termination
  by (relation "measure (\<lambda>(bs, index). length bs - index)") auto

declare no_nul_from.simps [simp del]

definition assert_wire_string :: "rstr \<Rightarrow> bool" where
  "assert_wire_string v \<longleftrightarrow> length v \<le> 65535 \<and> no_nul_from v 0"

definition key_with_initial ::
  "'g embassy_lib \<Rightarrow> perm \<Rightarrow> key_type \<Rightarrow> rstr \<Rightarrow> u16 \<Rightarrow> key_value \<Rightarrow> 'g ekey option" where
  "key_with_initial lib perm ty name keyref v =
     (if assert_wire_string name then
        Some \<lparr>key_name = name, key_keyref = keyref, key_perm = perm, key_type = ty,
              key_slot = v, key_change_signal = lib_new_signal lib, key_notifier = False,
              key_generation = 0\<rparr>
      else None)"

definition key_new :: "'g embassy_lib \<Rightarrow> perm \<Rightarrow> key_type \<Rightarrow> rstr \<Rightarrow> u16 \<Rightarrow> 'g ekey option" where
  "key_new lib perm ty name keyref =
     (if assert_wire_string name then
        Some \<lparr>key_name = name, key_keyref = keyref, key_perm = perm, key_type = ty,
              key_slot = type_DEFAULT ty, key_change_signal = lib_new_signal lib, key_notifier = False,
              key_generation = 0\<rparr>
      else None)"

definition key_get :: "'g ekey \<Rightarrow> key_value" where
  "key_get k = key_slot k"

definition keyflags :: "'g ekey \<Rightarrow> u8" where
  "keyflags k = flags_bits (key_perm k)"

definition key_readable :: "'g ekey \<Rightarrow> bool" where
  "key_readable k = perm_readable (key_perm k)"

definition key_writable :: "'g ekey \<Rightarrow> bool" where
  "key_writable k = perm_writable (key_perm k)"

definition key_observable :: "'g ekey \<Rightarrow> bool" where
  "key_observable k = perm_observable (key_perm k)"

definition attach_notifier :: "'g ekey \<Rightarrow> 'g ekey" where
  "attach_notifier k = (if key_observable k then k\<lparr>key_notifier := True\<rparr> else k)"

text \<open>\<open>fetch_add\<close> wraps around, which the \<open>+\<close> of the word does.\<close>

definition notify_changed :: "'g embassy_lib \<Rightarrow> 'g ekey \<times> 'g \<Rightarrow> 'g ekey \<times> 'g" where
  "notify_changed lib kn = (case kn of (k, notifier) \<Rightarrow>
     let k = k\<lparr>key_generation := key_generation k + 1\<rparr>;
         k = k\<lparr>key_change_signal := lib_signal lib (key_change_signal k)\<rparr>
     in if \<not> key_observable k then (k, notifier)
        else if key_notifier k then (k, lib_signal lib notifier)
        else (k, notifier))"

definition try_set :: "'g embassy_lib \<Rightarrow> key_value \<Rightarrow> ('g ekey \<times> 'g, wire_value_error, bool) action" where
  "try_set lib v kn = (case kn of (k, notifier) \<Rightarrow>
     case value_validate v of
       Inl e \<Rightarrow> (Inl e, (k, notifier))
     | Inr _ \<Rightarrow>
         let changed = (key_slot k \<noteq> v);
             k = k\<lparr>key_slot := v\<rparr>
         in (Inr changed, notify_changed lib (k, notifier)))"

text \<open>\<open>set\<close> panics when the value is refused.\<close>

definition key_set :: "'g embassy_lib \<Rightarrow> key_value \<Rightarrow> ('g ekey \<times> 'g, unit fault, unit) action" where
  "key_set lib v kn =
     (case try_set lib v kn of
        (Inl e, kn') \<Rightarrow> (Inl Panic, kn')
      | (Inr _, kn') \<Rightarrow> (Inr (), kn'))"

text \<open>
  \<open>next\<close> and \<open>wait_for\<close> against the states of the key at the moments the change signal wakes
  the task; \<open>None\<close> is a future that is still pending when the wake-ups are used up.
\<close>

fun key_next_loop :: "u32 \<Rightarrow> 'g ekey list \<Rightarrow> (key_value \<times> 'g ekey \<times> 'g ekey list) option" where
  "key_next_loop observed_generation [] = None"
| "key_next_loop observed_generation (k # wakes) =
     (if key_generation k \<noteq> observed_generation then Some (key_get k, k, wakes)
      else key_next_loop observed_generation wakes)"

definition key_next :: "'g ekey \<Rightarrow> 'g ekey list \<Rightarrow> (key_value \<times> 'g ekey \<times> 'g ekey list) option" where
  "key_next k wakes = key_next_loop (key_generation k) wakes"

lemma key_next_loop_shorter: "key_next_loop g wakes = Some (v, k', rest) \<Longrightarrow> length rest < length wakes"
  by (induction wakes) (auto split: if_splits)

function wait_for :: "key_value \<Rightarrow> 'g ekey \<Rightarrow> 'g ekey list \<Rightarrow> 'g ekey list option" where
  "wait_for expected k wakes =
     (case key_next k wakes of
        None \<Rightarrow> None
      | Some (v, k', rest) \<Rightarrow> if v = expected then Some rest else wait_for expected k' rest)"
  by pat_completeness auto
termination
  by (relation "measure (\<lambda>(expected, k, wakes). length wakes)")
    (auto simp: key_next_def dest: key_next_loop_shorter)

declare wait_for.simps [simp del]

definition encode_current_value :: "'g ekey \<Rightarrow> (bytes, wire_value_error fault, nat) action" where
  "encode_current_value k buffer = value_encode (key_type k) (key_get k) buffer"

definition write_and_encode ::
  "'g embassy_lib \<Rightarrow> wire_value_ref \<Rightarrow> (('g ekey \<times> 'g) \<times> bytes, wire_value_error fault, nat) action" where
  "write_and_encode lib w s = (case s of ((k, notifier), buffer) \<Rightarrow>
     case value_of_wire (lib_push_str lib) (key_type k) w of
       Inl e \<Rightarrow> (Inl (Fail e), s)
     | Inr decoded \<Rightarrow>
         (case value_validate decoded of
            Inl e \<Rightarrow> (Inl (Fail e), s)
          | Inr _ \<Rightarrow>
              (let k = k\<lparr>key_slot := decoded\<rparr>;
                   kn = notify_changed lib (k, notifier);
                   (r, buffer') = value_encode (key_type k) decoded buffer
               in (r, (kn, buffer')))))"

section \<open>Facts\<close>

lemma no_nul_from_iff: "no_nul_from bs i \<longleftrightarrow> 0 \<notin> set (drop i bs)"
proof (induction bs i rule: no_nul_from.induct)
  case (1 bs i)
  show ?case
  proof (cases "i < length bs")
    case True
    then have "drop i bs = bs ! i # drop (i + 1) bs" by (simp add: Cons_nth_drop_Suc)
    then show ?thesis using 1 True by (subst no_nul_from.simps) auto
  qed (simp add: no_nul_from.simps)
qed

lemma assert_wire_string_iff: "is_utf8 s \<Longrightarrow> assert_wire_string s \<longleftrightarrow> wf_str s"
  by (auto simp: assert_wire_string_def no_nul_from_iff wf_str_def)

text \<open>The flags of a permission, and the accessors as tests of them.\<close>

lemma perm_tests:
  "perm_readable p \<longleftrightarrow> p \<in> {PermR, PermRW, PermRN, PermRWN}"
  "perm_writable p \<longleftrightarrow> p \<in> {PermW, PermRW, PermWN, PermRWN}"
  "perm_observable p \<longleftrightarrow> p \<in> {PermN, PermRN, PermWN, PermRWN}"
  by (cases p; simp add: perm_readable_def perm_writable_def perm_observable_def flags_bits_def flag_defs)+

lemma wf_keyflags: "wf_flags (KeyFlags (flags_bits p))"
  by (cases p) (simp_all add: wf_flags_def flags_bits_def flag_defs)

text \<open>A key as the constructors and \<open>try_set\<close> leave it.\<close>

definition key_wire :: "'g ekey \<Rightarrow> value_ref" where
  "key_wire k = value_repr (key_type k) (key_slot k)"

definition key_typed :: "'g ekey \<Rightarrow> bool" where
  "key_typed k \<longleftrightarrow> type_ok (key_type k) \<and> wf_str (key_name k)
     \<and> value_inhabits (key_type k) (key_slot k)"

definition key_ok :: "'g ekey \<Rightarrow> bool" where
  "key_ok k \<longleftrightarrow> key_typed k \<and> wf_value (key_wire k)"

definition key_store :: "'g embassy_lib \<Rightarrow> key_value \<Rightarrow> 'g ekey \<Rightarrow> 'g ekey" where
  "key_store lib v k = k\<lparr>key_slot := v, key_generation := key_generation k + 1,
     key_change_signal := lib_signal lib (key_change_signal k)\<rparr>"

definition notifier_after :: "'g embassy_lib \<Rightarrow> 'g ekey \<Rightarrow> 'g \<Rightarrow> 'g" where
  "notifier_after lib k notifier =
     (if key_observable k \<and> key_notifier k then lib_signal lib notifier else notifier)"

lemma key_store_fields [simp]:
  "key_name (key_store lib v k) = key_name k" "key_keyref (key_store lib v k) = key_keyref k"
  "key_perm (key_store lib v k) = key_perm k" "key_type (key_store lib v k) = key_type k"
  "key_slot (key_store lib v k) = v" "key_notifier (key_store lib v k) = key_notifier k"
  "key_generation (key_store lib v k) = key_generation k + 1"
  "key_observable (key_store lib v k) = key_observable k"
  by (simp_all add: key_store_def key_observable_def)

lemma attach_notifier_fields [simp]:
  "key_name (attach_notifier k) = key_name k" "key_keyref (attach_notifier k) = key_keyref k"
  "key_perm (attach_notifier k) = key_perm k" "key_type (attach_notifier k) = key_type k"
  "key_slot (attach_notifier k) = key_slot k" "key_generation (attach_notifier k) = key_generation k"
  "key_observable (attach_notifier k) = key_observable k"
  "key_notifier (attach_notifier k) \<longleftrightarrow> key_notifier k \<or> key_observable k"
  by (simp_all add: attach_notifier_def key_observable_def)

lemma notify_changed_eq:
  "notify_changed lib (k, notifier) =
     (key_store lib (key_slot k) k, notifier_after lib k notifier)"
  by (simp add: notify_changed_def key_store_def notifier_after_def Let_def key_observable_def)

lemma key_store_update: "key_store lib v (k\<lparr>key_slot := v'\<rparr>) = key_store lib v k"
  by (simp add: key_store_def)

lemma notifier_after_update [simp]:
  "notifier_after lib (k\<lparr>key_slot := v\<rparr>) = notifier_after lib k"
  "notifier_after lib (key_store lib' v k) = notifier_after lib k"
  by (simp_all add: notifier_after_def key_store_def key_observable_def fun_eq_iff)

lemma try_set_eq:
  "try_set lib v (k, notifier) =
     (case value_validate v of
        Inl e \<Rightarrow> (Inl e, (k, notifier))
      | Inr _ \<Rightarrow> (Inr (key_slot k \<noteq> v), (key_store lib v k, notifier_after lib k notifier)))"
  by (simp add: try_set_def Let_def notify_changed_eq key_store_update split: sum.split)

lemma key_store_ok:
  assumes "key_typed k" and "value_inhabits (key_type k) v"
  shows "key_typed (key_store lib v k)"
    and "wf_value (value_repr (key_type k) v) \<Longrightarrow> key_ok (key_store lib v k)"
  using assms by (simp_all add: key_typed_def key_ok_def key_wire_def)

lemma key_store_changes [simp]: "key_generation k + 1 \<noteq> key_generation k"
  by (metis add_cancel_left_right zero_neq_one)

section \<open>The contract of the libraries\<close>

sublocale heapless_string \<subseteq> any_value: qup_value "type_ok ty" "type_MAX_WIRE_LEN ty"
  "type_MAX_STR_LEN ty" value_validate "value_encode ty" "value_of_wire push_str ty"
  "value_repr ty" "value_inhabits ty" for ty
proof
  fix v buffer assume ok: "type_ok ty" and v: "value_inhabits ty v"
  show "value_validate v = Inr () \<longleftrightarrow> wf_value (value_repr ty v)"
    using v ok by (cases rule: value_inhabits_cases)
      (auto simp: string_value.validate_wf enum_value.validate_wf default_validate_def
        dest: enum_value.validate_wf simp del: wf_value.simps(1) intro: wf_str_nth)
  show "length (encode_value (value_repr ty v)) \<le> type_MAX_WIRE_LEN ty \<and>
      str_len (value_repr ty v) \<le> type_MAX_STR_LEN ty"
    using v ok bool_value.repr_fits i64_value.repr_fits string_value.repr_fits enum_value.repr_fits
    by (cases rule: value_inhabits_cases) (simp_all del: encode_value.simps str_len.simps)
  show "value_of_wire push_str ty (as_wire (value_repr ty v)) = Inr v" if "wf_value (value_repr ty v)"
    using v ok that bool_value.decode_complete i64_value.decode_complete
      string_value.decode_complete enum_value.decode_complete
    by (cases rule: value_inhabits_cases) (simp_all del: as_wire.simps wf_value.simps)
  show "value_encode ty v buffer = (Inr (length (encode_value (value_repr ty v))),
      encode_value (value_repr ty v) @ drop (length (encode_value (value_repr ty v))) buffer)"
    if "wf_value (value_repr ty v)" "type_MAX_WIRE_LEN ty \<le> length buffer"
    using v ok that bool_value.encode_valid i64_value.encode_valid
      string_value.encode_valid enum_value.encode_valid
    by (cases rule: value_inhabits_cases) (simp_all del: encode_value.simps wf_value.simps)
  show "\<exists>e. value_encode ty v buffer = (Inl (Fail e), buffer)" if "\<not> wf_value (value_repr ty v)"
    using v ok that string_value.encode_invalid enum_value.encode_invalid
    by (cases rule: value_inhabits_cases) (auto simp del: wf_value.simps(1) simp: wf_value.simps(2,3))
next
  fix w v assume ok: "type_ok ty" and w: "wf_wire w" and d: "value_of_wire push_str ty w = Inr v"
  show "value_inhabits ty v \<and> w = as_wire (value_repr ty v)"
    using d w ok bool_value.decode_sound [of w] i64_value.decode_sound [of w]
      string_value.decode_sound [of w] enum_value.decode_sound [of _ w]
    by (cases ty) (auto simp: res_map_eq_Inr simp del: as_wire.simps)
qed

locale embassy_library = heapless_string "lib_push_str lib"
  for lib :: "'g embassy_lib" +
  assumes wait_new: "lib_wait lib (lib_new_signal lib) = None"
    and wait_signal: "\<exists>g'. lib_wait lib (lib_signal lib g) = Some g'"
    and wait_once: "lib_wait lib g = Some g' \<Longrightarrow> lib_wait lib g' = None"
begin

lemma encode_current_value_ok:
  assumes "key_ok k" and "type_MAX_WIRE_LEN (key_type k) \<le> length buffer"
  shows "encode_current_value k buffer = (Inr (length (encode_value (key_wire k))),
      encode_value (key_wire k) @ drop (length (encode_value (key_wire k))) buffer)"
  using assms by (simp add: encode_current_value_def key_ok_def key_typed_def key_wire_def key_get_def
      any_value.encode_valid)

text \<open>A key whose stored value the protocol cannot carry.\<close>

lemma encode_current_value_bad:
  assumes "key_typed k" and "\<not> wf_value (key_wire k)"
  shows "\<exists>e. encode_current_value k buffer = (Inl (Fail e), buffer)"
  using assms by (auto simp: encode_current_value_def key_typed_def key_wire_def key_get_def
      intro: any_value.encode_invalid)

lemma wire_length:
  assumes "key_typed k"
  shows "length (encode_value (key_wire k)) \<le> type_MAX_WIRE_LEN (key_type k)"
  using assms any_value.repr_fits by (auto simp: key_typed_def key_wire_def)

text \<open>A refused value is none of the key's type.\<close>

lemma write_refused:
  assumes "key_typed k" and "wf_wire w" and "value_of_wire (lib_push_str lib) (key_type k) w = Inl e"
    and "value_inhabits (key_type k) v"
  shows "w \<noteq> as_wire (value_repr (key_type k) v)"
proof
  assume w: "w = as_wire (value_repr (key_type k) v)"
  then have "wf_value (value_repr (key_type k) v)"
    using assms(2) by (cases "value_repr (key_type k) v") auto
  then show False
    using any_value.decode_complete [of "key_type k" v] assms w by (simp add: key_typed_def)
qed

text \<open>A write decodes the value, stores it and encodes the stored value, or refuses it without effect.\<close>

lemma write_and_encode_cases:
  assumes "key_typed k" and "wf_wire w" and "type_MAX_WIRE_LEN (key_type k) \<le> length buffer"
  obtains (stored) v where "value_of_wire (lib_push_str lib) (key_type k) w = Inr v"
      and "key_ok (key_store lib v k)" and "w = as_wire (key_wire (key_store lib v k))"
      and "write_and_encode lib w ((k, notifier), buffer) =
        (Inr (length (encode_value (key_wire (key_store lib v k)))),
         ((key_store lib v k, notifier_after lib k notifier),
          encode_value (key_wire (key_store lib v k)) @
            drop (length (encode_value (key_wire (key_store lib v k)))) buffer))"
    | (refused) e where "value_of_wire (lib_push_str lib) (key_type k) w = Inl e"
      and "write_and_encode lib w ((k, notifier), buffer) = (Inl (Fail e), ((k, notifier), buffer))"
proof -
  have ty: "type_ok (key_type k)" using assms(1) by (simp add: key_typed_def)
  show ?thesis
  proof (cases rule: any_value.decode_cases [OF ty assms(2)])
    case (1 v)
    have ok: "key_ok (key_store lib v k)" using key_store_ok(2) [OF assms(1) 1(2,3)] .
    have enc: "value_encode (key_type k) v buffer =
        (Inr (length (encode_value (key_wire (key_store lib v k)))),
          encode_value (key_wire (key_store lib v k)) @
            drop (length (encode_value (key_wire (key_store lib v k)))) buffer)"
      using any_value.encode_valid [OF ty 1(2,3) assms(3)] by (simp add: key_wire_def)
    show ?thesis
      using 1 ok enc by (intro stored [of v])
        (simp_all add: write_and_encode_def Let_def notify_changed_eq key_store_update key_wire_def)
  next
    case (2 e)
    then show ?thesis by (intro refused [of e]) (simp_all add: write_and_encode_def)
  qed
qed

end

section \<open>Instance\<close>

text \<open>The documented behaviour of the libraries, with a signal as its pending flag.\<close>

definition flag_lib :: "bool embassy_lib" where
  "flag_lib = \<lparr>lib_push_str = \<lambda>n s t. if length s + length t \<le> n then Some (s @ t) else None,
     lib_new_signal = False, lib_signal = \<lambda>_. True, lib_wait = \<lambda>g. if g then Some False else None\<rparr>"

interpretation flag: embassy_library flag_lib
  by unfold_locales (auto simp: flag_lib_def split: if_splits)

section \<open>Properties\<close>

text \<open>
  C21: a WRITE reaching a key of any value type, with the buffer \<open>run!\<close> sizes for it, is accepted
  exactly when the key's type can represent the value: then the key stores it, its generation
  is the next one, and the buffer starts with the encoding of that value. Otherwise an error is
  returned and neither key, notifier nor buffer changes. It never panics.
\<close>

theorem write_and_encode_correct:
  assumes "embassy_library lib" and "key_typed k" and "wf_wire w"
    and "type_MAX_WIRE_LEN (key_type k) \<le> length buffer"
  shows "case write_and_encode lib w ((k, notifier), buffer) of
      (Inr len, ((k', notifier'), buffer')) \<Rightarrow>
        key_ok k' \<and> as_wire (key_wire k') = w \<and> key_generation k' = key_generation k + 1
        \<and> take len buffer' = encode_value (key_wire k') \<and> length buffer' = length buffer
    | (Inl f, s') \<Rightarrow>
        (\<exists>e. f = Fail e) \<and> s' = ((k, notifier), buffer)
        \<and> (\<nexists>v. value_inhabits (key_type k) v \<and> w = as_wire (value_repr (key_type k) v))"
proof -
  have lib: "embassy_library lib" by fact
  show ?thesis
  proof (cases rule: embassy_library.write_and_encode_cases [OF lib assms(2-4), where notifier = notifier, case_names stored refused])
    case (stored v)
    then have "length (encode_value (key_wire (key_store lib v k))) \<le> length buffer"
      using embassy_library.wire_length [OF lib, of "key_store lib v k"] assms(4)
      by (simp add: key_ok_def)
    with stored show ?thesis by simp
  next
    case (refused e)
    with embassy_library.write_refused [OF lib assms(2,3)] have
      "\<nexists>v. value_inhabits (key_type k) v \<and> w = as_wire (value_repr (key_type k) v)" by blast
    with refused show ?thesis by auto
  qed
qed

definition sample_key :: "bool ekey" where
  "sample_key = \<lparr>key_name = ascii ''mode'', key_keyref = 0, key_perm = PermRWN,
     key_type = EnumT [ascii ''off'', ascii ''partial''] 0, key_slot = VariantV 0,
     key_change_signal = False, key_notifier = True, key_generation = 0\<rparr>"

lemma ascii_wf_str: "\<forall>b \<in> set s. 0 < b \<and> b < 0x80 \<Longrightarrow> length s \<le> 65535 \<Longrightarrow> wf_str s"
  by (auto simp: wf_str_def intro: is_utf8_ascii)

lemma sample_key_typed: "key_typed sample_key"
  by (simp add: sample_key_def key_typed_def derived_names_ok_def ascii_def ascii_wf_str)

lemma write_and_encode_correct_witness:
  "case write_and_encode flag_lib (WireStr (ascii ''partial'')) ((sample_key, False), replicate 10 0) of
      (Inr len, ((k', notifier'), buffer')) \<Rightarrow>
        key_ok k' \<and> as_wire (key_wire k') = WireStr (ascii ''partial'')
        \<and> key_generation k' = key_generation sample_key + 1
        \<and> take len buffer' = encode_value (key_wire k') \<and> length buffer' = length (replicate 10 (0 :: u8))
    | (Inl f, s') \<Rightarrow>
        (\<exists>e. f = Fail e) \<and> s' = ((sample_key, False), replicate 10 0)
        \<and> (\<nexists>v. value_inhabits (key_type sample_key) v
              \<and> WireStr (ascii ''partial'') = as_wire (value_repr (key_type sample_key) v))"
proof (rule write_and_encode_correct [OF flag.embassy_library_axioms sample_key_typed])
  show "wf_wire (WireStr (ascii ''partial''))" by (simp add: ascii_def ascii_wf_str)
  show "type_MAX_WIRE_LEN (key_type sample_key) \<le> length (replicate 10 (0 :: u8))"
    by (simp add: sample_key_def enum_MAX_WIRE_LEN_def enum_MAX_STR_LEN_def ascii_def)
qed

text \<open>The states of a key after each of a sequence of local updates.\<close>

fun key_states :: "'g embassy_lib \<Rightarrow> 'g ekey \<Rightarrow> key_value list \<Rightarrow> 'g ekey list" where
  "key_states lib k [] = []"
| "key_states lib k (v # vs) =
     (case try_set lib v (k, lib_new_signal lib) of
        (_, (k', _)) \<Rightarrow> k' # key_states lib k' vs)"

text \<open>
  A task waiting for a value with \<open>wait_for\<close>, woken after every local update, returns if
  and only if one of the updates that the key accepts stores that value; in particular a
  refused update never ends the wait.
\<close>

lemma wait_for_returns:
  "wait_for expected k (key_states lib k vs) \<noteq> None
     \<longleftrightarrow> expected \<in> set vs \<and> value_validate expected = Inr ()"
proof (induction vs arbitrary: k)
  case Nil
  then show ?case by (simp add: wait_for.simps key_next_def)
next
  case (Cons v vs)
  show ?case
  proof (cases "value_validate v")
    case (Inl e)
    then have "wait_for expected k (key_states lib k (v # vs)) = wait_for expected k (key_states lib k vs)"
      by (simp add: try_set_eq wait_for.simps [of expected k] key_next_def)
    then show ?thesis using Cons Inl by auto
  next
    case (Inr u)
    then show ?thesis
      using Cons by (auto simp: try_set_eq wait_for.simps [of expected k] key_next_def key_get_def)
  qed
qed

text \<open>Updates that land before the task runs are one wake-up, and a value among them is missed.\<close>

lemma wait_for_misses_coalesced:
  "v \<noteq> expected \<Longrightarrow> wait_for expected k [key_store lib v (key_store lib expected k)] = None"
  by (simp add: wait_for.simps key_next_def key_get_def)

end
