(* ===== verification/Embassy_Utf8.thy ===== *)
theory Embassy_Utf8
  imports Embassy_Value
begin

text \<open>
  \<open>Utf8StreamValidator\<close> of \<open>qup-embassy/src/lib.rs\<close>, which validates a string that does not fit
  the server's buffer in pieces of 64 bytes, and \<open>decode_wire_string\<close>, which validates one
  that does. The streaming validator is shown equivalent to the whole one for every way of
  cutting the string.
\<close>

definition DISCARD_CHUNK :: nat where "DISCARD_CHUNK = 64"

definition decode_wire_string :: "bytes \<Rightarrow> payload_error + rstr" where
  "decode_wire_string bs =
     (if 0x00 \<in> set bs then Inl StringContainsNul
      else res_map_err InvalidUtf8 (from_utf8 bs))"

record utf8_stream_validator =
  stream_tail :: bytes
  tail_len :: nat

definition validator_new :: utf8_stream_validator where
  "validator_new = \<lparr>stream_tail = [0, 0, 0, 0], tail_len = 0\<rparr>"

text \<open>
  \<open>buffer[tail_len..total]\<close> panics when the local buffer of \<open>DISCARD_CHUNK + 4\<close> bytes is too
  small, \<open>tail[..leftover]\<close> when more than the four bytes of \<open>tail\<close> are left over. Of the
  local buffer only the first \<open>total\<close> bytes are read.
\<close>

definition validator_feed :: "bytes \<Rightarrow> (utf8_stream_validator, payload_error fault, unit) action" where
  "validator_feed chunk v =
     (if 0x00 \<in> set chunk then (Inl (Fail StringContainsNul), v)
      else let total = tail_len v + length chunk in
        if DISCARD_CHUNK + 4 < total then (Inl Panic, v)
        else let buffer = take (tail_len v) (stream_tail v) @ chunk in
          case from_utf8 buffer of
            Inr _ \<Rightarrow> (Inr (), v\<lparr>tail_len := 0\<rparr>)
          | Inl error \<Rightarrow>
              (if error_len error \<noteq> None then (Inl (Fail (InvalidUtf8 error)), v)
               else let leftover = total - valid_up_to error in
                 case write_exact (stream_tail v) (drop (valid_up_to error) buffer) of
                   Some tail \<Rightarrow> (Inr (), v\<lparr>stream_tail := tail, tail_len := leftover\<rparr>)
                 | None \<Rightarrow> (Inl Panic, v)))"

definition validator_finish :: "utf8_stream_validator \<Rightarrow> payload_error + unit" where
  "validator_finish v =
     (if tail_len v = 0 then Inr ()
      else case from_utf8 (take (tail_len v) (stream_tail v)) of
        Inr _ \<Rightarrow> Inr ()
      | Inl error \<Rightarrow> Inl (InvalidUtf8 error))"

text \<open>
  How the server uses the validator: the first error is kept and later pieces are not fed.
\<close>

definition feed_first ::
  "bytes \<Rightarrow> (utf8_stream_validator \<times> payload_error option, payload_error fault, unit) action" where
  "feed_first chunk s = (case s of (v, error) \<Rightarrow>
     if error = None then
       (case validator_feed chunk v of
          (Inr _, v') \<Rightarrow> (Inr (), (v', None))
        | (Inl (Fail e), v') \<Rightarrow> (Inr (), (v', Some e))
        | (Inl Panic, v') \<Rightarrow> (Inl Panic, (v', None)))
     else (Inr (), s))"

fun feed_chunks ::
  "bytes list \<Rightarrow> (utf8_stream_validator \<times> payload_error option, payload_error fault, unit) action" where
  "feed_chunks [] = act_ok ()"
| "feed_chunks (c # cs) = act_bind (feed_first c) (\<lambda>_. feed_chunks cs)"

text \<open>\<open>payload_error.or_else(|| validator.finish().err())\<close>.\<close>

definition stream_verdict :: "utf8_stream_validator \<times> payload_error option \<Rightarrow> payload_error option" where
  "stream_verdict s = (case s of (v, error) \<Rightarrow>
     case error of
       Some e \<Rightarrow> Some e
     | None \<Rightarrow> (case validator_finish v of Inl e \<Rightarrow> Some e | Inr _ \<Rightarrow> None))"

section \<open>Equivalence with whole validation\<close>

lemma decode_wire_string_Inr: "decode_wire_string bs = Inr s \<longleftrightarrow> is_utf8 bs \<and> 0 \<notin> set bs \<and> s = bs"
  by (auto simp: decode_wire_string_def from_utf8_eq_Inr)

text \<open>After the bytes \<open>seen\<close>, the tail is what \<open>utf8_rest\<close> leaves of them.\<close>

definition stream_inv :: "bytes \<Rightarrow> utf8_stream_validator \<times> payload_error option \<Rightarrow> bool" where
  "stream_inv seen s \<longleftrightarrow> (case s of (v, error) \<Rightarrow> length (stream_tail v) = 4 \<and>
     (case error of
        None \<Rightarrow> 0 \<notin> set seen \<and> tail_len v \<le> 3 \<and> utf8_rest seen = Some (take (tail_len v) (stream_tail v))
      | Some e \<Rightarrow> 0 \<in> set seen \<or> utf8_rest seen = None))"

lemma stream_inv_new: "stream_inv [] (validator_new, None)"
  by (simp add: stream_inv_def validator_new_def)

lemma from_utf8_cases:
  obtains (valid) "from_utf8 bs = Inr bs" "utf8_rest bs = Some []"
    | (partial) t where "utf8_rest bs = Some t" "t \<noteq> []" "length t \<le> 3" "length t \<le> length bs"
        "t = drop (length bs - length t) bs"
        "from_utf8 bs = Inl \<lparr>valid_up_to = length bs - length t, error_len = None\<rparr>"
    | (invalid) k n where "utf8_rest bs = None" "from_utf8 bs = Inl \<lparr>valid_up_to = k, error_len = Some n\<rparr>"
proof (cases "utf8_rest bs")
  case None
  then show thesis using utf8_scan_None [of bs 0] invalid by (auto simp: from_utf8_def)
next
  case (Some t)
  then show thesis
    using utf8_scan_Some [OF Some, of 0] utf8_scan_Nil [of bs 0] utf8_rest_length [OF Some]
      utf8_rest_suffix [OF Some] utf8_rest_le [OF Some] valid partial
    by (cases "t = []") (auto simp: from_utf8_def)
qed

lemma feed_first_inv:
  assumes inv: "stream_inv seen s" and len: "length chunk \<le> DISCARD_CHUNK"
  shows "\<exists>s'. feed_first chunk s = (Inr (), s') \<and> stream_inv (seen @ chunk) s'"
proof -
  obtain v error where s: "s = (v, error)" by (cases s)
  have four: "length (stream_tail v) = 4" using inv s by (simp add: stream_inv_def)
  show ?thesis
  proof (cases error)
    case (Some e)
    then have "utf8_rest (seen @ chunk) = None \<or> 0 \<in> set (seen @ chunk)"
      using inv s by (auto simp: stream_inv_def utf8_rest_append)
    then show ?thesis using Some s four by (auto simp: feed_first_def stream_inv_def)
  next
    case None
    define t where "t = take (tail_len v) (stream_tail v)"
    have seen: "0 \<notin> set seen" "tail_len v \<le> 3" "utf8_rest seen = Some t" "length t = tail_len v"
      using inv s None four by (simp_all add: stream_inv_def t_def)
    then have rest: "utf8_rest (seen @ chunk) = utf8_rest (t @ chunk)" by (simp add: utf8_rest_append)
    have fits: "\<not> DISCARD_CHUNK + 4 < tail_len v + length chunk" using seen len by simp
    show ?thesis
    proof (cases "0 \<in> set chunk")
      case True
      then show ?thesis using s None four by (simp add: feed_first_def validator_feed_def stream_inv_def)
    next
      case nul: False
      note feed = feed_first_def validator_feed_def stream_inv_def Let_def write_exact_def t_def [symmetric]
      show ?thesis
      proof (cases rule: from_utf8_cases [of "t @ chunk"])
        case valid
        then show ?thesis using s None four seen nul rest fits by (simp add: feed)
      next
        case (partial u)
        have short: "\<not> 4 < length u" "length u \<le> 4" using partial by simp_all
        have left: "tail_len v + length chunk - (length (t @ chunk) - length u) = length u"
          using partial seen by simp
        have "drop (length (t @ chunk) - length u) (t @ chunk) = u" using partial by simp
        moreover have "length (u @ drop (length u) (stream_tail v)) = 4" using four short by simp
        ultimately show ?thesis using partial short left s None four seen nul rest fits
          by (simp add: feed del: drop_append length_append)
      next
        case (invalid k n)
        then show ?thesis using s None four seen nul rest fits by (simp add: feed)
      qed
    qed
  qed
qed

lemma feed_chunks_inv:
  assumes "stream_inv seen s" and "\<forall>c \<in> set cs. length c \<le> DISCARD_CHUNK"
  shows "\<exists>s'. feed_chunks cs s = (Inr (), s') \<and> stream_inv (seen @ concat cs) s'"
  using assms
proof (induction cs arbitrary: seen s)
  case (Cons c cs)
  then obtain s1 where "feed_first c s = (Inr (), s1)" "stream_inv (seen @ c) s1"
    using feed_first_inv [of seen s c] by auto
  then show ?case using Cons.IH [of "seen @ c" s1] Cons.prems by (simp add: act_bind_def)
qed simp

lemma stream_verdict_inv:
  assumes "stream_inv seen s"
  shows "stream_verdict s = None \<longleftrightarrow> is_utf8 seen \<and> 0 \<notin> set seen"
proof -
  obtain v error where s: "s = (v, error)" by (cases s)
  show ?thesis
  proof (cases error)
    case (Some e)
    then show ?thesis using assms s by (auto simp: stream_inv_def stream_verdict_def is_utf8_rest)
  next
    case None
    define t where "t = take (tail_len v) (stream_tail v)"
    have t: "utf8_rest seen = Some t" "length t = tail_len v" "0 \<notin> set seen"
      using assms s None by (auto simp: stream_inv_def t_def)
    show ?thesis
    proof (cases "t = []")
      case True
      then show ?thesis using t s None by (simp add: stream_verdict_def validator_finish_def is_utf8_rest)
    next
      case False
      then have "0 < length t" by simp
      then have "tail_len v \<noteq> 0" using t(2) by linarith
      moreover have "utf8_rest t = Some t"
        using utf8_rest_append [of seen "[]"] t by simp
      then have "\<exists>e. from_utf8 t = Inl e"
        by (cases rule: from_utf8_cases [of t]) (use False in auto)
      ultimately show ?thesis
        using t s None False by (auto simp: stream_verdict_def validator_finish_def is_utf8_rest t_def)
    qed
  qed
qed

text \<open>
  C37: whatever way a string is cut into pieces of at most 64 bytes, the streaming validator
  never panics and accepts it exactly when the validator of whole strings does: it is UTF-8
  and has no NUL byte, scalar values that straddle pieces included.
\<close>

theorem stream_validator_correct:
  assumes "\<forall>c \<in> set cs. length c \<le> DISCARD_CHUNK"
  shows "\<exists>s. feed_chunks cs (validator_new, None) = (Inr (), s)
     \<and> (stream_verdict s = None \<longleftrightarrow> decode_wire_string (concat cs) = Inr (concat cs))"
  using feed_chunks_inv [OF stream_inv_new assms] stream_verdict_inv
  by (auto simp: decode_wire_string_Inr)

lemma stream_validator_correct_witness:
  "\<exists>s. feed_chunks [[0xC3], [0xA9, 0x41], [0xF0, 0x9F], [0x98, 0x80]] (validator_new, None) = (Inr (), s)
     \<and> (stream_verdict s = None \<longleftrightarrow>
          decode_wire_string (concat [[0xC3], [0xA9, 0x41], [0xF0, 0x9F], [0x98, 0x80]]) =
            Inr (concat [[0xC3], [0xA9, 0x41], [0xF0, 0x9F], [0x98, 0x80]]))"
  by (rule stream_validator_correct) (simp add: DISCARD_CHUNK_def)

end
