(* ===== verification/Embassy_Reader.thy ===== *)
theory Embassy_Reader
  imports Embassy_Utf8
begin

text \<open>
  How the embassy server reads a request (\<open>read_request\<close> and its helpers in
  \<open>qup-embassy/src/lib.rs\<close>): field by field from the stream, without a frame buffer, with a
  running sum of the bytes. The reader is shown to accept exactly the frames of well-formed
  request messages, as the parser and decoder of \<open>qup-core\<close> do.
\<close>

section \<open>Errors and the running sum\<close>

datatype protocol_error = FrameViolation frame_error | PayloadViolation payload_error

datatype ('re, 'we) server_error =
    ServerRead 're
  | ServerWrite 'we
  | ServerProtocol protocol_error
  | ServerInternal string

datatype incoming_request =
    InPing
  | InIdentify
  | InGetCaps
  | InGetKeytabLen
  | InGetKey u16
  | InGet u16
  | InWrite u16 wire_value_ref
  | InObserve u16
  | InUnobserve u16

definition frame_error_of :: "frame_error \<Rightarrow> ('re, 'we) server_error fault" where
  "frame_error_of e = Fail (ServerProtocol (FrameViolation e))"

definition payload_error_of :: "payload_error \<Rightarrow> ('re, 'we) server_error fault" where
  "payload_error_of e = Fail (ServerProtocol (PayloadViolation e))"

datatype frame_sum_acc = FrameSum (sum_of: u8)

definition frame_sum_new :: "opcode \<Rightarrow> u16 \<Rightarrow> frame_sum_acc" where
  "frame_sum_new oc payload_len =
     (let be = to_be 2 payload_len in FrameSum (as_u8 oc + be ! 0 + be ! 1))"

definition sum_add_byte :: "frame_sum_acc \<Rightarrow> u8 \<Rightarrow> frame_sum_acc" where
  "sum_add_byte s b = FrameSum (sum_of s + b)"

definition sum_add_slice :: "frame_sum_acc \<Rightarrow> bytes \<Rightarrow> frame_sum_acc" where
  "sum_add_slice s bs = foldl sum_add_byte s bs"

definition sum_finish :: "frame_sum_acc \<Rightarrow> frame_error + unit" where
  "sum_finish s = (if sum_of s = 0 then Inr () else Inl (ChecksumMismatch (sum_of s)))"

section \<open>Reading fields\<close>

text \<open>\<open>stream: &mut S\<close> and \<open>sum: &mut FrameSum\<close> are the state of these operations.\<close>

type_synonym ('r, 're, 'we, 'a) read_action =
  "('r \<times> frame_sum_acc, ('re, 'we) server_error fault, 'a) action"

definition read_exact_tracked :: "('r, 're) reader \<Rightarrow> nat \<Rightarrow> ('r, 're, 'we, bytes) read_action" where
  "read_exact_tracked read_exact n s = (case s of (stream, acc) \<Rightarrow>
     case read_exact n stream of
       (Inl e, stream') \<Rightarrow> (Inl (Fail (ServerRead e)), (stream', acc))
     | (Inr buffer, stream') \<Rightarrow> (Inr buffer, (stream', sum_add_slice acc buffer)))"

function discard_exact :: "('r, 're) reader \<Rightarrow> nat \<Rightarrow> ('r, 're, 'we, unit) read_action" where
  "discard_exact read_exact left s =
     (if left \<noteq> 0 then
        (let chunk_len = min left DISCARD_CHUNK in
         case read_exact_tracked read_exact chunk_len s of
           (Inl e, s') \<Rightarrow> (Inl e, s')
         | (Inr chunk, s') \<Rightarrow> discard_exact read_exact (left - chunk_len) s')
      else (Inr (), s))"
  by pat_completeness auto
termination
  by (relation "measure (\<lambda>(read_exact, left, s). left)") (auto simp: DISCARD_CHUNK_def)

declare discard_exact.simps [simp del]

definition finish_checksum :: "('r, 're) reader \<Rightarrow> ('r, 're, 'we, unit) read_action" where
  "finish_checksum read_exact s = (case s of (stream, acc) \<Rightarrow>
     case read_exact 1 stream of
       (Inl e, stream') \<Rightarrow> (Inl (Fail (ServerRead e)), (stream', acc))
     | (Inr checksum, stream') \<Rightarrow>
         (let acc = sum_add_byte acc (checksum ! 0)
          in (res_map_err frame_error_of (sum_finish acc), (stream', acc))))"

text \<open>\<open>discard_exact\<close>, \<open>finish_checksum\<close> and \<open>return Err(...)\<close>, the rejection of every payload.\<close>

definition reject_payload ::
  "('r, 're) reader \<Rightarrow> nat \<Rightarrow> payload_error \<Rightarrow> ('r, 're, 'we, 'a) read_action" where
  "reject_payload read_exact left e =
     act_bind (discard_exact read_exact left) (\<lambda>_.
     act_bind (finish_checksum read_exact) (\<lambda>_. act_err (payload_error_of e)))"

definition read_empty_request ::
  "('r, 're) reader \<Rightarrow> opcode \<Rightarrow> u16 \<Rightarrow> incoming_request \<Rightarrow> ('r, 're, 'we, incoming_request) read_action" where
  "read_empty_request read_exact oc payload_len request =
     (if payload_len \<noteq> 0 then
        reject_payload read_exact (unat payload_len) (InvalidLength oc 0 (unat payload_len))
      else act_bind (finish_checksum read_exact) (\<lambda>_. act_ok request))"

definition read_keyref_request ::
  "('r, 're) reader \<Rightarrow> opcode \<Rightarrow> u16 \<Rightarrow> (u16 \<Rightarrow> incoming_request) \<Rightarrow> ('r, 're, 'we, incoming_request) read_action" where
  "read_keyref_request read_exact oc payload_len constructor =
     (if payload_len \<noteq> 2 then
        reject_payload read_exact (unat payload_len) (InvalidLength oc 2 (unat payload_len))
      else act_bind (read_exact_tracked read_exact 2) (\<lambda>keyref.
        act_bind (finish_checksum read_exact) (\<lambda>_. act_ok (constructor (from_be keyref)))))"

text \<open>The loop over a string that exceeds the inline buffer.\<close>

function read_oversized ::
  "('r, 're) reader \<Rightarrow> nat \<Rightarrow> utf8_stream_validator \<times> payload_error option
     \<Rightarrow> ('r, 're, 'we, utf8_stream_validator \<times> payload_error option) read_action" where
  "read_oversized read_exact remaining_bytes v s =
     (if remaining_bytes \<noteq> 0 then
        (let chunk_len = min remaining_bytes DISCARD_CHUNK in
         case read_exact_tracked read_exact chunk_len s of
           (Inl e, s') \<Rightarrow> (Inl e, s')
         | (Inr chunk, s') \<Rightarrow>
             (case feed_first chunk v of
                (Inl _, _) \<Rightarrow> (Inl Panic, s')
              | (Inr _, v') \<Rightarrow> read_oversized read_exact (remaining_bytes - chunk_len) v' s'))
      else (Inr v, s))"
  by pat_completeness auto
termination
  by (relation "measure (\<lambda>(read_exact, left, v, s). left)") (auto simp: DISCARD_CHUNK_def)

declare read_oversized.simps [simp del]

definition read_write_bool :: "('r, 're) reader \<Rightarrow> u16 \<Rightarrow> nat \<Rightarrow> ('r, 're, 'we, incoming_request) read_action" where
  "read_write_bool read_exact keyref left =
     (if left \<noteq> 1 then
        reject_payload read_exact left
          (if left < 1 then InternalLengthExceedsPayload else TrailingBytes (left - 1))
      else act_bind (read_exact_tracked read_exact 1) (\<lambda>v.
        act_bind (finish_checksum read_exact) (\<lambda>_.
          if v ! 0 = 0x00 then act_ok (InWrite keyref (WireBool False))
          else if v ! 0 = 0x01 then act_ok (InWrite keyref (WireBool True))
          else act_err (payload_error_of (InvalidBool (v ! 0))))))"

definition read_write_i64 :: "('r, 're) reader \<Rightarrow> u16 \<Rightarrow> nat \<Rightarrow> ('r, 're, 'we, incoming_request) read_action" where
  "read_write_i64 read_exact keyref left =
     (if left \<noteq> 8 then
        reject_payload read_exact left
          (if left < 8 then InternalLengthExceedsPayload else TrailingBytes (left - 8))
      else act_bind (read_exact_tracked read_exact 8) (\<lambda>v.
        act_bind (finish_checksum read_exact) (\<lambda>_. act_ok (InWrite keyref (WireI64 (from_be v))))))"

definition read_write_str ::
  "('r, 're) reader \<Rightarrow> nat \<Rightarrow> u16 \<Rightarrow> nat \<Rightarrow> ('r, 're, 'we, incoming_request) read_action" where
  "read_write_str read_exact max_str keyref left =
     (if left < 2 then reject_payload read_exact left InternalLengthExceedsPayload
      else act_bind (read_exact_tracked read_exact 2) (\<lambda>len_bytes.
        let string_len = unat (from_be len_bytes :: u16);
            remaining_string_bytes = left - 2
        in if remaining_string_bytes \<noteq> string_len then
             reject_payload read_exact remaining_string_bytes
               (if remaining_string_bytes < string_len then InternalLengthExceedsPayload
                else TrailingBytes (remaining_string_bytes - string_len))
           else if string_len \<le> max_str then
             act_bind (read_exact_tracked read_exact string_len) (\<lambda>scratch.
             act_bind (finish_checksum read_exact) (\<lambda>_.
             act_bind (act_lift (res_map_err payload_error_of (decode_wire_string scratch))) (\<lambda>v.
               act_ok (InWrite keyref (WireStr v)))))
           else
             act_bind (read_oversized read_exact string_len (validator_new, None)) (\<lambda>v.
             act_bind (finish_checksum read_exact) (\<lambda>_.
               case stream_verdict v of
                 Some e \<Rightarrow> act_err (payload_error_of e)
               | None \<Rightarrow> act_ok (InWrite keyref OversizedStr)))))"

definition read_write_request ::
  "('r, 're) reader \<Rightarrow> nat \<Rightarrow> u16 \<Rightarrow> ('r, 're, 'we, incoming_request) read_action" where
  "read_write_request read_exact max_str payload_len =
     (if payload_len < 3 then
        reject_payload read_exact (unat payload_len) (InvalidLength WRITE 3 (unat payload_len))
      else act_bind (read_exact_tracked read_exact 2) (\<lambda>keyref_bytes.
        let keyref = from_be keyref_bytes in
        act_bind (read_exact_tracked read_exact 1) (\<lambda>kind.
          case kind_from_byte (kind ! 0) of
            Inr Bool_Kind \<Rightarrow> read_write_bool read_exact keyref (unat payload_len - 3)
          | Inr I64_Kind \<Rightarrow> read_write_i64 read_exact keyref (unat payload_len - 3)
          | Inr Str_Kind \<Rightarrow> read_write_str read_exact max_str keyref (unat payload_len - 3)
          | Inl e \<Rightarrow> reject_payload read_exact (unat payload_len - 3) e)))"

text \<open>The body of a request after its header; the last arm is unreachable after \<open>validate\<close>.\<close>

definition read_request_body ::
  "('r, 're) reader \<Rightarrow> nat \<Rightarrow> opcode \<Rightarrow> u16 \<Rightarrow> ('r, 're, 'we, incoming_request) read_action" where
  "read_request_body read_exact max_str oc payload_len =
     (if oc = PING then read_empty_request read_exact oc payload_len InPing
      else if oc = IDENTIFY then read_empty_request read_exact oc payload_len InIdentify
      else if oc = GETKEYTABLEN then read_empty_request read_exact oc payload_len InGetKeytabLen
      else if oc = GETCAPS then read_empty_request read_exact oc payload_len InGetCaps
      else if oc = GETKEY then read_keyref_request read_exact oc payload_len InGetKey
      else if oc = GET then read_keyref_request read_exact oc payload_len InGet
      else if oc = OBSERVE then read_keyref_request read_exact oc payload_len InObserve
      else if oc = UNOBSERVE then read_keyref_request read_exact oc payload_len InUnobserve
      else if oc = WRITE then read_write_request read_exact max_str payload_len
      else act_err (frame_error_of (InvalidDirection oc ClientToNode)))"

definition read_request ::
  "('r, 're) reader \<Rightarrow> nat \<Rightarrow> ('r, ('re, 'we) server_error fault, incoming_request) action" where
  "read_request read_exact max_str stream =
     (case read_exact 3 stream of
        (Inl e, stream') \<Rightarrow> (Inl (Fail (ServerRead e)), stream')
      | (Inr header, stream') \<Rightarrow>
          (let oc = Opcode (header ! 0) in
           case validate oc ClientToNode of
             Inl e \<Rightarrow> (Inl (frame_error_of e), stream')
           | Inr _ \<Rightarrow>
               (let payload_len = from_be [header ! 1, header ! 2] :: u16;
                    acc = frame_sum_new oc payload_len
                in case read_request_body read_exact max_str oc payload_len (stream', acc) of
                  (res, (stream'', acc')) \<Rightarrow> (res, stream''))))"

section \<open>What an operation takes off the stream\<close>

text \<open>
  \<open>runs\<close>: with the bytes \<open>xs\<close> next on the stream, the operation takes just those, adds them to
  the sum and returns \<open>res\<close>. \<open>starves n\<close>: with fewer than \<open>n\<close> bytes pending it ends in a
  transport error. \<open>delivers n\<close>: with \<open>n\<close> bytes it succeeds and takes them.
\<close>

definition runs :: "('r \<Rightarrow> bytes) \<Rightarrow> ('r \<Rightarrow> bool) \<Rightarrow> u8 \<Rightarrow> ('r, 're, 'we, 'a) read_action \<Rightarrow> bytes \<Rightarrow>
    ('re, 'we) server_error fault + 'a \<Rightarrow> bool" where
  "runs pending valid sm m xs res \<longleftrightarrow>
     (\<forall>r ys. valid r \<and> pending r = xs @ ys \<longrightarrow>
        (\<exists>r'. m (r, FrameSum sm) = (res, (r', FrameSum (sm + frame_sum xs))) \<and> pending r' = ys \<and> valid r'))"

definition starves :: "('r \<Rightarrow> bytes) \<Rightarrow> ('r \<Rightarrow> bool) \<Rightarrow> nat \<Rightarrow> ('r, 're, 'we, 'a) read_action \<Rightarrow> bool" where
  "starves pending valid n m \<longleftrightarrow>
     (\<forall>r sm. valid r \<and> length (pending r) < n \<longrightarrow> (\<exists>e s'. m (r, sm) = (Inl (Fail (ServerRead e)), s')))"

definition delivers :: "('r \<Rightarrow> bytes) \<Rightarrow> ('r \<Rightarrow> bool) \<Rightarrow> nat \<Rightarrow> ('r, 're, 'we, 'a) read_action \<Rightarrow> bool" where
  "delivers pending valid n m \<longleftrightarrow>
     (\<forall>r sm. valid r \<and> n \<le> length (pending r) \<longrightarrow>
        (\<exists>a r' sm'. m (r, sm) = (Inr a, (r', sm')) \<and> pending r' = drop n (pending r) \<and> valid r'))"

lemma sum_add_slice_eq: "sum_add_slice s bs = FrameSum (sum_of s + frame_sum bs)"
proof (induction bs arbitrary: s)
  case (Cons b bs)
  then show ?case by (simp add: sum_add_slice_def sum_add_byte_def add.assoc)
qed (simp add: sum_add_slice_def)

lemma runs_bind:
  assumes "runs pending valid sm m xs (Inr a)" and "runs pending valid (sm + frame_sum xs) (f a) ys res"
  shows "runs pending valid sm (act_bind m f) (xs @ ys) res"
  unfolding runs_def
proof (intro allI impI, elim conjE)
  fix r zs assume "valid r" "pending r = (xs @ ys) @ zs"
  then obtain r1 where "m (r, FrameSum sm) = (Inr a, (r1, FrameSum (sm + frame_sum xs)))"
    "pending r1 = ys @ zs" "valid r1" using assms(1) unfolding runs_def by fastforce
  moreover from this obtain r2 where "f a (r1, FrameSum (sm + frame_sum xs)) =
      (res, (r2, FrameSum (sm + frame_sum xs + frame_sum ys)))" "pending r2 = zs" "valid r2"
    using assms(2) unfolding runs_def by blast
  ultimately show "\<exists>r'. act_bind m f (r, FrameSum sm) = (res, (r', FrameSum (sm + frame_sum (xs @ ys))))
      \<and> pending r' = zs \<and> valid r'"
    by (simp add: act_bind_def add.assoc)
qed

lemma runs_bind_err: "runs pending valid sm m xs (Inl e) \<Longrightarrow> runs pending valid sm (act_bind m f) xs (Inl e)"
  by (fastforce simp: runs_def act_bind_def)

lemma runs_pure: "(\<And>s. k s = (res, s)) \<Longrightarrow> runs pending valid sm k [] res"
  by (simp add: runs_def)

lemma starves_bind:
  assumes "starves pending valid i m" and "delivers pending valid i m" and "\<And>a. starves pending valid j (f a)"
  shows "starves pending valid (i + j) (act_bind m f)"
  unfolding starves_def
proof (intro allI impI, elim conjE)
  fix r sm assume r: "valid r" "length (pending r) < i + j"
  show "\<exists>e s'. act_bind m f (r, sm) = (Inl (Fail (ServerRead e)), s')"
  proof (cases "length (pending r) < i")
    case True
    then obtain e s' where "m (r, sm) = (Inl (Fail (ServerRead e)), s')"
      using assms(1) r unfolding starves_def by blast
    then show ?thesis by (simp add: act_bind_def)
  next
    case False
    then obtain a r' sm' where "m (r, sm) = (Inr a, (r', sm'))" "pending r' = drop i (pending r)" "valid r'"
      using assms(2) r unfolding delivers_def by (meson not_less)
    moreover from this obtain e s' where "f a (r', sm') = (Inl (Fail (ServerRead e)), s')"
      using assms(3) [of a] r False unfolding starves_def by (metis length_drop less_diff_conv2 add.commute not_less)
    ultimately show ?thesis by (simp add: act_bind_def)
  qed
qed

lemma starves_then: "starves pending valid i m \<Longrightarrow> starves pending valid i (act_bind m f)"
  unfolding starves_def
proof (intro allI impI)
  fix r sm assume m: "\<forall>r sm. valid r \<and> length (pending r) < i \<longrightarrow> (\<exists>e s'. m (r, sm) = (Inl (Fail (ServerRead e)), s'))"
    and "valid r \<and> length (pending r) < i"
  then obtain e s' where "m (r, sm) = (Inl (Fail (ServerRead e)), s')" by blast
  then show "\<exists>e s'. act_bind m f (r, sm) = (Inl (Fail (ServerRead e)), s')" by (simp add: act_bind_def)
qed

lemma starves_zero: "starves pending valid 0 m"
  by (simp add: starves_def)

text \<open>The result after the checksum has been added: a mismatch takes precedence.\<close>

definition verdict :: "u8 \<Rightarrow> ('re, 'we) server_error fault + 'a \<Rightarrow> ('re, 'we) server_error fault + 'a" where
  "verdict t res = (if t = 0 then res else Inl (frame_error_of (ChecksumMismatch t)))"

context byte_source
begin

lemma tracked_runs: "length xs = n \<Longrightarrow> runs pending valid sm (read_exact_tracked read_exact n) xs (Inr xs)"
  unfolding runs_def
proof (intro allI impI, elim conjE)
  fix r ys assume "length xs = n" "valid r" "pending r = xs @ ys"
  then obtain r' where "read_exact n r = (Inr xs, r')" "pending r' = ys" "valid r'"
    using read_append by metis
  then show "\<exists>r'. read_exact_tracked read_exact n (r, FrameSum sm) =
      (Inr xs, (r', FrameSum (sm + frame_sum xs))) \<and> pending r' = ys \<and> valid r'"
    by (simp add: read_exact_tracked_def sum_add_slice_eq)
qed

lemma tracked_starves: "starves pending valid n (read_exact_tracked read_exact n)"
  unfolding starves_def read_exact_tracked_def using read_short by fastforce

lemma tracked_delivers: "delivers pending valid n (read_exact_tracked read_exact n)"
  unfolding delivers_def read_exact_tracked_def using read_enough by fastforce

lemma discard_step:
  "discard_exact read_exact n = (if n = 0 then act_ok () else
     act_bind (read_exact_tracked read_exact (min n DISCARD_CHUNK))
       (\<lambda>_. discard_exact read_exact (n - min n DISCARD_CHUNK)))"
  by (rule ext, subst discard_exact.simps) (simp add: Let_def act_bind_def)

lemma discard_runs:
  "length xs = n \<Longrightarrow> runs pending valid sm (discard_exact read_exact n :: ('r, 'e, 'we, unit) read_action) xs (Inr ())"
proof (induction n arbitrary: xs sm rule: less_induct)
  case (less n)
  show ?case
  proof (cases "n = 0")
    case True
    then show ?thesis using less.prems by (subst discard_step) (simp add: runs_pure)
  next
    case False
    let ?k = "min n DISCARD_CHUNK"
    have "n - ?k < n" using False by (simp add: DISCARD_CHUNK_def)
    then have "runs pending valid (sm + frame_sum (take ?k xs)) 
        (discard_exact read_exact (n - ?k) :: ('r, 'e, 'we, unit) read_action) (drop ?k xs) (Inr ())"
      using less by simp
    then have "runs pending valid sm (act_bind (read_exact_tracked read_exact ?k)
        (\<lambda>_. discard_exact read_exact (n - ?k) :: ('r, 'e, 'we, unit) read_action))
        (take ?k xs @ drop ?k xs) (Inr ())"
      using less.prems by (intro runs_bind [OF tracked_runs]) simp_all
    then show ?thesis using False by (subst discard_step) simp
  qed
qed

lemma discard_starves: "starves pending valid n (discard_exact read_exact n :: ('r, 'e, 'we, unit) read_action)"
proof (induction n rule: less_induct)
  case (less n)
  show ?case
  proof (cases "n = 0")
    case False
    let ?k = "min n DISCARD_CHUNK"
    have "n - ?k < n" using False by (simp add: DISCARD_CHUNK_def)
    then have "starves pending valid (?k + (n - ?k)) (act_bind (read_exact_tracked read_exact ?k)
        (\<lambda>_. discard_exact read_exact (n - ?k) :: ('r, 'e, 'we, unit) read_action))"
      by (intro starves_bind tracked_starves tracked_delivers less.IH)
    then show ?thesis using False by (subst discard_step) simp
  qed (simp add: starves_zero)
qed

lemma runs_delivers:
  assumes "\<And>xs sm. length xs = n \<Longrightarrow> \<exists>a. runs pending valid sm m xs (Inr a)"
  shows "delivers pending valid n m"
  unfolding delivers_def
proof (intro allI impI, elim conjE)
  fix r sm assume r: "valid r" "n \<le> length (pending r)"
  obtain s where s: "sm = FrameSum s" by (cases sm)
  obtain a where "runs pending valid s m (take n (pending r)) (Inr a)" using assms r by fastforce
  moreover have "pending r = take n (pending r) @ drop n (pending r)" by simp
  ultimately show "\<exists>a r' sm'. m (r, sm) = (Inr a, (r', sm')) \<and> pending r' = drop n (pending r) \<and> valid r'"
    using r s unfolding runs_def by blast
qed

lemma discard_delivers: "delivers pending valid n (discard_exact read_exact n)"
  by (rule runs_delivers, rule exI, rule discard_runs)

lemma finish_runs:
  assumes "\<And>s. k s = (res, s)"
  shows "runs pending valid sm (act_bind (finish_checksum read_exact) (\<lambda>_. k)) [c] (verdict (sm + c) res)"
  unfolding runs_def
proof (intro allI impI, elim conjE)
  fix r ys assume "valid r" "pending r = [c] @ ys"
  then obtain r' where "read_exact 1 r = (Inr [c], r')" "pending r' = ys" "valid r'"
    using read_append [of r "[c]" ys] by auto
  then show "\<exists>r'. act_bind (finish_checksum read_exact) (\<lambda>_. k) (r, FrameSum sm) =
      (verdict (sm + c) res, (r', FrameSum (sm + frame_sum [c]))) \<and> pending r' = ys \<and> valid r'"
    using assms
    by (simp add: finish_checksum_def act_bind_def sum_add_byte_def sum_finish_def verdict_def Let_def)
qed

lemma finish_starves: "starves pending valid (Suc 0) (act_bind (finish_checksum read_exact) k)"
proof (rule starves_then)
  show "starves pending valid (Suc 0) (finish_checksum read_exact)"
    unfolding starves_def
  proof (intro allI impI)
    fix r sm assume "valid r \<and> length (pending r) < Suc 0"
    then obtain e r' where "read_exact 1 r = (Inl e, r')" using read_short by blast
    then show "\<exists>e s'. finish_checksum read_exact (r, sm) = (Inl (Fail (ServerRead e)), s')"
      by (simp add: finish_checksum_def)
  qed
qed

lemma reject_runs:
  "length p = n \<Longrightarrow> runs pending valid sm (reject_payload read_exact n e) (p @ [c])
     (verdict (sm + frame_sum p + c) (Inl (payload_error_of e)))"
  unfolding reject_payload_def by (intro runs_bind [OF discard_runs] finish_runs) simp_all

lemma reject_starves: "starves pending valid (Suc n) (reject_payload read_exact n e)"
  using starves_bind [OF discard_starves discard_delivers finish_starves, of n]
  unfolding reject_payload_def by simp

end

section \<open>The request a message is read as\<close>

definition wire_in :: "nat \<Rightarrow> value_ref \<Rightarrow> wire_value_ref" where
  "wire_in max_str v = (if max_str < str_len v then OversizedStr else as_wire v)"

fun incoming_of :: "nat \<Rightarrow> message_ref \<Rightarrow> incoming_request option" where
  "incoming_of max_str (Request Ping) = Some InPing"
| "incoming_of max_str (Request Identify) = Some InIdentify"
| "incoming_of max_str (Request GetKeytabLen) = Some InGetKeytabLen"
| "incoming_of max_str (Request (GetKey k)) = Some (InGetKey k)"
| "incoming_of max_str (Request (Get k)) = Some (InGet k)"
| "incoming_of max_str (Request (Write k v)) = Some (InWrite k (wire_in max_str v))"
| "incoming_of max_str (Request (Observe k)) = Some (InObserve k)"
| "incoming_of max_str (Request (Unobserve k)) = Some (InUnobserve k)"
| "incoming_of max_str CompatibilityRequest = Some InGetCaps"
| "incoming_of max_str _ = None"

lemma incoming_of_client:
  assumes "message_opcode m \<in> set client_opcodes"
  shows "\<exists>q. incoming_of max_str m = Some q"
proof (cases m)
  case (Request q)
  then show ?thesis by (cases q) simp_all
next
  case (OrdinaryResponse r)
  then show ?thesis using assms by (cases r) (simp_all add: client_opcodes_def opcode_defs)
qed (use assms in \<open>simp_all add: client_opcodes_def opcode_defs\<close>)

lemma wf_wire_in: "wf_value v \<Longrightarrow> wf_wire (wire_in max_str v)"
  by (cases v) (auto simp: wire_in_def)

text \<open>A result for a body: the request of the message the body encodes, or a payload error.\<close>

definition body_meets :: "nat \<Rightarrow> opcode \<Rightarrow> bytes \<Rightarrow> ('re, 'we) server_error fault + incoming_request \<Rightarrow> bool" where
  "body_meets max_str oc p res \<longleftrightarrow>
     (\<forall>q. res = Inr q \<longleftrightarrow> (\<exists>m. message_decode oc p = Inr m \<and> incoming_of max_str m = Some q))
     \<and> (\<forall>f. res = Inl f \<longrightarrow> (\<exists>e. f = payload_error_of e))"

definition value_meets :: "nat \<Rightarrow> u16 \<Rightarrow> bytes \<Rightarrow> ('re, 'we) server_error fault + incoming_request \<Rightarrow> bool" where
  "value_meets max_str k p res \<longleftrightarrow>
     (\<forall>q. res = Inr q \<longleftrightarrow> (\<exists>v. wf_value v \<and> encode_value v = p \<and> q = InWrite k (wire_in max_str v)))
     \<and> (\<forall>f. res = Inl f \<longrightarrow> (\<exists>e. f = payload_error_of e))"

lemma value_meets_err:
  "(\<And>v. wf_value v \<Longrightarrow> encode_value v \<noteq> p) \<Longrightarrow> value_meets max_str k p (Inl (payload_error_of e))"
  by (auto simp: value_meets_def)

lemma value_meets_ok:
  assumes "wf_value v" and "encode_value v = p" and "q = InWrite k (wire_in max_str v)"
  shows "value_meets max_str k p (Inr q)"
proof -
  have unique: "v' = v" if "wf_value v'" "encode_value v' = p" for v'
    using value_decode_forward [OF that(1), of "[]"] value_decode_forward [OF assms(1), of "[]"] that(2) assms(2)
    by simp
  have "Inr q = Inr q' \<longleftrightarrow> (\<exists>v. wf_value v \<and> encode_value v = p \<and> q' = InWrite k (wire_in max_str v))" for q'
    unfolding sum.inject assms(3) using assms(1,2) unique by blast
  then show ?thesis unfolding value_meets_def by blast
qed

context byte_source
begin

lemma write_bool_runs:
  assumes "length body = n"
  shows "\<exists>res. runs pending valid sm (read_write_bool read_exact k n :: ('r, 'e, 'we, _) read_action) (body @ [c])
      (verdict (sm + frame_sum body + c) res) \<and> value_meets max_str k (BOOL_TAG # body) res"
proof (cases "n = 1")
  case True
  then obtain b where b: "body = [b]" using assms by (auto simp: length_Suc_conv)
  define res :: "('e, 'we) server_error fault + incoming_request" where
    "res = (if b = 0x00 then Inr (InWrite k (WireBool False)) else if b = 0x01 then Inr (InWrite k (WireBool True))
       else Inl (payload_error_of (InvalidBool b)))"
  have "runs pending valid sm (read_write_bool read_exact k n :: ('r, 'e, 'we, _) read_action) (body @ [c]) (verdict (sm + frame_sum body + c) res)"
    unfolding read_write_bool_def using True b
    by (simp only: simp_thms if_False, intro runs_bind [OF tracked_runs] finish_runs) (auto simp: res_def)
  moreover have "value_meets max_str k (BOOL_TAG # body) res"
  proof -
    consider "b = 0" | "b = 1" | "b \<noteq> 0" "b \<noteq> 1" by blast
    then show ?thesis
    proof cases
      case 1
      then show ?thesis unfolding res_def by (simp, intro value_meets_ok [of "Bool False"]) (simp_all add: b wire_in_def)
    next
      case 2
      then show ?thesis unfolding res_def by (simp, intro value_meets_ok [of "Bool True"]) (simp_all add: b wire_in_def)
    next
      case 3
      then have "encode_value v \<noteq> BOOL_TAG # body" for v by (cases v) (auto simp: tag_defs b)
      then show ?thesis using 3 by (auto simp: res_def intro: value_meets_err)
    qed
  qed
  ultimately show ?thesis by blast
next
  case False
  have "encode_value v \<noteq> BOOL_TAG # body" for v
    using False assms by (cases v) (auto simp: tag_defs)
  then show ?thesis
    using False reject_runs [OF assms] by (auto simp: read_write_bool_def intro!: exI value_meets_err)
qed

lemma write_i64_runs:
  assumes "length body = n"
  shows "\<exists>res. runs pending valid sm (read_write_i64 read_exact k n :: ('r, 'e, 'we, _) read_action) (body @ [c])
      (verdict (sm + frame_sum body + c) res) \<and> value_meets max_str k (I64_TAG # body) res"
proof (cases "n = 8")
  case True
  have "runs pending valid sm (read_write_i64 read_exact k n :: ('r, 'e, 'we, _) read_action) (body @ [c])
      (verdict (sm + frame_sum body + c) (Inr (InWrite k (WireI64 (from_be body)))))"
    unfolding read_write_i64_def using True assms
    by (simp only: simp_thms if_False, intro runs_bind [OF tracked_runs] finish_runs) auto
  moreover have "value_meets max_str k (I64_TAG # body) (Inr (InWrite k (WireI64 (from_be body))))"
    using True assms by (intro value_meets_ok [of "I64 (from_be body)"]) (simp_all add: to_be_8 wire_in_def)
  ultimately show ?thesis by blast
next
  case False
  have "encode_value v \<noteq> I64_TAG # body" for v
    using False assms by (cases v) (auto simp: tag_defs)
  then show ?thesis
    using False reject_runs [OF assms] by (auto simp: read_write_i64_def intro!: exI value_meets_err)
qed

lemma oversized_step:
  "read_oversized read_exact n v = (if n = 0 then act_ok v else
     act_bind (read_exact_tracked read_exact (min n DISCARD_CHUNK)) (\<lambda>chunk.
       case feed_first chunk v of
         (Inl _, _) \<Rightarrow> act_err Panic
       | (Inr _, v') \<Rightarrow> read_oversized read_exact (n - min n DISCARD_CHUNK) v'))"
  by (rule ext, subst read_oversized.simps) (auto simp: Let_def act_bind_def split: prod.splits sum.splits)

lemma oversized_runs:
  assumes "length xs = n" and "stream_inv seen v"
  shows "\<exists>v'. runs pending valid sm (read_oversized read_exact n v :: ('r, 'e, 'we, _) read_action) xs (Inr v')
      \<and> stream_inv (seen @ xs) v'"
  using assms
proof (induction n arbitrary: xs sm seen v rule: less_induct)
  case (less n)
  show ?case
  proof (cases "n = 0")
    case True
    then show ?thesis using less.prems
      by (intro exI [of _ v] conjI) (subst oversized_step, auto intro: runs_pure)
  next
    case False
    let ?k = "min n DISCARD_CHUNK"
    obtain v1 where v1: "feed_first (take ?k xs) v = (Inr (), v1)" "stream_inv (seen @ take ?k xs) v1"
      using feed_first_inv [OF less.prems(2), of "take ?k xs"] by (metis length_take min.cobounded2 min.coboundedI2)
    have "n - ?k < n" using False by (simp add: DISCARD_CHUNK_def)
    from less.IH [OF this _ v1(2), of "drop ?k xs"] less.prems obtain v' where v':
      "runs pending valid (sm + frame_sum (take ?k xs))
        (read_oversized read_exact (n - ?k) v1 :: ('r, 'e, 'we, _) read_action) (drop ?k xs) (Inr v')"
      "stream_inv ((seen @ take ?k xs) @ drop ?k xs) v'" by fastforce
    have "runs pending valid sm (read_oversized read_exact n v :: ('r, 'e, 'we, _) read_action)
        (take ?k xs @ drop ?k xs) (Inr v')"
      using False less.prems v1 v'
      by (subst oversized_step, simp only: if_False) (intro runs_bind [OF tracked_runs], simp_all)
    then show ?thesis using v'(2) unfolding append_assoc append_take_drop_id by blast
  qed
qed

lemma write_str_runs:
  assumes "length body = n"
  shows "\<exists>res. runs pending valid sm (read_write_str read_exact max_str k n :: ('r, 'e, 'we, _) read_action)
      (body @ [c]) (verdict (sm + frame_sum body + c) res) \<and> value_meets max_str k (STR_TAG # body) res"
proof (cases "n < 2")
  case True
  have "encode_value v \<noteq> STR_TAG # body" for v
    using True assms by (cases v) (auto simp: tag_defs)
  then show ?thesis
    using True reject_runs [OF assms] by (auto simp: read_write_str_def intro!: exI value_meets_err)
next
  case False
  then obtain hi lo s where body: "body = [hi, lo] @ s"
    using assms by (auto simp: not_less Suc_le_length_iff eval_nat_numeral)
  let ?n = "unat (from_be [hi, lo] :: u16)"
  have n: "n - 2 = length s" using assms body by simp
  define inner :: "('r, 'e, 'we, incoming_request) read_action" where "inner =
       (if length s \<noteq> ?n then
             reject_payload read_exact (length s)
               (if length s < ?n then InternalLengthExceedsPayload else TrailingBytes (length s - ?n))
           else if ?n \<le> max_str then
             act_bind (read_exact_tracked read_exact ?n) (\<lambda>scratch.
             act_bind (finish_checksum read_exact) (\<lambda>_.
             act_bind (act_lift (res_map_err payload_error_of (decode_wire_string scratch))) (\<lambda>v.
               act_ok (InWrite k (WireStr v)))))
           else
             act_bind (read_oversized read_exact ?n (validator_new, None)) (\<lambda>v.
             act_bind (finish_checksum read_exact) (\<lambda>_.
               case stream_verdict v of
                 Some e \<Rightarrow> act_err (payload_error_of e)
               | None \<Rightarrow> act_ok (InWrite k OversizedStr))))"
  have outer: "runs pending valid sm (read_write_str read_exact max_str k n) (body @ [c]) res"
    if "runs pending valid (sm + frame_sum [hi, lo]) inner (s @ [c]) res" for res
    unfolding body append_assoc read_write_str_def using False that n
    by (simp only: if_False) (intro runs_bind [OF tracked_runs], simp_all add: inner_def Let_def)
  have enc: "encode_value v = STR_TAG # body \<longleftrightarrow> v = Str s \<and> length s = ?n" if "wf_value v" for v
  proof (cases v)
    case (Str t)
    have "encode_str16 t = [hi, lo] @ s \<longleftrightarrow> t = s \<and> length s = ?n"
      using that Str be_2_length [of s hi lo] by (auto simp: encode_str16_def wf_str_def to_be_2_eq)
    then show ?thesis using Str body by simp
  qed (auto simp: tag_defs)
  let ?t = "sm + frame_sum [hi, lo] + frame_sum s + c"
  have sums: "?t = sm + frame_sum body + c" by (simp add: body add.assoc)
  have "\<exists>res. runs pending valid (sm + frame_sum [hi, lo]) inner (s @ [c]) (verdict ?t res)
      \<and> value_meets max_str k (STR_TAG # body) res"
  proof -
    consider "length s \<noteq> ?n" | "length s = ?n" "?n \<le> max_str" | "length s = ?n" "max_str < ?n" by linarith
    then show ?thesis
    proof cases
      case 1
      then show ?thesis using enc reject_runs [of s "length s"]
        by (auto simp: inner_def intro!: exI value_meets_err)
    next
      case 2
      define res :: "('e, 'we) server_error fault + incoming_request" where
        "res = res_map (\<lambda>v. InWrite k (WireStr v)) (res_map_err payload_error_of (decode_wire_string s))"
      have "act_bind (act_lift (res_map_err payload_error_of (decode_wire_string s)))
          (\<lambda>v. act_ok (InWrite k (WireStr v))) st = (res, st)" for st :: "'r \<times> frame_sum_acc"
        by (cases "decode_wire_string s") (simp_all add: res_def)
      then have "runs pending valid (sm + frame_sum [hi, lo]) inner (s @ [c]) (verdict ?t res)"
        unfolding inner_def using 2
        by (simp only: simp_thms if_False if_True) (intro runs_bind [OF tracked_runs] finish_runs, auto)
      moreover have "value_meets max_str k (STR_TAG # body) res"
      proof (cases "is_utf8 s \<and> 0 \<notin> set s")
        case True
        then have "wf_value (Str s)" using 2 unat_u16_le [of "from_be [hi, lo]"] by (simp add: wf_str_def)
        moreover have "decode_wire_string s = Inr s" using True by (simp add: decode_wire_string_Inr)
        ultimately show ?thesis using 2 enc [of "Str s"]
          by (auto simp: res_def wire_in_def intro!: value_meets_ok [of "Str s"])
      next
        case False
        then obtain e where "decode_wire_string s = Inl e"
          using decode_wire_string_Inr by (cases "decode_wire_string s") auto
        moreover have "wf_value v \<Longrightarrow> encode_value v \<noteq> STR_TAG # body" for v
          using enc [of v] False by (auto simp: wf_str_def)
        ultimately show ?thesis by (simp add: res_def value_meets_err)
      qed
      ultimately show ?thesis by blast
    next
      case 3
      then have nle: "\<not> ?n \<le> max_str" by simp
      obtain v where v: "runs pending valid (sm + frame_sum [hi, lo])
          (read_oversized read_exact ?n (validator_new, None) :: ('r, 'e, 'we, _) read_action) s (Inr v)"
        "stream_inv s v"
        using oversized_runs [OF 3(1) stream_inv_new] unfolding append_Nil by blast
      define res :: "('e, 'we) server_error fault + incoming_request" where
        "res = (case stream_verdict v of Some e \<Rightarrow> Inl (payload_error_of e) | None \<Rightarrow> Inr (InWrite k OversizedStr))"
      have "runs pending valid (sm + frame_sum [hi, lo]) inner (s @ [c]) (verdict ?t res)"
        unfolding inner_def
        by (simp only: nle 3(1) simp_thms if_False if_True)
          (intro runs_bind [OF v(1)] finish_runs, simp add: res_def split: option.split)
      moreover have "value_meets max_str k (STR_TAG # body) res"
      proof (cases "is_utf8 s \<and> 0 \<notin> set s")
        case True
        then have "wf_value (Str s)" using 3 unat_u16_le [of "from_be [hi, lo]"] by (simp add: wf_str_def)
        then show ?thesis using True 3 enc [of "Str s"] stream_verdict_inv [OF v(2)]
          by (auto simp: res_def wire_in_def intro!: value_meets_ok [of "Str s"])
      next
        case False
        then obtain e where "stream_verdict v = Some e" using stream_verdict_inv [OF v(2)] by auto
        moreover have "wf_value v \<Longrightarrow> encode_value v \<noteq> STR_TAG # body" for v
          using enc [of v] False by (auto simp: wf_str_def)
        ultimately show ?thesis by (simp add: res_def value_meets_err)
      qed
      ultimately show ?thesis by blast
    qed
  qed
  then show ?thesis using outer unfolding sums by blast
qed

end

section \<open>Requests\<close>

lemma small_u16: "w = 0 \<longleftrightarrow> unat w = 0" "w = 2 \<longleftrightarrow> unat w = 2" "w < 3 \<longleftrightarrow> unat w < 3" for w :: u16
  by (simp_all add: word_unat_eq_iff word_less_nat_alt)

lemma body_meets_empty:
  assumes "\<And>m. message_decode oc p = Inr m \<longleftrightarrow> p = [] \<and> m = m0" and "incoming_of max_str m0 = Some q"
  shows "body_meets max_str oc p (if p = [] then Inr q else Inl (payload_error_of e))"
  using assms by (auto simp: body_meets_def)

lemma body_meets_keyref:
  fixes ctor :: "u16 \<Rightarrow> request_ref"
  assumes "\<And>m. message_decode oc p = Inr m \<longleftrightarrow> (\<exists>k. p = to_be 2 k \<and> m = Request (ctor k))"
    and "\<And>k. incoming_of max_str (Request (ctor k)) = Some (con k)"
  shows "body_meets max_str oc p (if length p = 2 then Inr (con (from_be p)) else Inl (payload_error_of e))"
proof (cases "length p = 2")
  case True
  then have "p = to_be 2 (from_be p :: u16)" using to_be_from_be [of p, where ?'a = 16] by simp
  then obtain k :: u16 where p: "p = to_be 2 k" by blast
  then have "message_decode oc p = Inr m \<longleftrightarrow> m = Request (ctor k)" for m
    unfolding assms(1) by (auto simp: p to_be_inj)
  moreover have "from_be p = k" by (simp add: p from_be_2)
  ultimately show ?thesis using True assms(2) by (auto simp: body_meets_def)
next
  case False
  with assms show ?thesis by (auto simp: body_meets_def)
qed

lemma write_body_meets:
  assumes "length p < 3"
  shows "body_meets max_str WRITE p (Inl (payload_error_of e))"
proof -
  have "3 \<le> length (to_be 2 k @ encode_value v)" for k :: u16 and v by (cases v) simp_all
  with assms have "p \<noteq> to_be 2 k @ encode_value v" for k :: u16 and v by (metis not_less)
  then show ?thesis by (auto simp: body_meets_def message_decode_def request_opcode_defs decoder_Inr)
qed

lemma value_body_meets:
  assumes "value_meets max_str (from_be [k0, k1]) (tag # body) res"
  shows "body_meets max_str WRITE ([k0, k1] @ tag # body) res"
proof -
  have "message_decode WRITE ([k0, k1] @ tag # body) = Inr m \<longleftrightarrow>
      (\<exists>v. wf_value v \<and> encode_value v = tag # body \<and> m = Request (Write (from_be [k0, k1]) v))" for m
  proof -
    have "[k0, k1] @ tag # body = to_be 2 k @ encode_value v \<longleftrightarrow> k = from_be [k0, k1] \<and> encode_value v = tag # body"
      for k :: u16 and v
    proof -
      have "[k0, k1] = to_be 2 k \<longleftrightarrow> k = from_be [k0, k1]" by (metis to_be_2 from_be_2)
      moreover have "[k0, k1] @ tag # body = to_be 2 k @ encode_value v \<longleftrightarrow>
          [k0, k1] = to_be 2 k \<and> tag # body = encode_value v"
        by (rule append_eq_append_conv) simp
      ultimately show ?thesis by (simp only: eq_commute)
    qed
    then show ?thesis by (auto simp: message_decode_def request_opcode_defs decode_write_Inr)
  qed
  with assms show ?thesis by (auto simp: body_meets_def value_meets_def)
qed

context byte_source
begin

lemma empty_runs:
  assumes "length p = unat payload_len"
  shows "runs pending valid sm (read_empty_request read_exact oc payload_len q) (p @ [c])
      (verdict (sm + frame_sum p + c)
        (if p = [] then Inr q else Inl (payload_error_of (InvalidLength oc 0 (length p)))))"
  using assms reject_runs [OF assms] finish_runs [of "act_ok q" "Inr q" sm c]
  by (auto simp: read_empty_request_def small_u16)

lemma keyref_runs:
  assumes "length p = unat payload_len"
  shows "runs pending valid sm (read_keyref_request read_exact oc payload_len con) (p @ [c])
      (verdict (sm + frame_sum p + c)
        (if length p = 2 then Inr (con (from_be p)) else Inl (payload_error_of (InvalidLength oc 2 (length p)))))"
proof (cases "length p = 2")
  case True
  then have "\<not> payload_len \<noteq> 2" using assms by (simp add: small_u16)
  then show ?thesis unfolding read_keyref_request_def using True
    by (simp only: if_False if_True) (intro runs_bind [OF tracked_runs] finish_runs, simp_all)
next
  case False
  then show ?thesis using assms reject_runs [OF assms] by (simp add: read_keyref_request_def small_u16)
qed

lemma write_request_runs:
  assumes "length p = unat payload_len"
  shows "\<exists>res. runs pending valid sm (read_write_request read_exact max_str payload_len :: ('r, 'e, 'we, _) read_action)
      (p @ [c]) (verdict (sm + frame_sum p + c) res) \<and> body_meets max_str WRITE p res"
proof (cases "length p < 3")
  case True
  then show ?thesis using assms reject_runs [OF assms] write_body_meets [OF True]
    by (auto simp: read_write_request_def small_u16 intro!: exI)
next
  case False
  then obtain k0 k1 tag body where p: "p = [k0, k1] @ [tag] @ body"
    by (auto simp: not_less Suc_le_length_iff eval_nat_numeral)
  let ?k = "from_be [k0, k1] :: u16"
  have n: "unat payload_len - 3 = length body" and long: "\<not> payload_len < 3"
    using assms p False by (simp_all add: small_u16)
  define inner :: "('r, 'e, 'we, _) read_action" where "inner =
      (case kind_from_byte tag of
         Inr Bool_Kind \<Rightarrow> read_write_bool read_exact ?k (length body)
       | Inr I64_Kind \<Rightarrow> read_write_i64 read_exact ?k (length body)
       | Inr Str_Kind \<Rightarrow> read_write_str read_exact max_str ?k (length body)
       | Inl e \<Rightarrow> reject_payload read_exact (length body) e)"
  let ?sm = "sm + frame_sum [k0, k1] + frame_sum [tag]"
  have outer: "runs pending valid sm (read_write_request read_exact max_str payload_len) (p @ [c]) res"
    if "runs pending valid ?sm inner (body @ [c]) res" for res
    unfolding p append_assoc read_write_request_def n using long that
    by (simp only: if_False) (intro runs_bind [OF tracked_runs],
        simp_all add: inner_def Let_def, intro runs_bind [OF tracked_runs, of "[tag]", simplified], simp_all)
  have sums: "?sm + frame_sum body + c = sm + frame_sum p + c" by (simp add: p add.assoc)
  have "\<exists>res. runs pending valid ?sm inner (body @ [c]) (verdict (?sm + frame_sum body + c) res)
      \<and> value_meets max_str ?k (tag # body) res"
  proof (cases "kind_from_byte tag")
    case (Inl e)
    have "encode_value v \<noteq> tag # body" for v
      using Inl by (cases v) (auto simp: decode_forward)
    then show ?thesis using Inl reject_runs [of body "length body"]
      by (auto simp: inner_def intro!: exI value_meets_err)
  next
    case (Inr kind)
    then have tag: "tag = kind_as_byte kind" by (simp add: kind_from_byte_Inr)
    show ?thesis
      using Inr tag write_bool_runs [of body "length body" ?sm ?k c max_str]
        write_i64_runs [of body "length body" ?sm ?k c max_str] write_str_runs [of body "length body" ?sm max_str ?k c]
      by (cases kind) (simp_all add: inner_def kind_as_byte_def)
  qed
  then obtain res where res: "runs pending valid ?sm inner (body @ [c]) (verdict (sm + frame_sum p + c) res)"
    "value_meets max_str ?k (tag # body) res" unfolding sums by blast
  then show ?thesis using outer [OF res(1)] value_body_meets [OF res(2)] unfolding p by auto
qed

lemma body_runs:
  assumes "oc \<in> set client_opcodes" and "length p = unat payload_len"
  shows "\<exists>res. runs pending valid sm (read_request_body read_exact max_str oc payload_len :: ('r, 'e, 'we, _) read_action)
      (p @ [c]) (verdict (sm + frame_sum p + c) res) \<and> body_meets max_str oc p res"
proof -
  note decode = message_decode_def request_opcode_defs decoder_Inr
  note body = read_request_body_def request_opcode_defs
  have empty: ?thesis
    if "read_request_body read_exact max_str oc payload_len =
        (read_empty_request read_exact oc payload_len q :: ('r, 'e, 'we, _) read_action)"
      and "\<And>m. message_decode oc p = Inr m \<longleftrightarrow> p = [] \<and> m = m0" and "incoming_of max_str m0 = Some q" for q m0
    unfolding that(1) using empty_runs [OF assms(2)] body_meets_empty [OF that(2,3)] by blast
  have keyref: ?thesis
    if "read_request_body read_exact max_str oc payload_len =
        (read_keyref_request read_exact oc payload_len con :: ('r, 'e, 'we, _) read_action)"
      and "\<And>m. message_decode oc p = Inr m \<longleftrightarrow> (\<exists>k. p = to_be 2 k \<and> m = Request (ctor k))"
      and "\<And>k. incoming_of max_str (Request (ctor k)) = Some (con k)" for con ctor
    unfolding that(1) using keyref_runs [OF assms(2)] body_meets_keyref [OF that(2,3)] by blast
  from assms(1) consider "oc = PING" | "oc = IDENTIFY" | "oc = GETKEYTABLEN" | "oc = GETKEY" | "oc = GET"
    | "oc = WRITE" | "oc = OBSERVE" | "oc = UNOBSERVE" | "oc = GETCAPS"
    by (auto simp: client_opcodes_def)
  then show ?thesis
  proof cases
    case 1
    show ?thesis by (rule empty [of InPing "Request Ping"]) (simp_all add: 1 body decode)
  next
    case 2
    show ?thesis by (rule empty [of InIdentify "Request Identify"]) (simp_all add: 2 body decode)
  next
    case 3
    show ?thesis by (rule empty [of InGetKeytabLen "Request GetKeytabLen"]) (simp_all add: 3 body decode)
  next
    case 4
    show ?thesis by (rule keyref [of InGetKey GetKey]) (simp_all add: 4 body decode)
  next
    case 5
    show ?thesis by (rule keyref [of InGet Get]) (simp_all add: 5 body decode)
  next
    case 6
    then show ?thesis using write_request_runs [OF assms(2), of sm max_str c] by (simp add: body)
  next
    case 7
    show ?thesis by (rule keyref [of InObserve Observe]) (simp_all add: 7 body decode)
  next
    case 8
    show ?thesis by (rule keyref [of InUnobserve Unobserve]) (simp_all add: 8 body decode)
  next
    case 9
    show ?thesis by (rule empty [of InGetCaps CompatibilityRequest]) (simp_all add: 9 body decode)
  qed
qed

text \<open>An incomplete body ends in a transport error, whatever has arrived of it.\<close>

lemma starves_tracked:
  assumes "\<And>a. length a = n \<Longrightarrow> starves pending valid j (f a)"
  shows "starves pending valid (n + j) (act_bind (read_exact_tracked read_exact n) f)"
  unfolding starves_def
proof (intro allI impI, elim conjE)
  fix r sm assume r: "valid r" "length (pending r) < n + j"
  show "\<exists>e s'. act_bind (read_exact_tracked read_exact n) f (r, sm) = (Inl (Fail (ServerRead e)), s')"
  proof (cases "length (pending r) < n")
    case True
    then obtain e r' where "read_exact n r = (Inl e, r')" using read_short r(1) by blast
    then show ?thesis by (simp add: act_bind_def read_exact_tracked_def)
  next
    case False
    then obtain r' where r': "read_exact n r = (Inr (take n (pending r)), r')" "pending r' = drop n (pending r)" "valid r'"
      using read_enough [OF r(1), of n] by auto
    have "starves pending valid j (f (take n (pending r)))" using False by (intro assms) simp
    moreover have "length (pending r') < j" using r False r'(2) by simp
    ultimately show ?thesis using r' unfolding starves_def
      by (simp add: act_bind_def read_exact_tracked_def)
  qed
qed

lemma starves_tracked_sum:
  assumes "m = n + j" and "\<And>a. length a = n \<Longrightarrow> starves pending valid j (f a)"
  shows "starves pending valid m (act_bind (read_exact_tracked read_exact n) f)"
  using starves_tracked [OF assms(2)] assms(1) by simp

lemma oversized_starves:
  assumes "stream_inv seen v"
  shows "starves pending valid n (read_oversized read_exact n v :: ('r, 'e, 'we, _) read_action)"
  using assms
proof (induction n arbitrary: seen v rule: less_induct)
  case (less n)
  show ?case
  proof (cases "n = 0")
    case False
    let ?k = "min n DISCARD_CHUNK"
    have smaller: "n - ?k < n" using False by (simp add: DISCARD_CHUNK_def)
    have "starves pending valid n (act_bind (read_exact_tracked read_exact ?k) (\<lambda>chunk.
       case feed_first chunk v of
         (Inl _, _) \<Rightarrow> act_err Panic
       | (Inr _, v') \<Rightarrow> (read_oversized read_exact (n - ?k) v' :: ('r, 'e, 'we, _) read_action)))"
    proof (rule starves_tracked_sum [of _ _ "n - ?k"])
      fix chunk :: bytes assume "length chunk = ?k"
      then obtain v1 where "feed_first chunk v = (Inr (), v1)" "stream_inv (seen @ chunk) v1"
        using feed_first_inv [OF less.prems, of chunk] by auto
      then show "starves pending valid (n - ?k) (case feed_first chunk v of (Inl _, _) \<Rightarrow> act_err Panic
         | (Inr _, v') \<Rightarrow> (read_oversized read_exact (n - ?k) v' :: ('r, 'e, 'we, _) read_action))"
        using less.IH [OF smaller] by simp
    qed simp
    then show ?thesis using False by (subst oversized_step) simp
  qed (simp add: starves_zero)
qed

lemma oversized_delivers:
  "delivers pending valid n (read_oversized read_exact n (validator_new, None) :: ('r, 'e, 'we, _) read_action)"
  using oversized_runs [OF _ stream_inv_new] by (intro runs_delivers) blast

lemma write_value_starves:
  "starves pending valid (Suc n) (read_write_bool read_exact k n :: ('r, 'e, 'we, _) read_action)"
  "starves pending valid (Suc n) (read_write_i64 read_exact k n :: ('r, 'e, 'we, _) read_action)"
  using reject_starves [of n]
  by (auto simp: read_write_bool_def read_write_i64_def intro!: starves_tracked_sum [of _ _ "Suc 0"] finish_starves)

lemma write_str_starves:
  "starves pending valid (Suc n) (read_write_str read_exact max_str k n :: ('r, 'e, 'we, _) read_action)"
proof (cases "n < 2")
  case True
  then show ?thesis using reject_starves by (simp add: read_write_str_def)
next
  case False
  have inner: "starves pending valid (Suc (n - 2))
      (if n - 2 \<noteq> m then reject_payload read_exact (n - 2) e
       else if m \<le> max_str then act_bind (read_exact_tracked read_exact m)
         (\<lambda>a. act_bind (finish_checksum read_exact) (f a))
       else act_bind (read_oversized read_exact m (validator_new, None))
         (\<lambda>a. act_bind (finish_checksum read_exact) (g a)) :: ('r, 'e, 'we, incoming_request) read_action)" for m e f g
  proof -
    consider "n - 2 \<noteq> m" | "n - 2 = m" "m \<le> max_str" | "n - 2 = m" "\<not> m \<le> max_str" by blast
    then show ?thesis
    proof cases
      case 1
      then show ?thesis by (simp add: reject_starves)
    next
      case 2
      then show ?thesis by (simp, intro starves_tracked_sum [of _ _ "Suc 0"] finish_starves) simp
    next
      case 3
      have "starves pending valid (m + Suc 0) (act_bind (read_oversized read_exact m (validator_new, None))
          (\<lambda>a. act_bind (finish_checksum read_exact) (g a)) :: ('r, 'e, 'we, incoming_request) read_action)"
        by (rule starves_bind [OF oversized_starves [OF stream_inv_new] oversized_delivers finish_starves])
      with 3 show ?thesis by simp
    qed
  qed
  show ?thesis
    unfolding read_write_str_def Let_def if_not_P [OF False]
  proof (rule starves_tracked_sum [of _ _ "Suc (n - 2)"])
    show "Suc n = 2 + Suc (n - 2)" using False by simp
  qed (rule inner)
qed

lemma body_starves:
  assumes "oc \<in> set client_opcodes"
  shows "starves pending valid (Suc (unat payload_len))
     (read_request_body read_exact max_str oc payload_len :: ('r, 'e, 'we, _) read_action)"
proof -
  have empty: "starves pending valid (Suc (unat payload_len))
      (read_empty_request read_exact oc payload_len q :: ('r, 'e, 'we, _) read_action)" for q
    by (cases "payload_len = 0")
      (simp_all add: read_empty_request_def reject_starves finish_starves)
  have keyref: "starves pending valid (Suc (unat payload_len))
      (read_keyref_request read_exact oc payload_len con :: ('r, 'e, 'we, _) read_action)" for con
    using reject_starves
    by (auto simp: read_keyref_request_def intro!: starves_tracked_sum [of _ _ "Suc 0"] finish_starves)
  have "starves pending valid (Suc (unat payload_len))
      (read_write_request read_exact max_str payload_len :: ('r, 'e, 'we, _) read_action)"
  proof (cases "payload_len < 3")
    case True
    then show ?thesis using reject_starves by (simp add: read_write_request_def)
  next
    case False
    then have n: "Suc (unat payload_len) = 2 + (1 + Suc (unat payload_len - 3))" by (simp add: small_u16)
    show ?thesis
      unfolding read_write_request_def n Let_def using False
      by (simp only: if_False) (intro starves_tracked, auto intro: write_value_starves write_str_starves reject_starves
          simp del: add_Suc_right split: sum.split value_kind.split)
  qed
  then show ?thesis using assms empty keyref
    by (auto simp: client_opcodes_def read_request_body_def request_opcode_defs)
qed

end

section \<open>The whole request\<close>

context byte_source
begin

lemma frame_sum_new_eq: "frame_sum_new (Opcode o1) (from_be [hi, lo]) = FrameSum (o1 + frame_sum [hi, lo])"
  by (simp add: frame_sum_new_def to_be_2 Let_def)

text \<open>
  With three bytes pending the opcode decides: an opcode that is none of a client's is
  rejected before anything else is read.
\<close>

lemma read_request_header:
  assumes "valid r" and "pending r = [o1, hi, lo] @ q"
  obtains r1 where "pending r1 = q" "valid r1"
    "read_request read_exact max_str r =
       (case validate (Opcode o1) ClientToNode of
          Inl e \<Rightarrow> (Inl (frame_error_of e), r1)
        | Inr _ \<Rightarrow> (case read_request_body read_exact max_str (Opcode o1) (from_be [hi, lo])
            (r1, FrameSum (o1 + frame_sum [hi, lo])) of (res, (r', acc')) \<Rightarrow> (res, r')))"
proof -
  obtain r1 where "read_exact 3 r = (Inr [o1, hi, lo], r1)" "pending r1 = q" "valid r1"
    using read_append [OF assms] by (auto simp: numeral_3_eq_3)
  then show thesis
    by (intro that [of r1]) (simp_all add: read_request_def frame_sum_new_eq [simplified] Let_def split: sum.split)
qed

lemma read_request_whole:
  assumes "valid r" and "pending r = o1 # hi # lo # p @ [c] @ rest"
    and "length p = unat (from_be [hi, lo] :: u16)" and "Opcode o1 \<in> set client_opcodes"
  shows "\<exists>r' res. (read_request read_exact max_str r :: (('e, 'we) server_error fault + incoming_request) \<times> 'r) =
      (verdict (frame_sum (o1 # hi # lo # p @ [c])) res, r')
    \<and> body_meets max_str (Opcode o1) p res \<and> pending r' = rest \<and> valid r'"
proof -
  have ok: "validate (Opcode o1) ClientToNode = Inr ()"
    using assms(4) by (simp add: validate_iff opcodes_of_def)
  have pend: "pending r = [o1, hi, lo] @ (p @ [c] @ rest)" using assms(2) by simp
  let ?sm = "o1 + frame_sum [hi, lo]"
  obtain r1 where r1: "pending r1 = p @ [c] @ rest" "valid r1"
    "(read_request read_exact max_str r :: (('e, 'we) server_error fault + incoming_request) \<times> 'r) =
       (case read_request_body read_exact max_str (Opcode o1) (from_be [hi, lo])
            (r1, FrameSum ?sm) of (res, (r', acc')) \<Rightarrow> (res, r'))"
    using read_request_header [OF assms(1) pend] ok by auto
  obtain res where res: "runs pending valid ?sm (read_request_body read_exact max_str (Opcode o1) (from_be [hi, lo])
        :: ('r, 'e, 'we, _) read_action) (p @ [c]) (verdict (?sm + frame_sum p + c) res)"
    "body_meets max_str (Opcode o1) p res"
    using body_runs [OF assms(4,3), of ?sm max_str c] by blast
  from res(1) r1 obtain r' where "read_request_body read_exact max_str (Opcode o1) (from_be [hi, lo]) (r1, FrameSum ?sm) =
      (verdict (?sm + frame_sum p + c) res, (r', FrameSum (?sm + frame_sum (p @ [c]))))" "pending r' = rest" "valid r'"
    unfolding runs_def by auto
  with r1(3) res(2) show ?thesis
    by (intro exI [of _ r'] exI [of _ res]) (simp add: add.assoc)
qed

lemma read_request_incomplete:
  assumes "valid r" and "pending r = [o1, hi, lo] @ q" and "length q < 1 + unat (from_be [hi, lo] :: u16)"
    and "Opcode o1 \<in> set client_opcodes"
  shows "\<exists>e r'. (read_request read_exact max_str r :: (('e, 'we) server_error fault + incoming_request) \<times> 'r) =
      (Inl (Fail (ServerRead e)), r')"
proof -
  have ok: "validate (Opcode o1) ClientToNode = Inr ()"
    using assms(4) by (simp add: validate_iff opcodes_of_def)
  obtain r1 where "pending r1 = q" "valid r1" and eq:
    "(read_request read_exact max_str r :: (('e, 'we) server_error fault + incoming_request) \<times> 'r) =
       (case read_request_body read_exact max_str (Opcode o1) (from_be [hi, lo])
            (r1, FrameSum (o1 + frame_sum [hi, lo])) of (res, (r', acc')) \<Rightarrow> (res, r'))"
    using read_request_header [OF assms(1,2)] ok by auto
  with body_starves [OF assms(4)] assms(3) obtain e s' where
    "read_request_body read_exact max_str (Opcode o1) (from_be [hi, lo]) (r1, FrameSum (o1 + frame_sum [hi, lo])) =
      (Inl (Fail (ServerRead e)) :: ('e, 'we) server_error fault + incoming_request, s')"
    unfolding starves_def by fastforce
  then show ?thesis unfolding eq by (cases s') auto
qed

lemma read_request_short:
  assumes "valid r" and "length (pending r) < 3"
  shows "\<exists>e r'. (read_request read_exact max_str r :: (('e, 'we) server_error fault + incoming_request) \<times> 'r) =
      (Inl (Fail (ServerRead e)), r')"
proof -
  obtain e r' where "read_exact 3 r = (Inl e, r')" using read_short [OF assms] by blast
  then show ?thesis by (simp add: read_request_def)
qed

text \<open>Every stream is in one of five situations, which fix the result.\<close>

lemma read_request_situations:
  fixes res :: "('e, 'we) server_error fault + incoming_request"
  assumes "valid r" and run: "read_request read_exact max_str r = (res, r')"
  obtains (short) e where "length (pending r) < 3" "res = Inl (Fail (ServerRead e))"
    | (opcode) o1 hi lo q e where "pending r = [o1, hi, lo] @ q" "validate (Opcode o1) ClientToNode = Inl e"
        "res = Inl (frame_error_of e)"
    | (incomplete) o1 hi lo q e where "pending r = [o1, hi, lo] @ q" "Opcode o1 \<in> set client_opcodes"
        "length q < 1 + unat (from_be [hi, lo] :: u16)" "res = Inl (Fail (ServerRead e))"
    | (checksum) o1 hi lo p c rest where "pending r = (o1 # hi # lo # p @ [c]) @ rest"
        "Opcode o1 \<in> set client_opcodes" "length p = unat (from_be [hi, lo] :: u16)"
        "frame_sum (o1 # hi # lo # p @ [c]) \<noteq> 0"
        "res = Inl (frame_error_of (ChecksumMismatch (frame_sum (o1 # hi # lo # p @ [c]))))" "pending r' = rest" "valid r'"
    | (frame) oc p rest where "pending r = frame_bytes oc p @ rest" "oc \<in> set client_opcodes"
        "length p \<le> 65535" "body_meets max_str oc p res" "pending r' = rest" "valid r'"
proof (cases "length (pending r) < 3")
  case True
  then obtain e r1 where "(read_request read_exact max_str r :: (('e, 'we) server_error fault + incoming_request) \<times> 'r) =
      (Inl (Fail (ServerRead e)), r1)" using read_request_short [OF assms(1)] by blast
  with True run short show thesis by auto
next
  case False
  then obtain o1 hi lo q where pend: "pending r = [o1, hi, lo] @ q"
    by (auto simp: not_less Suc_le_length_iff eval_nat_numeral)
  let ?n = "unat (from_be [hi, lo] :: u16)"
  show thesis
  proof (cases "validate (Opcode o1) ClientToNode")
    case (Inl e)
    obtain r1 where "(read_request read_exact max_str r :: (('e, 'we) server_error fault + incoming_request) \<times> 'r) =
        (Inl (frame_error_of e), r1)"
      by (rule read_request_header [OF assms(1) pend, where max_str = max_str]) (simp add: Inl)
    with Inl show thesis using run opcode [OF pend] by simp
  next
    case (Inr u)
    then have oc: "Opcode o1 \<in> set client_opcodes" using validate_iff [of "Opcode o1" ClientToNode] by (simp add: opcodes_of_def)
    show thesis
    proof (cases "length q < 1 + ?n")
      case True
      from read_request_incomplete [OF assms(1) pend True oc, where max_str = max_str and ?'we = 'we] run
      show thesis using incomplete [OF pend oc True] by auto
    next
      case False
      define p c rest where "p = take ?n q" and "c = q ! ?n" and "rest = drop (Suc ?n) q"
      have p: "length p = ?n" using False by (simp add: p_def)
      have "q = p @ [c] @ rest" using False id_take_nth_drop [of ?n q] by (simp add: p_def c_def rest_def)
      then have pend: "pending r = o1 # hi # lo # p @ [c] @ rest" using pend by simp
      from read_request_whole [OF assms(1) this p oc, where max_str = max_str and ?'we = 'we] run
      obtain res' where res': "res = verdict (frame_sum (o1 # hi # lo # p @ [c])) res'"
        "body_meets max_str (Opcode o1) p res'" "pending r' = rest" "valid r'" by auto
      show thesis
      proof (cases "frame_sum (o1 # hi # lo # p @ [c]) = 0")
        case True
        have hl: "length p \<le> 65535" "[hi, lo] = to_be 2 (word_of_nat (length p) :: u16)"
          using p by (simp_all add: be_2_length)
        have "as_u8 (Opcode o1) + frame_sum [hi, lo] + frame_sum p + c = 0"
          using True by (simp add: add.assoc)
        with hl have "c = compute_checksum (Opcode o1) p" by (simp only: checksum_unique)
        then have "pending r = frame_bytes (Opcode o1) p @ rest"
          using pend hl by (simp add: frame_bytes_def flip: hl(2))
        then show thesis using frame oc hl(1) res' True by (simp add: verdict_def)
      next
        case wrong: False
        then show thesis using checksum [of o1 hi lo p c rest] pend oc p res' by (simp add: verdict_def)
      qed
    qed
  qed
qed

lemma read_request_message:
  assumes "valid r" and "wire_message ClientToNode m" and "incoming_of max_str m = Some q"
    and "pending r = message_bytes m @ rest"
  shows "\<exists>r'. (read_request read_exact max_str r :: (('e, 'we) server_error fault + incoming_request) \<times> 'r) = (Inr q, r')
      \<and> pending r' = rest \<and> valid r'"
proof -
  let ?oc = "message_opcode m" and ?p = "encode_payload m"
  have len: "length ?p \<le> 65535" and oc: "?oc \<in> set client_opcodes"
    using assms(2) by (simp_all add: wire_message_def opcodes_of_def)
  obtain o1 where o1: "?oc = Opcode o1" by (cases ?oc)
  obtain hi lo where hl: "to_be 2 (word_of_nat (length ?p) :: u16) = [hi, lo]" by (simp add: to_be_2_eq)
  then have p: "length ?p = unat (from_be [hi, lo] :: u16)" using len be_2_length by metis
  have fb: "frame_bytes ?oc ?p = o1 # hi # lo # ?p @ [compute_checksum ?oc ?p]" using o1 by (simp add: frame_bytes_def hl)
  then have pend: "pending r = o1 # hi # lo # ?p @ [compute_checksum ?oc ?p] @ rest"
    using assms(4) by (simp add: message_bytes_def)
  have "frame_sum (o1 # hi # lo # ?p @ [compute_checksum ?oc ?p]) = 0"
    using frame_sum_frame_bytes [of ?oc ?p] fb by simp
  with read_request_whole [OF assms(1) pend p oc [unfolded o1], where max_str = max_str and ?'we = 'we]
  obtain r' res where res: "(read_request read_exact max_str r :: (('e, 'we) server_error fault + incoming_request) \<times> 'r) = (res, r')"
    "body_meets max_str ?oc ?p res" "pending r' = rest" "valid r'" by (auto simp: verdict_def o1)
  have "message_decode ?oc ?p = Inr m" using assms(2) by (intro message_decode_encode) (simp add: wire_message_def)
  with res(2) assms(3) have "res = Inr q" unfolding body_meets_def by blast
  with res show ?thesis by blast
qed

lemma read_request_Inr:
  assumes "valid r" and "read_request read_exact max_str r = (Inr q, r')"
  obtains m where "wire_message ClientToNode m" "incoming_of max_str m = Some q"
    "pending r = message_bytes m @ pending r'" "valid r'"
  using assms
proof (cases rule: read_request_situations [OF assms, case_names short opcode incomplete checksum frame])
  case (frame oc p rest)
  then obtain m where "message_decode oc p = Inr m" "incoming_of max_str m = Some q"
    by (auto simp: body_meets_def)
  with frame show thesis
    by (intro that [of m]) (auto simp: message_decode_layout wire_message_def message_bytes_def opcodes_of_def)
qed simp_all

end

text \<open>
  C16: over any transport that keeps the contract of \<open>ByteRead\<close>, the field-by-field reader of
  the embassy server succeeds exactly when the frame of a well-formed request message is next
  on the stream, returns that request (a string longer than the inline buffer as
  \<open>OversizedStr\<close>) and leaves the stream right behind the frame.
\<close>

theorem read_request_iff:
  assumes "byte_source read_exact pending valid" and "valid r"
  shows "(\<exists>r'. read_request read_exact max_str r = (Inr q, r') \<and> pending r' = rest) \<longleftrightarrow>
     (\<exists>m. wire_message ClientToNode m \<and> incoming_of max_str m = Some q \<and> pending r = message_bytes m @ rest)"
  using byte_source.read_request_Inr [OF assms, of max_str q] byte_source.read_request_message [OF assms, of _ max_str q rest]
  by metis

lemma read_request_iff_witness:
  "\<exists>r'. read_request slice_read_exact 1
      \<lparr>slice_bytes = message_bytes (Request (Write 7 (Str [0x41, 0x42]))) @ [0x3F], slice_cursor = 0, slice_max_chunk = 1\<rparr>
      = (Inr (InWrite 7 OversizedStr), r') \<and> slice_pending r' = [0x3F]"
  unfolding read_request_iff [OF slice.byte_source_axioms, OF slice_valid_one]
  by (intro exI [of _ "Request (Write 7 (Str [0x41, 0x42]))"])
    (simp add: slice_pending_def wire_message_def opcodes_of_def client_opcodes_def wf_str_def is_utf8_ascii wire_in_def)


lemma unknown_opcode_read:
  "read_request list_read 8 [0x5A, 0, 0, 0] =
     (Inl (frame_error_of (UnknownOpcode (Opcode 0x5A))) :: (unit, unit) server_error fault + incoming_request, [0])"
  by (simp add: read_request_def list_read_def validate_def is_reserved_def opcode_class_def is_defined_def)


end
