(* ===== verification/Embassy_Server.thy ===== *)
theory Embassy_Server
  imports Embassy_Key Embassy_Reader
begin

text \<open>
  The server of \<open>qup-embassy\<close> (\<open>Server\<close>, the helpers of \<open>__private\<close> and the \<open>run!\<close> macro in
  \<open>qup-embassy/src/lib.rs\<close>): registry lookups, the frames it sends, request handling,
  notifications and the serving loop. The static keys live in a world together with the
  stream, because other tasks may set keys whenever the server awaits: \<open>read_exact\<close> and
  \<open>write_all\<close> are parameters acting on the world.
\<close>

section \<open>The registry\<close>

definition BASE_CAPS :: rstr where "BASE_CAPS = ascii ''PkIiCcSsGgWwNkUk''"
definition OBSERVABLE_CAPS :: rstr where "OBSERVABLE_CAPS = ascii ''PkIiCcSsGgWwNkUk!''"
definition DEFAULT_NODE_ID :: rstr where "DEFAULT_NODE_ID = ascii ''qup-embassy''"

definition ERROR_UNKNOWN_KEYREF :: u8 where "ERROR_UNKNOWN_KEYREF = 0x01"
definition ERROR_NOT_ALLOWED :: u8 where "ERROR_NOT_ALLOWED = 0x02"
definition ERROR_TYPE_MISMATCH :: u8 where "ERROR_TYPE_MISMATCH = 0x03"

record 'g server =
  srv_has_observable :: bool
  srv_keys :: "'g ekey list"
  srv_notifier :: 'g

definition server_new :: "'g embassy_lib \<Rightarrow> bool \<Rightarrow> 'g ekey list \<Rightarrow> 'g server" where
  "server_new lib has_observable_keys keys =
     \<lparr>srv_has_observable = has_observable_keys, srv_keys = keys, srv_notifier = lib_new_signal lib\<rparr>"

definition u16_checked_add :: "u16 \<Rightarrow> u16 \<Rightarrow> u16 option" where
  "u16_checked_add a b = (if 65535 < unat a + unat b then None else Some (a + b))"

definition caps :: "'g server \<Rightarrow> rstr" where
  "caps srv = (if srv_has_observable srv then OBSERVABLE_CAPS else BASE_CAPS)"

definition attach_notifiers :: "'g server \<Rightarrow> 'g server" where
  "attach_notifiers srv = srv\<lparr>srv_keys := map attach_notifier (srv_keys srv)\<rparr>"

definition find_slot :: "'g server \<Rightarrow> u16 \<Rightarrow> nat option" where
  "find_slot srv keyref = position (\<lambda>k. key_keyref k = keyref) (srv_keys srv)"

text \<open>\<open>False\<close> is the panic of \<open>debug_assert!\<close> on a duplicate key reference.\<close>

fun unique_keyrefs :: "'g ekey list \<Rightarrow> bool" where
  "unique_keyrefs [] = True"
| "unique_keyrefs (k # others) =
     (list_all (\<lambda>other. key_keyref k \<noteq> key_keyref other) others \<and> unique_keyrefs others)"

definition debug_assert_unique_keyrefs :: "bool \<Rightarrow> 'g server \<Rightarrow> bool" where
  "debug_assert_unique_keyrefs debug_assertions srv \<longleftrightarrow> \<not> debug_assertions \<or> unique_keyrefs (srv_keys srv)"

definition key_count :: "'g server \<Rightarrow> u16" where
  "key_count srv =
     foldl (\<lambda>max_keyref k. max max_keyref (u16_saturating_add (key_keyref k) 1)) 0 (srv_keys srv)"

definition validate_wire_string :: "rstr \<Rightarrow> string + unit" where
  "validate_wire_string v =
     (if 65535 < length v then Inl ''node ID exceeds QUP str16 wire length''
      else if 0x00 \<in> set v then Inl ''node ID contains NUL byte''
      else Inr ())"

section \<open>The sizes chosen by \<open>run!\<close>\<close>

text \<open>The loops of \<open>__private\<close> over a slice by index.\<close>

function max_from :: "('a::linorder) list \<Rightarrow> nat \<Rightarrow> 'a \<Rightarrow> 'a" where
  "max_from vs index m =
     (if index < length vs then max_from vs (index + 1) (if m < vs ! index then vs ! index else m) else m)"
  by pat_completeness auto
termination by (relation "measure (\<lambda>(vs, index, m). length vs - index)") auto

declare max_from.simps [simp del]

definition max_usize :: "nat list \<Rightarrow> nat" where "max_usize vs = max_from vs 0 0"
definition max_u16 :: "u16 list \<Rightarrow> u16" where "max_u16 vs = max_from vs 0 0"

function any_from :: "bool list \<Rightarrow> nat \<Rightarrow> bool" where
  "any_from vs index =
     (if index < length vs then (if vs ! index then True else any_from vs (index + 1)) else False)"
  by pat_completeness auto
termination by (relation "measure (\<lambda>(vs, index). length vs - index)") auto

declare any_from.simps [simp del]

definition any :: "bool list \<Rightarrow> bool" where "any vs = any_from vs 0"

definition str16_wire_len :: "rstr \<Rightarrow> nat" where "str16_wire_len v = 2 + length v"

definition key_wire_len :: "'g ekey \<Rightarrow> nat" where "key_wire_len k = type_MAX_WIRE_LEN (key_type k)"

definition key_max_string_len :: "'g ekey \<Rightarrow> nat" where
  "key_max_string_len k = type_MAX_STR_LEN (key_type k)"

definition key_key_payload_len :: "'g ekey \<Rightarrow> nat" where
  "key_key_payload_len k = 1 + str16_wire_len (key_name k)"

definition run_max_value :: "'g ekey list \<Rightarrow> nat" where
  "run_max_value keys = max_usize (0 # map key_wire_len keys)"

definition run_max_str :: "'g ekey list \<Rightarrow> nat" where
  "run_max_str keys = max_usize (0 # map key_max_string_len keys)"

definition run_has_observable :: "'g ekey list \<Rightarrow> bool" where
  "run_has_observable keys = any (False # map key_observable keys)"

definition run_max_response :: "'g ekey list \<Rightarrow> nat" where
  "run_max_response keys = max_usize [run_max_value keys, 2, 1]"

definition run_server :: "'g embassy_lib \<Rightarrow> 'g ekey list \<Rightarrow> 'g server" where
  "run_server lib keys = server_new lib (run_has_observable keys) keys"

section \<open>Sending frames\<close>

record ('g, 's) world =
  w_server :: "'g server"
  w_stream :: 's

type_synonym ('w, 're, 'we, 'a) srv_action = "('w, ('re, 'we) server_error fault, 'a) action"

definition send_bytes :: "('w, 'we) writer \<Rightarrow> bytes \<Rightarrow> ('w, 're, 'we, unit) srv_action" where
  "send_bytes write_all bs = act_map_err (\<lambda>e. Fail (ServerWrite e)) (write_all bs)"

definition send_frame_to :: "('w, 'we) writer \<Rightarrow> opcode \<Rightarrow> bytes \<Rightarrow> ('w, 're, 'we, unit) srv_action" where
  "send_frame_to write_all oc payload =
     (case u16_try_from (length payload) of
        None \<Rightarrow> act_err (Fail (ServerInternal ''response payload exceeded u16 wire length''))
      | Some payload_len \<Rightarrow>
          let be = to_be 2 payload_len;
              header = [as_u8 oc, be ! 0, be ! 1];
              checksum = [compute_checksum oc payload]
          in act_bind (send_bytes write_all header) (\<lambda>_.
             act_bind (send_bytes write_all payload) (\<lambda>_. send_bytes write_all checksum)))"

text \<open>\<open>expect\<close> panics when the segments together exceed a payload.\<close>

definition compute_segmented_checksum :: "opcode \<Rightarrow> bytes list \<Rightarrow> ('re, 'we) server_error fault + u8" where
  "compute_segmented_checksum oc payload_segments =
     (let payload_len = foldl (\<lambda>acc segment. acc + length segment) 0 payload_segments in
      case u16_try_from payload_len of
        None \<Rightarrow> Inl Panic
      | Some payload_len \<Rightarrow>
          let be = to_be 2 payload_len;
              acc = as_u8 oc;
              acc = acc + be ! 0;
              acc = acc + be ! 1;
              acc = foldl (\<lambda>acc segment. foldl (+) acc segment) acc payload_segments
          in Inr (0 - acc))"

definition send_str16_response :: "('w, 'we) writer \<Rightarrow> opcode \<Rightarrow> rstr \<Rightarrow> ('w, 're, 'we, unit) srv_action" where
  "send_str16_response write_all oc v =
     (case u16_try_from (length v) of
        None \<Rightarrow> act_err (Fail (ServerInternal ''response string exceeded u16 wire length''))
      | Some string_len \<Rightarrow>
          (case u16_checked_add string_len 2 of
             None \<Rightarrow> act_err (Fail (ServerInternal ''response string exceeded u16 wire length''))
           | Some payload_len \<Rightarrow>
               let payload_len_bytes = to_be 2 payload_len;
                   string_len_bytes = to_be 2 string_len;
                   header = [as_u8 oc, payload_len_bytes ! 0, payload_len_bytes ! 1]
               in act_bind (act_lift (compute_segmented_checksum oc [string_len_bytes, v])) (\<lambda>checksum.
                  act_bind (send_bytes write_all header) (\<lambda>_.
                  act_bind (send_bytes write_all string_len_bytes) (\<lambda>_.
                  act_bind (send_bytes write_all v) (\<lambda>_. send_bytes write_all [checksum]))))))"

definition send_key_response :: "('w, 'we) writer \<Rightarrow> 'g ekey \<Rightarrow> ('w, 're, 'we, unit) srv_action" where
  "send_key_response write_all k =
     (case u16_try_from (length (key_name k)) of
        None \<Rightarrow> act_err (Fail (ServerInternal ''key name exceeded u16 wire length''))
      | Some string_len \<Rightarrow>
          (case u16_checked_add string_len 3 of
             None \<Rightarrow> act_err (Fail (ServerInternal ''key name exceeded u16 wire length''))
           | Some payload_len \<Rightarrow>
               let payload_len_bytes = to_be 2 payload_len;
                   flags = [keyflags k];
                   string_len_bytes = to_be 2 string_len
               in act_bind (act_lift (compute_segmented_checksum KEY [flags, string_len_bytes, key_name k])) (\<lambda>checksum.
                  let header = [as_u8 KEY, payload_len_bytes ! 0, payload_len_bytes ! 1] in
                  act_bind (send_bytes write_all header) (\<lambda>_.
                  act_bind (send_bytes write_all flags) (\<lambda>_.
                  act_bind (send_bytes write_all string_len_bytes) (\<lambda>_.
                  act_bind (send_bytes write_all (key_name k)) (\<lambda>_. send_bytes write_all [checksum])))))))"

definition send_void_key_response :: "('w, 'we) writer \<Rightarrow> ('w, 're, 'we, unit) srv_action" where
  "send_void_key_response write_all = send_frame_to write_all KEY [0x00, 0x00, 0x00]"

definition send_error :: "('w, 'we) writer \<Rightarrow> u8 \<Rightarrow> ('w, 're, 'we, unit) srv_action" where
  "send_error write_all code = send_frame_to write_all ERROR [code]"

section \<open>Handling a request\<close>

text \<open>
  The locals of \<open>run\<close> beside the world: \<open>observed\<close>, \<open>seen_generation\<close> and \<open>response_payload\<close>.
\<close>

record ('g, 's) serving =
  sv_world :: "('g, 's) world"
  sv_observed :: "bool list"
  sv_seen :: "u32 list"
  sv_payload :: bytes

abbreviation sv_server :: "('g, 's) serving \<Rightarrow> 'g server" where
  "sv_server r \<equiv> w_server (sv_world r)"

definition sv_key :: "('g, 's) serving \<Rightarrow> nat \<Rightarrow> 'g ekey" where
  "sv_key r index = srv_keys (sv_server r) ! index"

type_synonym ('g, 's, 're, 'we, 'a) handler = "(('g, 's) serving, ('re, 'we) server_error fault, 'a) action"

text \<open>Calls that use the stream only, and calls of a key that use \<open>response_payload\<close>.\<close>

definition on_world :: "(('g, 's) world, 're, 'we, 'a) srv_action \<Rightarrow> ('g, 's, 're, 'we, 'a) handler" where
  "on_world m r = (case m (sv_world r) of (res, w) \<Rightarrow> (res, r\<lparr>sv_world := w\<rparr>))"

definition encode_key_value :: "nat \<Rightarrow> (('g, 's) serving, wire_value_error fault, nat) action" where
  "encode_key_value index r =
     (case encode_current_value (sv_key r index) (sv_payload r) of
        (res, payload) \<Rightarrow> (res, r\<lparr>sv_payload := payload\<rparr>))"

definition write_key ::
  "'g embassy_lib \<Rightarrow> nat \<Rightarrow> wire_value_ref \<Rightarrow> (('g, 's) serving, wire_value_error fault, nat) action" where
  "write_key lib index v r =
     (case write_and_encode lib v ((sv_key r index, srv_notifier (sv_server r)), sv_payload r) of
        (res, ((k, notifier), payload)) \<Rightarrow>
          (res, r\<lparr>sv_world := (sv_world r)\<lparr>w_server := (sv_server r)\<lparr>
                     srv_keys := (srv_keys (sv_server r))[index := k], srv_notifier := notifier\<rparr>\<rparr>,
                   sv_payload := payload\<rparr>))"

definition fill_payload :: "bytes \<Rightarrow> ('g, 's, 're, 'we, unit) handler" where
  "fill_payload src r =
     (case write_front src (sv_payload r) of (res, payload) \<Rightarrow> (res, r\<lparr>sv_payload := payload\<rparr>))"

text \<open>\<open>send_frame(stream, opcode, &response_payload[..len])\<close>.\<close>

definition send_payload ::
  "(('g, 's) world, 'we) writer \<Rightarrow> opcode \<Rightarrow> nat \<Rightarrow> ('g, 's, 're, 'we, unit) handler" where
  "send_payload write_all oc len r =
     (if length (sv_payload r) < len then (Inl Panic, r)
      else on_world (send_frame_to write_all oc (take len (sv_payload r))) r)"

definition mark_seen :: "nat \<Rightarrow> ('g, 's) serving \<Rightarrow> ('g, 's) serving" where
  "mark_seen index r = r\<lparr>sv_seen := (sv_seen r)[index := key_generation (sv_key r index)]\<rparr>"

definition answer_get_key ::
  "(('g, 's) world, 'we) writer \<Rightarrow> u16 \<Rightarrow> ('g, 's, 're, 'we, unit) handler" where
  "answer_get_key write_all keyref r =
     (if key_count (sv_server r) \<le> keyref then on_world (send_error write_all ERROR_UNKNOWN_KEYREF) r
      else case find_slot (sv_server r) keyref of
        Some index \<Rightarrow> on_world (send_key_response write_all (sv_key r index)) r
      | None \<Rightarrow> on_world (send_void_key_response write_all) r)"

definition answer_get ::
  "(('g, 's) world, 'we) writer \<Rightarrow> u16 \<Rightarrow> ('g, 's, 're, 'we, unit) handler" where
  "answer_get write_all keyref r =
     (if key_count (sv_server r) \<le> keyref then on_world (send_error write_all ERROR_UNKNOWN_KEYREF) r
      else case find_slot (sv_server r) keyref of
        Some index \<Rightarrow>
          if \<not> key_readable (sv_key r index) then on_world (send_error write_all ERROR_NOT_ALLOWED) r
          else (case encode_key_value index r of
              (Inl Panic, r') \<Rightarrow> (Inl Panic, r')
            | (Inl (Fail _), r') \<Rightarrow> (Inl (Fail (ServerInternal ''stored value could not be encoded'')), r')
            | (Inr len, r') \<Rightarrow> send_payload write_all VALUE len r')
      | None \<Rightarrow> on_world (send_error write_all ERROR_NOT_ALLOWED) r)"

definition answer_write ::
  "'g embassy_lib \<Rightarrow> (('g, 's) world, 'we) writer \<Rightarrow> u16 \<Rightarrow> wire_value_ref \<Rightarrow> ('g, 's, 're, 'we, unit) handler" where
  "answer_write lib write_all keyref v r =
     (if key_count (sv_server r) \<le> keyref then on_world (send_error write_all ERROR_UNKNOWN_KEYREF) r
      else case find_slot (sv_server r) keyref of
        Some index \<Rightarrow>
          if \<not> key_writable (sv_key r index) then on_world (send_error write_all ERROR_NOT_ALLOWED) r
          else (case write_key lib index v r of
              (Inl Panic, r') \<Rightarrow> (Inl Panic, r')
            | (Inr len, r') \<Rightarrow> send_payload write_all WRITTEN len r'
            | (Inl (Fail TypeMismatch), r') \<Rightarrow> on_world (send_error write_all ERROR_TYPE_MISMATCH) r'
            | (Inl (Fail ValueTooLarge), r') \<Rightarrow> on_world (send_error write_all ERROR_TYPE_MISMATCH) r'
            | (Inl (Fail ValueContainsNul), r') \<Rightarrow> on_world (send_error write_all ERROR_TYPE_MISMATCH) r')
      | None \<Rightarrow> on_world (send_error write_all ERROR_NOT_ALLOWED) r)"

definition answer_observe ::
  "(('g, 's) world, 'we) writer \<Rightarrow> u16 \<Rightarrow> ('g, 's, 're, 'we, unit) handler" where
  "answer_observe write_all keyref r =
     (if key_count (sv_server r) \<le> keyref then on_world (send_error write_all ERROR_UNKNOWN_KEYREF) r
      else case find_slot (sv_server r) keyref of
        Some index \<Rightarrow>
          if \<not> key_observable (sv_key r index) then on_world (send_error write_all ERROR_NOT_ALLOWED) r
          else let r = r\<lparr>sv_observed := (sv_observed r)[index := True]\<rparr>;
                   r = mark_seen index r
               in on_world (send_frame_to write_all OK []) r
      | None \<Rightarrow> on_world (send_error write_all ERROR_NOT_ALLOWED) r)"

definition answer_unobserve ::
  "(('g, 's) world, 'we) writer \<Rightarrow> u16 \<Rightarrow> ('g, 's, 're, 'we, unit) handler" where
  "answer_unobserve write_all keyref r =
     (if key_count (sv_server r) \<le> keyref then on_world (send_error write_all ERROR_UNKNOWN_KEYREF) r
      else let r = (case find_slot (sv_server r) keyref of
                      Some index \<Rightarrow> mark_seen index (r\<lparr>sv_observed := (sv_observed r)[index := False]\<rparr>)
                    | None \<Rightarrow> r)
           in on_world (send_frame_to write_all OK []) r)"

definition handle_request ::
  "'g embassy_lib \<Rightarrow> (('g, 's) world, 'we) writer \<Rightarrow> rstr \<Rightarrow> incoming_request \<Rightarrow> ('g, 's, 're, 'we, unit) handler" where
  "handle_request lib write_all node_id request =
     (case request of
        InPing \<Rightarrow> on_world (send_frame_to write_all OK [])
      | InIdentify \<Rightarrow> on_world (send_str16_response write_all IDENTIFIED node_id)
      | InGetCaps \<Rightarrow> (\<lambda>r. on_world (send_str16_response write_all CAPS (caps (sv_server r))) r)
      | InGetKeytabLen \<Rightarrow>
          (\<lambda>r. act_bind (fill_payload (to_be 2 (key_count (sv_server r))))
                 (\<lambda>_. send_payload write_all KEYTABLEN 2) r)
      | InGetKey keyref \<Rightarrow> answer_get_key write_all keyref
      | InGet keyref \<Rightarrow> answer_get write_all keyref
      | InWrite keyref v \<Rightarrow> answer_write lib write_all keyref v
      | InObserve keyref \<Rightarrow> answer_observe write_all keyref
      | InUnobserve keyref \<Rightarrow> answer_unobserve write_all keyref)"

section \<open>Notifications and the serving loop\<close>

text \<open>The body of the loop of \<open>flush_notifications\<close> for one index.\<close>

definition flush_key :: "(('g, 's) world, 'we) writer \<Rightarrow> nat \<Rightarrow> ('g, 's, 're, 'we, unit) handler" where
  "flush_key write_all index r =
     (if \<not> sv_observed r ! index \<or> \<not> key_observable (sv_key r index) then (Inr (), r)
      else let generation = key_generation (sv_key r index) in
        if generation = sv_seen r ! index then (Inr (), r)
        else let r = r\<lparr>sv_seen := (sv_seen r)[index := generation]\<rparr> in
          act_bind (fill_payload (to_be 2 (key_keyref (sv_key r index))))
            (\<lambda>_. send_payload write_all CHANGED 2) r)"

fun flush_keys :: "(('g, 's) world, 'we) writer \<Rightarrow> nat list \<Rightarrow> ('g, 's, 're, 'we, unit) handler" where
  "flush_keys write_all [] = act_ok ()"
| "flush_keys write_all (index # rest) =
     act_bind (flush_key write_all index) (\<lambda>_. flush_keys write_all rest)"

definition flush_notifications :: "(('g, 's) world, 'we) writer \<Rightarrow> ('g, 's, 're, 'we, unit) handler" where
  "flush_notifications write_all r =
     (if \<not> srv_has_observable (sv_server r) then (Inr (), r)
      else flush_keys write_all [0..<length (srv_keys (sv_server r))] r)"

definition read_server_request ::
  "(('g, 's) world, 're) reader \<Rightarrow> nat \<Rightarrow> ('g, 's, 're, 'we, incoming_request) handler" where
  "read_server_request read_exact max_str = on_world (read_request read_exact max_str)"

text \<open>\<open>Either::First\<close>, and the branch of a server without observable keys.\<close>

definition serve_request ::
  "'g embassy_lib \<Rightarrow> (('g, 's) world, 're) reader \<Rightarrow> (('g, 's) world, 'we) writer \<Rightarrow> nat \<Rightarrow> rstr
     \<Rightarrow> ('g, 's, 're, 'we, unit) handler" where
  "serve_request lib read_exact write_all max_str node_id =
     act_bind (read_server_request read_exact max_str) (\<lambda>request.
     act_bind (handle_request lib write_all node_id request) (\<lambda>_ r.
       if srv_has_observable (sv_server r) then flush_notifications write_all r else (Inr (), r)))"

text \<open>
  \<open>Either::Second\<close>: \<open>Some w\<close> is the outcome of \<open>select\<close> in which the wait for the notifier
  completes while the read is pending; \<open>w\<close> is the world in which that read was dropped.
\<close>

definition serve_notified ::
  "'g embassy_lib \<Rightarrow> (('g, 's) world, 'we) writer \<Rightarrow> ('g, 's) world \<Rightarrow> ('g, 's, 're, 'we, unit) handler" where
  "serve_notified lib write_all w r =
     (case lib_wait lib (srv_notifier (w_server w)) of
        None \<Rightarrow> (Inr (), r)
      | Some notifier \<Rightarrow>
          flush_notifications write_all
            (r\<lparr>sv_world := w\<lparr>w_server := (w_server w)\<lparr>srv_notifier := notifier\<rparr>\<rparr>\<rparr>))"

text \<open>
  The loop for as many turns as there are outcomes of \<open>select\<close>; it ends earlier only with an
  error.
\<close>

type_synonym ('g, 's) select_outcome = "('g, 's) world \<Rightarrow> ('g, 's) world option"

fun serve_loop ::
  "'g embassy_lib \<Rightarrow> (('g, 's) world, 're) reader \<Rightarrow> (('g, 's) world, 'we) writer \<Rightarrow> nat \<Rightarrow> rstr
     \<Rightarrow> ('g, 's) select_outcome list \<Rightarrow> ('g, 's, 're, 'we, unit) handler" where
  "serve_loop lib read_exact write_all max_str node_id [] = act_ok ()"
| "serve_loop lib read_exact write_all max_str node_id (sel # sels) =
     act_bind
       (\<lambda>r. if srv_has_observable (sv_server r) then
              (case sel (sv_world r) of
                 None \<Rightarrow> serve_request lib read_exact write_all max_str node_id r
               | Some w \<Rightarrow> serve_notified lib write_all w r)
            else serve_request lib read_exact write_all max_str node_id r)
       (\<lambda>_. serve_loop lib read_exact write_all max_str node_id sels)"

definition serving_start :: "('g, 's) world \<Rightarrow> nat \<Rightarrow> ('g, 's) serving" where
  "serving_start w max_response =
     (let n = length (srv_keys (w_server w)) in
      \<lparr>sv_world = w, sv_observed = replicate n False, sv_seen = replicate n 0,
       sv_payload = replicate max_response 0\<rparr>)"

definition run_embassy_server ::
  "bool \<Rightarrow> 'g embassy_lib \<Rightarrow> (('g, 's) world, 're) reader \<Rightarrow> (('g, 's) world, 'we) writer \<Rightarrow> nat \<Rightarrow> nat
     \<Rightarrow> rstr \<Rightarrow> ('g, 's) select_outcome list \<Rightarrow> ('g, 's) world
     \<Rightarrow> (('re, 'we) server_error fault + unit) \<times> ('g, 's) serving" where
  "run_embassy_server debug_assertions lib read_exact write_all max_str max_response node_id sels w =
     (case validate_wire_string node_id of
        Inl e \<Rightarrow> (Inl (Fail (ServerInternal e)), serving_start w max_response)
      | Inr _ \<Rightarrow>
          let w = w\<lparr>w_server := attach_notifiers (w_server w)\<rparr> in
          if \<not> debug_assert_unique_keyrefs debug_assertions (w_server w)
          then (Inl Panic, serving_start w max_response)
          else serve_loop lib read_exact write_all max_str node_id sels (serving_start w max_response))"

text \<open>The macro \<open>run!\<close>: the sizes of the server and the default node ID when none is given.\<close>

definition qup_run ::
  "bool \<Rightarrow> 'g embassy_lib \<Rightarrow> (('g, 's) world, 're) reader \<Rightarrow> (('g, 's) world, 'we) writer \<Rightarrow> rstr option
     \<Rightarrow> 'g ekey list \<Rightarrow> ('g, 's) select_outcome list \<Rightarrow> ('g, 's) world
     \<Rightarrow> (('re, 'we) server_error fault + unit) \<times> ('g, 's) serving" where
  "qup_run debug_assertions lib read_exact write_all node_id keys sels w =
     run_embassy_server debug_assertions lib read_exact write_all (run_max_str keys) (run_max_response keys)
       (case node_id of None \<Rightarrow> DEFAULT_NODE_ID | Some given \<Rightarrow> given) sels
       (w\<lparr>w_server := run_server lib keys\<rparr>)"

end
