(* ===== verification/Embassy_Env.thy ===== *)
theory Embassy_Env
  imports Embassy_Server
begin

text \<open>
  The environment of the embassy server as a contract: a stream that delivers and accepts
  bytes in order, while other tasks may set keys at every await. The lemmas say what local
  updates keep of the registry, and that every \<open>send_*\<close> operation writes exactly one frame of
  the protocol.
\<close>

section \<open>Registries\<close>

definition key_static :: "'g ekey \<Rightarrow> rstr \<times> u16 \<times> perm \<times> key_type \<times> bool" where
  "key_static k = (key_name k, key_keyref k, key_perm k, key_type k, key_notifier k)"

definition srv_static :: "'g server \<Rightarrow> bool \<times> (rstr \<times> u16 \<times> perm \<times> key_type \<times> bool) list" where
  "srv_static srv = (srv_has_observable srv, map key_static (srv_keys srv))"

text \<open>
  A registry that \<open>run!\<close> builds with response buffer \<open>max_resp\<close>: typed keys whose name and
  value fit a frame, unique references, observable keys attached to the notifier.
\<close>

definition key_fits :: "nat \<Rightarrow> 'g ekey \<Rightarrow> bool" where
  "key_fits max_resp k \<longleftrightarrow> key_ok k \<and> length (key_name k) \<le> 65532
     \<and> key_wire_len k \<le> max_resp \<and> key_wire_len k \<le> 65535"

definition server_ok :: "nat \<Rightarrow> 'g server \<Rightarrow> bool" where
  "server_ok max_resp srv \<longleftrightarrow> 2 \<le> max_resp
     \<and> (\<forall>k \<in> set (srv_keys srv). key_fits max_resp k \<and> (key_observable k \<longrightarrow> key_notifier k))
     \<and> (srv_has_observable srv \<longleftrightarrow> (\<exists>k \<in> set (srv_keys srv). key_observable k))"

text \<open>Another task calls \<open>try_set\<close> on a key with a value of its type.\<close>

definition set_local :: "'g embassy_lib \<Rightarrow> nat \<Rightarrow> key_value \<Rightarrow> 'g server \<Rightarrow> 'g server" where
  "set_local lib i v srv =
     (case try_set lib v (srv_keys srv ! i, srv_notifier srv) of
        (_, (k, notifier)) \<Rightarrow> srv\<lparr>srv_keys := (srv_keys srv)[i := k], srv_notifier := notifier\<rparr>)"

inductive local_step :: "'g embassy_lib \<Rightarrow> 'g server \<Rightarrow> 'g server \<Rightarrow> bool" for lib where
  "i < length (srv_keys srv) \<Longrightarrow> value_inhabits (key_type (srv_keys srv ! i)) v
     \<Longrightarrow> local_step lib srv (set_local lib i v srv)"

abbreviation local_steps :: "'g embassy_lib \<Rightarrow> 'g server \<Rightarrow> 'g server \<Rightarrow> bool" where
  "local_steps lib \<equiv> (local_step lib)\<^sup>*\<^sup>*"

definition srv_ready :: "'g embassy_lib \<Rightarrow> 'g server \<Rightarrow> bool" where
  "srv_ready lib srv \<longleftrightarrow> lib_wait lib (srv_notifier srv) \<noteq> None"

text \<open>Storing a value, as \<open>try_set\<close> and \<open>write_and_encode\<close> do.\<close>

definition srv_store :: "'g embassy_lib \<Rightarrow> nat \<Rightarrow> key_value \<Rightarrow> 'g server \<Rightarrow> 'g server" where
  "srv_store lib i v srv = srv\<lparr>srv_keys := (srv_keys srv)[i := key_store lib v (srv_keys srv ! i)],
     srv_notifier := notifier_after lib (srv_keys srv ! i) (srv_notifier srv)\<rparr>"

lemma set_local_eq:
  "set_local lib i v srv = (case value_validate v of Inl _ \<Rightarrow> srv | Inr _ \<Rightarrow> srv_store lib i v srv)"
  by (cases "value_validate v") (simp_all add: set_local_def try_set_eq srv_store_def)

lemma srv_store_simps [simp]:
  "length (srv_keys (srv_store lib i v srv)) = length (srv_keys srv)"
  "srv_has_observable (srv_store lib i v srv) = srv_has_observable srv"
  by (simp_all add: srv_store_def)

lemma srv_store_nth:
  "j < length (srv_keys srv) \<Longrightarrow> srv_keys (srv_store lib i v srv) ! j =
     (if i = j then key_store lib v (srv_keys srv ! i) else srv_keys srv ! j)"
  by (simp add: srv_store_def)

lemma key_store_static: "key_static (key_store lib v k) = key_static k"
  by (simp add: key_static_def)

lemma srv_store_static: "srv_static (srv_store lib i v srv) = srv_static srv"
proof (cases "i < length (srv_keys srv)")
  case True
  then show ?thesis
    by (simp add: srv_static_def srv_store_def map_update key_store_static list_update_same_conv)
qed (simp add: srv_static_def srv_store_def list_update_beyond)

context embassy_library
begin

lemma srv_store_ok:
  assumes "server_ok max_resp srv" and "i < length (srv_keys srv)"
    and "value_inhabits (key_type (srv_keys srv ! i)) v" and "wf_value (value_repr (key_type (srv_keys srv ! i)) v)"
  shows "server_ok max_resp (srv_store lib i v srv)"
proof -
  let ?k = "srv_keys srv ! i" and ?k' = "key_store lib v (srv_keys srv ! i)"
  have k: "?k \<in> set (srv_keys srv)" using assms(2) by simp
  have "key_ok ?k'" using key_store_ok(2) [OF _ assms(3,4), of lib] k assms(1)
    by (auto simp: server_ok_def key_fits_def key_ok_def)
  then have fits: "key_fits max_resp ?k' \<and> (key_observable ?k' \<longrightarrow> key_notifier ?k')"
    using k assms(1) by (auto simp: server_ok_def key_fits_def key_wire_len_def)
  have obs: "(\<exists>k \<in> set ((srv_keys srv)[i := ?k']). key_observable k) \<longleftrightarrow> (\<exists>k \<in> set (srv_keys srv). key_observable k)"
  proof -
    have "map key_observable ((srv_keys srv)[i := ?k']) = map key_observable (srv_keys srv)"
      using assms(2) by (simp add: map_update list_update_same_conv)
    from arg_cong [OF this, of set] show ?thesis by (auto simp: set_eq_iff image_iff)
  qed
  show ?thesis
    using assms(1) fits obs set_update_subset_insert [of "srv_keys srv" i ?k']
    unfolding server_ok_def srv_store_def by (auto simp: subset_iff)
qed

lemma local_step_ok:
  assumes "local_step lib srv srv'" and "server_ok max_resp srv"
  shows "server_ok max_resp srv'"
  using assms
proof cases
  case (1 i v)
  let ?ty = "key_type (srv_keys srv ! i)"
  have "type_ok ?ty" using assms(2) 1 by (auto simp: server_ok_def key_fits_def key_ok_def key_typed_def)
  then have "value_validate v = Inr () \<longleftrightarrow> wf_value (value_repr ?ty v)"
    using any_value.validate_wf 1 by blast
  then show ?thesis using srv_store_ok [OF assms(2)] 1 assms(2)
    by (cases "value_validate v") (simp_all add: set_local_eq)
qed

lemma local_step_static: "local_step lib srv srv' \<Longrightarrow> srv_static srv' = srv_static srv"
  by (cases rule: local_step.cases) (auto simp: set_local_eq srv_store_static split: sum.splits)

lemma local_steps_ok: "local_steps lib srv srv' \<Longrightarrow> server_ok max_resp srv \<Longrightarrow> server_ok max_resp srv'"
  by (induction rule: rtranclp_induct) (auto intro: local_step_ok)

lemma local_steps_static: "local_steps lib srv srv' \<Longrightarrow> srv_static srv' = srv_static srv"
  by (induction rule: rtranclp_induct) (auto dest: local_step_static)

text \<open>A store signals the notifier when the key is observable, and a signal stays pending.\<close>

lemma signal_ready: "lib_wait lib (lib_signal lib g) \<noteq> None"
  using wait_signal [of g] by auto

lemma srv_store_keeps_ready: "srv_ready lib srv \<Longrightarrow> srv_ready lib (srv_store lib i v srv)"
  using signal_ready by (simp add: srv_ready_def srv_store_def notifier_after_def)

lemma srv_store_ready:
  assumes "server_ok max_resp srv" and "j < length (srv_keys srv)" and "key_observable (srv_keys srv ! j)"
    and "key_generation (srv_keys (srv_store lib i v srv) ! j) \<noteq> key_generation (srv_keys srv ! j)"
  shows "srv_ready lib (srv_store lib i v srv)"
proof -
  have "i = j" using assms by (auto simp: srv_store_nth split: if_splits)
  then show ?thesis
    using signal_ready assms by (auto simp: srv_ready_def srv_store_def notifier_after_def server_ok_def)
qed

lemma static_nth:
  assumes "srv_static srv' = srv_static srv" and "i < length (srv_keys srv)"
  shows "key_static (srv_keys srv' ! i) = key_static (srv_keys srv ! i)"
    and "length (srv_keys srv') = length (srv_keys srv)"
proof -
  have m: "map key_static (srv_keys srv') = map key_static (srv_keys srv)" using assms(1) by (simp add: srv_static_def)
  show len: "length (srv_keys srv') = length (srv_keys srv)" using arg_cong [OF m, of length] by simp
  show "key_static (srv_keys srv' ! i) = key_static (srv_keys srv ! i)"
    using arg_cong [OF m, of "\<lambda>xs. xs ! i"] assms(2) len by simp
qed

lemma local_steps_ready:
  assumes "local_steps lib srv srv'" and "server_ok max_resp srv"
  shows "srv_ready lib srv \<Longrightarrow> srv_ready lib srv'"
    and "j < length (srv_keys srv) \<Longrightarrow> key_observable (srv_keys srv ! j)
      \<Longrightarrow> key_generation (srv_keys srv' ! j) \<noteq> key_generation (srv_keys srv ! j) \<Longrightarrow> srv_ready lib srv'"
proof -
  have "(srv_ready lib srv \<longrightarrow> srv_ready lib srv') \<and> (j < length (srv_keys srv) \<longrightarrow> key_observable (srv_keys srv ! j) \<longrightarrow>
      key_generation (srv_keys srv' ! j) \<noteq> key_generation (srv_keys srv ! j) \<longrightarrow> srv_ready lib srv')"
    using assms(1)
  proof (induction rule: rtranclp_induct)
    case (step srv1 srv2)
    have ok: "server_ok max_resp srv1" and st: "srv_static srv1 = srv_static srv"
      using step(1) assms(2) local_steps_ok local_steps_static by blast+
    have obs: "key_observable (srv_keys srv1 ! j) = key_observable (srv_keys srv ! j)"
      "length (srv_keys srv1) = length (srv_keys srv)" if "j < length (srv_keys srv)"
      using static_nth [OF st that] by (simp_all add: key_static_def key_observable_def)
    from step(2) show ?case
    proof cases
      case (1 i v)
      then show ?thesis
        using step.IH obs srv_store_ready [OF ok, of j i v] srv_store_keeps_ready [of srv1 i v]
        by (cases "value_validate v"; cases "key_generation (srv_keys (srv_store lib i v srv1) ! j) = key_generation (srv_keys srv1 ! j)")
          (auto simp: set_local_eq)
    qed
  qed simp
  then show "srv_ready lib srv \<Longrightarrow> srv_ready lib srv'"
    and "j < length (srv_keys srv) \<Longrightarrow> key_observable (srv_keys srv ! j)
      \<Longrightarrow> key_generation (srv_keys srv' ! j) \<noteq> key_generation (srv_keys srv ! j) \<Longrightarrow> srv_ready lib srv'"
    by simp_all
qed

end

section \<open>The environment\<close>

locale embassy_env = embassy_library lib + byte_source read_exact pending valid
  for lib :: "'g embassy_lib"
    and read_exact :: "(('g, 's) world, 're) reader"
    and pending :: "('g, 's) world \<Rightarrow> bytes"
    and valid :: "('g, 's) world \<Rightarrow> bool" +
  fixes write_all :: "(('g, 's) world, 'we) writer"
    and written :: "('g, 's) world \<Rightarrow> bytes"
  assumes read_local: "valid w \<Longrightarrow> read_exact n w = (res, w') \<Longrightarrow>
      valid w' \<and> written w' = written w \<and> local_steps lib (w_server w) (w_server w')"
    and write_local: "valid w \<Longrightarrow> write_all bs w = (res', w') \<Longrightarrow>
      valid w' \<and> pending w' = pending w \<and> local_steps lib (w_server w) (w_server w')
      \<and> (res' = Inr () \<longrightarrow> written w' = written w @ bs)"
    and world_server: "valid w \<Longrightarrow> valid (w\<lparr>w_server := srv\<rparr>)
      \<and> pending (w\<lparr>w_server := srv\<rparr>) = pending w \<and> written (w\<lparr>w_server := srv\<rparr>) = written w"

text \<open>An operation on the world that writes \<open>bs\<close>, or ends with the error of the stream.\<close>

definition sends :: "'g embassy_lib \<Rightarrow> (('g, 's) world \<Rightarrow> bytes) \<Rightarrow> (('g, 's) world \<Rightarrow> bool) \<Rightarrow> (('g, 's) world \<Rightarrow> bytes) \<Rightarrow>
    (('g, 's) world, 're, 'we, unit) srv_action \<Rightarrow> bytes \<Rightarrow> bool" where
  "sends lib pending valid written m bs \<longleftrightarrow>
     (\<forall>w. valid w \<longrightarrow> (\<exists>res w'. m w = (res, w') \<and> valid w' \<and> pending w' = pending w
        \<and> local_steps lib (w_server w) (w_server w')
        \<and> (res = Inr () \<and> written w' = written w @ bs \<or> (\<exists>e. res = Inl (Fail (ServerWrite e))))))"

lemma sends_run:
  assumes "sends lib pending valid written m bs" and "valid w"
  obtains res w' where "m w = (res, w')" "valid w'" "pending w' = pending w"
    "local_steps lib (w_server w) (w_server w')"
    "res = Inr () \<and> written w' = written w @ bs \<or> (\<exists>e. res = Inl (Fail (ServerWrite e)))"
proof -
  from assms have "\<exists>res w'. m w = (res, w') \<and> valid w' \<and> pending w' = pending w
        \<and> local_steps lib (w_server w) (w_server w')
        \<and> (res = Inr () \<and> written w' = written w @ bs \<or> (\<exists>e. res = Inl (Fail (ServerWrite e))))"
    unfolding sends_def by simp
  then show thesis by (elim exE conjE) (rule that)
qed

lemma sends_bind:
  assumes "sends lib pending valid written m bs" and "sends lib pending valid written m' bs'"
  shows "sends lib pending valid written (act_bind m (\<lambda>_. m')) (bs @ bs')"
  unfolding sends_def
proof (intro allI impI)
  fix w assume "valid w"
  obtain res w1 where 1: "m w = (res, w1)" "valid w1" "pending w1 = pending w"
    "local_steps lib (w_server w) (w_server w1)"
    "res = Inr () \<and> written w1 = written w @ bs \<or> (\<exists>e. res = Inl (Fail (ServerWrite e)))"
    by (rule sends_run [OF assms(1) \<open>valid w\<close>])
  obtain res' w2 where 2: "m' w1 = (res', w2)" "valid w2" "pending w2 = pending w1"
    "local_steps lib (w_server w1) (w_server w2)"
    "res' = Inr () \<and> written w2 = written w1 @ bs' \<or> (\<exists>e. res' = Inl (Fail (ServerWrite e)))"
    by (rule sends_run [OF assms(2) 1(2)])
  from 1(5) show "\<exists>res w'. act_bind m (\<lambda>_. m') w = (res, w') \<and> valid w' \<and> pending w' = pending w
      \<and> local_steps lib (w_server w) (w_server w')
      \<and> (res = Inr () \<and> written w' = written w @ bs @ bs' \<or> (\<exists>e. res = Inl (Fail (ServerWrite e))))"
    using 1(1-4) 2 by (auto simp: act_bind_def intro: rtranclp_trans)
qed

context embassy_env
begin

lemma send_bytes_sends: "sends lib pending valid written (send_bytes write_all bs) bs"
  unfolding sends_def
proof (intro allI impI)
  fix w assume "valid w"
  then show "\<exists>res w'. send_bytes write_all bs w = (res, w') \<and> valid w' \<and> pending w' = pending w
      \<and> local_steps lib (w_server w) (w_server w')
      \<and> (res = Inr () \<and> written w' = written w @ bs \<or> (\<exists>e. res = Inl (Fail (ServerWrite e))))"
    using write_local [of w bs] by (cases "write_all bs w"; cases "fst (write_all bs w)")
      (auto simp: send_bytes_def act_map_err_def)
qed

end

text \<open>The writes of each operation, and the frame they add up to.\<close>

lemma header_bytes: "[as_u8 oc, to_be 2 w ! 0, to_be 2 w ! 1] = as_u8 oc # to_be 2 w"
  by (simp add: to_be_2_eq)

lemma send_frame_to_eq:
  assumes "length payload \<le> 65535"
  shows "send_frame_to write_all oc payload =
    act_bind (send_bytes write_all (as_u8 oc # to_be 2 (word_of_nat (length payload) :: u16))) (\<lambda>_.
    act_bind (send_bytes write_all payload) (\<lambda>_. send_bytes write_all [compute_checksum oc payload]))"
  using assms unfolding send_frame_to_def Let_def header_bytes by (simp add: u16_try_from_def)

text \<open>The checksum over segments is the one over the whole payload.\<close>

lemma foldl_segments: "foldl (\<lambda>acc segment. foldl (+) acc segment) (a :: u8) ss = a + frame_sum (concat ss)"
  by (induction ss arbitrary: a) (simp_all add: foldl_add_word add.assoc)

lemma foldl_lengths: "foldl (\<lambda>acc segment. acc + length segment) n ss = n + length (concat ss)"
  by (induction ss arbitrary: n) simp_all

lemma segmented_checksum_eq:
  "compute_segmented_checksum oc ss =
     (if length (concat ss) \<le> 65535 then Inr (compute_checksum oc (concat ss)) else Inl Panic)"
  by (simp add: compute_segmented_checksum_def foldl_lengths foldl_segments u16_try_from_def Let_def
      compute_checksum_sum to_be_2_eq algebra_simps)

lemma checked_add_length:
  "n + c \<le> 65535 \<Longrightarrow> u16_checked_add (word_of_nat n) (word_of_nat c) = Some (word_of_nat (n + c))"
  by (simp add: u16_checked_add_def unat_of_nat_u16)

lemma send_str16_response_eq:
  assumes "length v \<le> 65533"
  shows "send_str16_response write_all oc v =
    act_bind (send_bytes write_all (as_u8 oc # to_be 2 (word_of_nat (length v + 2) :: u16))) (\<lambda>_.
    act_bind (send_bytes write_all (to_be 2 (word_of_nat (length v) :: u16))) (\<lambda>_.
    act_bind (send_bytes write_all v) (\<lambda>_. send_bytes write_all [compute_checksum oc (encode_str16 v)])))"
proof -
  have "u16_checked_add (word_of_nat (length v)) 2 = Some (word_of_nat (length v + 2))"
    using checked_add_length [of "length v" 2] assms by simp
  then show ?thesis using assms unfolding send_str16_response_def Let_def header_bytes
    by (simp add: u16_try_from_def segmented_checksum_eq encode_str16_def fun_eq_iff)
qed

lemma send_key_response_eq:
  assumes "length (key_name k) \<le> 65532"
  shows "send_key_response write_all k =
    act_bind (send_bytes write_all (as_u8 KEY # to_be 2 (word_of_nat (length (key_name k) + 3) :: u16))) (\<lambda>_.
    act_bind (send_bytes write_all [keyflags k]) (\<lambda>_.
    act_bind (send_bytes write_all (to_be 2 (word_of_nat (length (key_name k)) :: u16))) (\<lambda>_.
    act_bind (send_bytes write_all (key_name k)) (\<lambda>_.
      send_bytes write_all [compute_checksum KEY (keyflags k # encode_str16 (key_name k))]))))"
proof -
  have "u16_checked_add (word_of_nat (length (key_name k))) 3 = Some (word_of_nat (length (key_name k) + 3))"
    using checked_add_length [of "length (key_name k)" 3] assms by simp
  then show ?thesis using assms unfolding send_key_response_def Let_def header_bytes
    by (simp add: u16_try_from_def segmented_checksum_eq encode_str16_def fun_eq_iff)
qed

context embassy_env
begin

lemma send_frame_sends:
  assumes "length payload \<le> 65535"
  shows "sends lib pending valid written (send_frame_to write_all oc payload) (frame_bytes oc payload)"
proof -
  have "frame_bytes oc payload = (as_u8 oc # to_be 2 (word_of_nat (length payload) :: u16)) @ payload @ [compute_checksum oc payload]"
    by (simp add: frame_bytes_def)
  then show ?thesis
    unfolding send_frame_to_eq [OF assms] by (simp only: sends_bind send_bytes_sends)
qed

lemma send_str16_sends:
  assumes "length v \<le> 65533"
  shows "sends lib pending valid written (send_str16_response write_all oc v) (frame_bytes oc (encode_str16 v))"
proof -
  have "frame_bytes oc (encode_str16 v) = (as_u8 oc # to_be 2 (word_of_nat (length v + 2) :: u16)) @
      to_be 2 (word_of_nat (length v) :: u16) @ v @ [compute_checksum oc (encode_str16 v)]"
    by (simp add: frame_bytes_def encode_str16_def add.commute)
  then show ?thesis
    unfolding send_str16_response_eq [OF assms] by (simp only: sends_bind send_bytes_sends)
qed

lemma send_key_sends:
  assumes "length (key_name k) \<le> 65532"
  shows "sends lib pending valid written (send_key_response write_all k)
      (message_bytes (OrdinaryResponse (Key (KeyFlags (keyflags k)) (key_name k))))"
proof -
  have "message_bytes (OrdinaryResponse (Key (KeyFlags (keyflags k)) (key_name k))) =
      (as_u8 KEY # to_be 2 (word_of_nat (length (key_name k) + 3) :: u16)) @ [keyflags k] @
      to_be 2 (word_of_nat (length (key_name k)) :: u16) @ key_name k @
      [compute_checksum KEY (keyflags k # encode_str16 (key_name k))]"
    by (simp add: message_bytes_def frame_bytes_def encode_str16_def numeral_3_eq_3)
  then show ?thesis
    unfolding send_key_response_eq [OF assms] by (simp only: sends_bind send_bytes_sends)
qed

lemma send_error_sends:
  "sends lib pending valid written (send_error write_all code) (message_bytes (Error (ErrorResponse code)))"
  using send_frame_sends [of "[code]" ERROR] by (simp add: send_error_def message_bytes_def)

lemma send_void_sends:
  "sends lib pending valid written (send_void_key_response write_all)
     (message_bytes (OrdinaryResponse (Key (KeyFlags 0) [])))"
  using send_frame_sends [of "[0, 0, 0]" KEY]
  by (simp add: send_void_key_response_def message_bytes_def encode_str16_def to_be_2_eq)

end

end
