(* ===== verification/Embassy_Handle.thy ===== *)
theory Embassy_Handle
  imports Embassy_Env
begin

text \<open>
  The specification of a request to an embassy server (which response it gets, what it changes
  in the registry and in the observation state of the connection) and the refinement: the
  handler of the code writes exactly that response and makes exactly those changes, in every
  environment that keeps the contract.
\<close>

section \<open>Specification\<close>

datatype slot = UnknownKeyref | VoidKey | SlotOf nat

definition slot_of_keyref :: "'g server \<Rightarrow> u16 \<Rightarrow> slot" where
  "slot_of_keyref srv keyref =
     (if key_count srv \<le> keyref then UnknownKeyref
      else case find_slot srv keyref of Some i \<Rightarrow> SlotOf i | None \<Rightarrow> VoidKey)"

abbreviation refuse :: "u8 \<Rightarrow> message_ref" where
  "refuse code \<equiv> Error (ErrorResponse code)"

definition caps_message :: "'g server \<Rightarrow> message_ref" where
  "caps_message srv =
     CompatibilityResponse \<lparr>caps_raw = caps srv, supports_changed = srv_has_observable srv\<rparr>"

definition stored_by_write :: "'g embassy_lib \<Rightarrow> 'g server \<Rightarrow> u16 \<Rightarrow> wire_value_ref \<Rightarrow> (nat \<times> key_value) option" where
  "stored_by_write lib srv keyref v =
     (case slot_of_keyref srv keyref of
        SlotOf i \<Rightarrow>
          if key_writable (srv_keys srv ! i) then
            (case value_of_wire (lib_push_str lib) (key_type (srv_keys srv ! i)) v of
               Inr stored \<Rightarrow> Some (i, stored)
             | Inl _ \<Rightarrow> None)
          else None
      | _ \<Rightarrow> None)"

fun embassy_response :: "'g embassy_lib \<Rightarrow> rstr \<Rightarrow> 'g server \<Rightarrow> incoming_request \<Rightarrow> message_ref" where
  "embassy_response lib node_id srv InPing = OrdinaryResponse Ok"
| "embassy_response lib node_id srv InIdentify = OrdinaryResponse (Identified node_id)"
| "embassy_response lib node_id srv InGetCaps = caps_message srv"
| "embassy_response lib node_id srv InGetKeytabLen = OrdinaryResponse (KeytabLen (key_count srv))"
| "embassy_response lib node_id srv (InGetKey keyref) =
     (case slot_of_keyref srv keyref of
        UnknownKeyref \<Rightarrow> refuse ERROR_UNKNOWN_KEYREF
      | VoidKey \<Rightarrow> OrdinaryResponse (Key (KeyFlags 0) [])
      | SlotOf i \<Rightarrow> OrdinaryResponse (Key (KeyFlags (keyflags (srv_keys srv ! i))) (key_name (srv_keys srv ! i))))"
| "embassy_response lib node_id srv (InGet keyref) =
     (case slot_of_keyref srv keyref of
        UnknownKeyref \<Rightarrow> refuse ERROR_UNKNOWN_KEYREF
      | VoidKey \<Rightarrow> refuse ERROR_NOT_ALLOWED
      | SlotOf i \<Rightarrow> if key_readable (srv_keys srv ! i) then OrdinaryResponse (Value (key_wire (srv_keys srv ! i)))
                    else refuse ERROR_NOT_ALLOWED)"
| "embassy_response lib node_id srv (InWrite keyref v) =
     (case slot_of_keyref srv keyref of
        UnknownKeyref \<Rightarrow> refuse ERROR_UNKNOWN_KEYREF
      | VoidKey \<Rightarrow> refuse ERROR_NOT_ALLOWED
      | SlotOf i \<Rightarrow> if \<not> key_writable (srv_keys srv ! i) then refuse ERROR_NOT_ALLOWED
                    else case stored_by_write lib srv keyref v of
                      Some (i, stored) \<Rightarrow> OrdinaryResponse (Written (value_repr (key_type (srv_keys srv ! i)) stored))
                    | None \<Rightarrow> refuse ERROR_TYPE_MISMATCH)"
| "embassy_response lib node_id srv (InObserve keyref) =
     (case slot_of_keyref srv keyref of
        UnknownKeyref \<Rightarrow> refuse ERROR_UNKNOWN_KEYREF
      | VoidKey \<Rightarrow> refuse ERROR_NOT_ALLOWED
      | SlotOf i \<Rightarrow> if key_observable (srv_keys srv ! i) then OrdinaryResponse Ok else refuse ERROR_NOT_ALLOWED)"
| "embassy_response lib node_id srv (InUnobserve keyref) =
     (case slot_of_keyref srv keyref of
        UnknownKeyref \<Rightarrow> refuse ERROR_UNKNOWN_KEYREF
      | _ \<Rightarrow> OrdinaryResponse Ok)"

fun embassy_store :: "'g embassy_lib \<Rightarrow> 'g server \<Rightarrow> incoming_request \<Rightarrow> 'g server" where
  "embassy_store lib srv (InWrite keyref v) =
     (case stored_by_write lib srv keyref v of Some (i, stored) \<Rightarrow> srv_store lib i stored srv | None \<Rightarrow> srv)"
| "embassy_store lib srv _ = srv"

text \<open>The observed keys of the connection and the generations it has been told about.\<close>

type_synonym watching = "bool list \<times> u32 list"

definition watch :: "'g server \<Rightarrow> nat \<Rightarrow> bool \<Rightarrow> watching \<Rightarrow> watching" where
  "watch srv i b ws = ((fst ws)[i := b], (snd ws)[i := key_generation (srv_keys srv ! i)])"

fun embassy_watch :: "'g server \<Rightarrow> incoming_request \<Rightarrow> watching \<Rightarrow> watching" where
  "embassy_watch srv (InObserve keyref) ws =
     (case slot_of_keyref srv keyref of
        SlotOf i \<Rightarrow> if key_observable (srv_keys srv ! i) then watch srv i True ws else ws
      | _ \<Rightarrow> ws)"
| "embassy_watch srv (InUnobserve keyref) ws =
     (case slot_of_keyref srv keyref of SlotOf i \<Rightarrow> watch srv i False ws | _ \<Rightarrow> ws)"
| "embassy_watch srv _ ws = ws"

section \<open>Well-formed states of the serving loop\<close>

abbreviation sv_watching :: "('g, 's) serving \<Rightarrow> watching" where
  "sv_watching r \<equiv> (sv_observed r, sv_seen r)"

definition serving_ok :: "(('g, 's) world \<Rightarrow> bool) \<Rightarrow> ('g, 's) serving \<Rightarrow> bool" where
  "serving_ok valid r \<longleftrightarrow> valid (sv_world r) \<and> server_ok (length (sv_payload r)) (sv_server r)
     \<and> length (sv_observed r) = length (srv_keys (sv_server r))
     \<and> length (sv_seen r) = length (srv_keys (sv_server r))"

fun wf_incoming :: "incoming_request \<Rightarrow> bool" where
  "wf_incoming (InWrite keyref v) = wf_wire v"
| "wf_incoming _ = True"

lemma slot_of_keyref_SlotOf: "slot_of_keyref srv keyref = SlotOf i \<Longrightarrow>
    i < length (srv_keys srv) \<and> key_keyref (srv_keys srv ! i) = keyref"
  by (auto simp: slot_of_keyref_def find_slot_def position_Some split: if_splits option.splits)

text \<open>A handler that writes \<open>bs\<close> after its own changes, which end in \<open>srv\<close> and \<open>ws\<close>.\<close>

definition replies ::
  "'g embassy_lib \<Rightarrow> (('g, 's) world \<Rightarrow> bytes) \<Rightarrow> (('g, 's) world \<Rightarrow> bool) \<Rightarrow> (('g, 's) world \<Rightarrow> bytes) \<Rightarrow>
   ('g, 's) serving \<Rightarrow> ('g, 's, 're, 'we, unit) handler \<Rightarrow> bytes \<Rightarrow> 'g server \<Rightarrow> watching \<Rightarrow> bool" where
  "replies lib pending valid written r h bs srv ws \<longleftrightarrow>
     (\<exists>res r'. h r = (res, r') \<and> valid (sv_world r') \<and> pending (sv_world r') = pending (sv_world r)
        \<and> local_steps lib srv (sv_server r') \<and> sv_watching r' = ws
        \<and> length (sv_payload r') = length (sv_payload r)
        \<and> (res = Inr () \<and> written (sv_world r') = written (sv_world r) @ bs
           \<or> (\<exists>e. res = Inl (Fail (ServerWrite e)))))"

lemma replies_on_world:
  assumes "sends lib pending valid written m bs" and "h r = on_world m r1" and "valid (sv_world r1)"
    and "pending (sv_world r1) = pending (sv_world r)" and "written (sv_world r1) = written (sv_world r)"
    and "length (sv_payload r1) = length (sv_payload r)"
    and "srv = sv_server r1" and "ws = sv_watching r1"
  shows "replies lib pending valid written r h bs srv ws"
proof -
  obtain res w' where run: "m (sv_world r1) = (res, w')" "valid w'" "pending w' = pending (sv_world r1)"
    "local_steps lib (w_server (sv_world r1)) (w_server w')"
    "res = Inr () \<and> written w' = written (sv_world r1) @ bs \<or> (\<exists>e. res = Inl (Fail (ServerWrite e)))"
    by (rule sends_run [OF assms(1,3)])
  have "h r = (res, r1\<lparr>sv_world := w'\<rparr>)" using assms(2) run(1) by (simp add: on_world_def)
  then show ?thesis unfolding replies_def
    using run assms by (intro exI [of _ res] exI [of _ "r1\<lparr>sv_world := w'\<rparr>"]) simp
qed

lemma replies_send:
  assumes "sends lib pending valid written m bs" and "valid (sv_world r)" and "h r = on_world m r"
  shows "replies lib pending valid written r h bs (sv_server r) (sv_watching r)"
  using assms by (intro replies_on_world [OF assms(1)]) simp_all

lemma replies_cong: "h r = h' r \<Longrightarrow> replies lib pending valid written r h bs srv ws
    \<longleftrightarrow> replies lib pending valid written r h' bs srv ws"
  by (simp add: replies_def)

lemma send_payload_eq: "len \<le> length (sv_payload r) \<Longrightarrow>
    send_payload write_all oc len r = on_world (send_frame_to write_all oc (take len (sv_payload r))) r"
  by (simp add: send_payload_def)

text \<open>A payload that was just encoded into the front of the buffer.\<close>

lemma send_encoded:
  assumes "sv_payload r = bs @ rest"
  shows "send_payload write_all oc (length bs) r = on_world (send_frame_to write_all oc bs) r"
  using assms by (simp add: send_payload_def)

context embassy_library
begin

lemma stored_by_write_ok:
  assumes "server_ok max_resp srv" and "wf_wire v" and "stored_by_write lib srv keyref v = Some (i, x)"
  shows "slot_of_keyref srv keyref = SlotOf i" and "i < length (srv_keys srv)"
    and "value_inhabits (key_type (srv_keys srv ! i)) x" and "wf_value (value_repr (key_type (srv_keys srv ! i)) x)"
    and "v = as_wire (value_repr (key_type (srv_keys srv ! i)) x)"
proof -
  let ?k = "srv_keys srv ! i"
  from assms(3) have slot: "slot_of_keyref srv keyref = SlotOf i"
    and dec: "value_of_wire (lib_push_str lib) (key_type ?k) v = Inr x"
    by (auto simp: stored_by_write_def split: slot.splits if_splits sum.splits)
  then show "slot_of_keyref srv keyref = SlotOf i" and i: "i < length (srv_keys srv)"
    using slot_of_keyref_SlotOf by auto
  have ty: "type_ok (key_type ?k)"
    using assms(1) i by (auto simp: server_ok_def key_fits_def key_ok_def key_typed_def)
  from any_value.decode_iff [OF ty assms(2), of x] dec
  show "value_inhabits (key_type ?k) x" "wf_value (value_repr (key_type ?k) x)" "v = as_wire (value_repr (key_type ?k) x)"
    by simp_all
qed

end

context embassy_env
begin

lemma keytab_len_replies:
  assumes "serving_ok valid r"
  shows "replies lib pending valid written r
     (\<lambda>r. act_bind (fill_payload (to_be 2 w)) (\<lambda>_. send_payload write_all oc 2 :: ('g, 's, 're, 'we, unit) handler) r)
     (frame_bytes oc (to_be 2 (w :: u16))) (sv_server r) (sv_watching r)"
proof -
  let ?r1 = "r\<lparr>sv_payload := to_be 2 w @ drop 2 (sv_payload r)\<rparr>"
  have two: "2 \<le> length (sv_payload r)" and v: "valid (sv_world r)"
    using assms by (simp_all add: serving_ok_def server_ok_def)
  have "act_bind (fill_payload (to_be 2 w)) (\<lambda>_. send_payload write_all oc 2 :: ('g, 's, 're, 'we, unit) handler) r =
      on_world (send_frame_to write_all oc (to_be 2 w)) ?r1"
    using send_encoded [of ?r1 "to_be 2 w" "drop 2 (sv_payload r)" write_all oc] two
    by (simp add: act_bind_def fill_payload_def write_front_fits)
  then show ?thesis
    using two v by (intro replies_on_world [OF send_frame_sends, where ?r1.0 = ?r1]) simp_all
qed

lemma get_replies:
  assumes "serving_ok valid r" and "slot_of_keyref (sv_server r) keyref = SlotOf i"
    and "key_readable (srv_keys (sv_server r) ! i)"
  shows "replies lib pending valid written r (answer_get write_all keyref :: ('g, 's, 're, 'we, unit) handler)
     (message_bytes (OrdinaryResponse (Value (key_wire (srv_keys (sv_server r) ! i))))) (sv_server r) (sv_watching r)"
proof -
  let ?k = "srv_keys (sv_server r) ! i" and ?bs = "encode_value (key_wire (srv_keys (sv_server r) ! i))"
  have "?k \<in> set (srv_keys (sv_server r))" using slot_of_keyref_SlotOf [OF assms(2)] by simp
  then have k: "key_fits (length (sv_payload r)) ?k" using assms(1) by (simp add: serving_ok_def server_ok_def)
  then have enc: "encode_current_value ?k (sv_payload r) = (Inr (length ?bs), ?bs @ drop (length ?bs) (sv_payload r))"
    and len: "length ?bs \<le> key_wire_len ?k"
    using encode_current_value_ok [of ?k "sv_payload r"] wire_length [of ?k]
    by (simp_all add: key_fits_def key_wire_len_def key_ok_def)
  let ?r1 = "r\<lparr>sv_payload := ?bs @ drop (length ?bs) (sv_payload r)\<rparr>"
  have "(answer_get write_all keyref :: ('g, 's, 're, 'we, unit) handler) r = on_world (send_frame_to write_all VALUE ?bs) ?r1"
    using assms(2,3) enc send_encoded [of ?r1 ?bs "drop (length ?bs) (sv_payload r)" write_all VALUE]
    by (auto simp: answer_get_def slot_of_keyref_def sv_key_def encode_key_value_def split: if_splits option.splits)
  then show ?thesis
    unfolding message_bytes_def message_opcode.simps response_opcode.simps encode_payload.simps encode_response.simps
    using k len assms(1)
    by (intro replies_on_world [OF send_frame_sends, where ?r1.0 = ?r1]) (simp_all add: key_fits_def serving_ok_def)
qed

lemma write_replies:
  assumes ok: "serving_ok valid r" and slot: "slot_of_keyref (sv_server r) keyref = SlotOf i"
    and w: "key_writable (srv_keys (sv_server r) ! i)" and v: "wf_wire v"
  shows "replies lib pending valid written r (answer_write lib write_all keyref v :: ('g, 's, 're, 'we, unit) handler)
     (message_bytes (embassy_response lib node_id (sv_server r) (InWrite keyref v)))
     (embassy_store lib (sv_server r) (InWrite keyref v)) (sv_watching r)"
proof -
  let ?k = "srv_keys (sv_server r) ! i" and ?n = "srv_notifier (sv_server r)"
  have "?k \<in> set (srv_keys (sv_server r))" using slot_of_keyref_SlotOf [OF slot] by simp
  then have fits: "key_fits (length (sv_payload r)) ?k" using ok by (simp add: serving_ok_def server_ok_def)
  then have k: "key_typed ?k" "type_MAX_WIRE_LEN (key_type ?k) \<le> length (sv_payload r)"
    by (simp_all add: key_fits_def key_ok_def key_wire_len_def)
  have valid: "valid (sv_world r)" using ok by (simp add: serving_ok_def)
  have handle: "(answer_write lib write_all keyref v :: ('g, 's, 're, 'we, unit) handler) r =
      (case write_key lib i v r of
              (Inl Panic, r') \<Rightarrow> (Inl Panic, r')
            | (Inr len, r') \<Rightarrow> send_payload write_all WRITTEN len r'
            | (Inl (Fail TypeMismatch), r') \<Rightarrow> on_world (send_error write_all ERROR_TYPE_MISMATCH) r'
            | (Inl (Fail ValueTooLarge), r') \<Rightarrow> on_world (send_error write_all ERROR_TYPE_MISMATCH) r'
            | (Inl (Fail ValueContainsNul), r') \<Rightarrow> on_world (send_error write_all ERROR_TYPE_MISMATCH) r')"
    using slot w by (auto simp: answer_write_def slot_of_keyref_def sv_key_def split: if_splits option.splits)
  show ?thesis
  proof (cases rule: write_and_encode_cases [OF k(1) v k(2), where notifier = ?n, case_names stored refused])
    case (stored x)
    let ?bs = "encode_value (key_wire (key_store lib x ?k))"
    let ?r1 = "r\<lparr>sv_world := (sv_world r)\<lparr>w_server := srv_store lib i x (sv_server r)\<rparr>,
                 sv_payload := ?bs @ drop (length ?bs) (sv_payload r)\<rparr>"
    have sbw: "stored_by_write lib (sv_server r) keyref v = Some (i, x)"
      using stored(1) slot w by (simp add: stored_by_write_def)
    have "write_key lib i v r = (Inr (length ?bs), ?r1)"
      using stored(4) by (simp add: write_key_def sv_key_def srv_store_def)
    then have h: "(answer_write lib write_all keyref v :: ('g, 's, 're, 'we, unit) handler) r = on_world (send_frame_to write_all WRITTEN ?bs) ?r1"
      using handle send_encoded [of ?r1 ?bs "drop (length ?bs) (sv_payload r)" write_all WRITTEN] by simp
    have len: "length ?bs \<le> key_wire_len ?k"
      using wire_length [of "key_store lib x ?k"] stored(2) by (simp add: key_ok_def key_wire_len_def)
    have resp: "message_bytes (embassy_response lib node_id (sv_server r) (InWrite keyref v)) = frame_bytes WRITTEN ?bs"
      using slot w sbw by (simp add: message_bytes_def key_wire_def)
    show ?thesis
      unfolding resp using fits len h valid world_server [OF valid] sbw
      by (intro replies_on_world [OF send_frame_sends, where ?r1.0 = ?r1]) (simp_all add: key_fits_def)
  next
    case (refused e)
    have sbw: "stored_by_write lib (sv_server r) keyref v = None"
      using refused(1) slot by (simp add: stored_by_write_def)
    have "write_key lib i v r = (Inl (Fail e), r)"
      using refused(2) by (simp add: write_key_def sv_key_def)
    then have "(answer_write lib write_all keyref v :: ('g, 's, 're, 'we, unit) handler) r = on_world (send_error write_all ERROR_TYPE_MISMATCH) r"
      using handle by (cases e) simp_all
    then show ?thesis
      using slot w sbw replies_send [where valid = valid and r = r, OF send_error_sends valid] by simp
  qed
qed

lemma mark_replies:
  assumes "serving_ok valid r" and "h r = on_world (send_frame_to write_all OK []) r1"
    and "sv_world r1 = sv_world r" and "sv_payload r1 = sv_payload r"
  shows "replies lib pending valid written r (h :: ('g, 's, 're, 'we, unit) handler)
     (message_bytes (OrdinaryResponse Ok)) (sv_server r) (sv_watching r1)"
  unfolding message_bytes_def message_opcode.simps response_opcode.simps encode_payload.simps encode_response.simps
  using assms by (intro replies_on_world [OF send_frame_sends, where ?r1.0 = r1]) (simp_all add: serving_ok_def)

text \<open>The handler refines the specification.\<close>

lemma handle_request_refines:
  assumes ok: "serving_ok valid r" and wf: "wf_incoming q" and id: "length node_id \<le> 65533"
  shows "replies lib pending valid written r (handle_request lib write_all node_id q :: ('g, 's, 're, 'we, unit) handler)
     (message_bytes (embassy_response lib node_id (sv_server r) q))
     (embassy_store lib (sv_server r) q) (embassy_watch (sv_server r) q (sv_watching r))"
proof -
  have valid: "valid (sv_world r)" using ok by (simp add: serving_ok_def)
  note send = replies_send [where valid = valid and r = r, OF _ valid]
  note lookup = slot_of_keyref_def sv_key_def
  show ?thesis
  proof (cases q)
    case InPing
    then show ?thesis using mark_replies [OF ok, of "handle_request lib write_all node_id q" r] by (simp add: handle_request_def)
  next
    case InIdentify
    then show ?thesis
      by (auto intro!: send send_str16_sends id simp: handle_request_def message_bytes_def)
  next
    case InGetCaps
    have "length (caps (sv_server r)) \<le> 65533"
      by (simp add: caps_def BASE_CAPS_def OBSERVABLE_CAPS_def ascii_def)
    then show ?thesis
      by (auto intro!: send send_str16_sends simp: InGetCaps handle_request_def message_bytes_def caps_message_def)
  next
    case InGetKeytabLen
    show ?thesis
      unfolding InGetKeytabLen message_bytes_def embassy_response.simps message_opcode.simps response_opcode.simps
        encode_payload.simps encode_response.simps embassy_store.simps embassy_watch.simps
      by (rule iffD2 [OF replies_cong keytab_len_replies [OF ok, of "key_count (sv_server r)" KEYTABLEN]])
        (simp add: handle_request_def)
  next
    case (InGetKey keyref)
    show ?thesis
    proof (cases "slot_of_keyref (sv_server r) keyref")
      case (SlotOf i)
      then have "srv_keys (sv_server r) ! i \<in> set (srv_keys (sv_server r))"
        using slot_of_keyref_SlotOf [of "sv_server r"] by simp
      then have "length (key_name (srv_keys (sv_server r) ! i)) \<le> 65532"
        using ok by (auto simp: serving_ok_def server_ok_def key_fits_def)
      then show ?thesis using InGetKey SlotOf
        by (auto intro!: send send_key_sends simp: handle_request_def answer_get_key_def lookup split: if_splits option.splits)
    qed (auto intro!: send send_error_sends send_void_sends
        simp: InGetKey handle_request_def answer_get_key_def lookup split: if_splits option.splits)
  next
    case (InGet keyref)
    show ?thesis
    proof (cases "\<exists>i. slot_of_keyref (sv_server r) keyref = SlotOf i \<and> key_readable (srv_keys (sv_server r) ! i)")
      case True
      then show ?thesis using get_replies [OF ok] InGet by (auto simp: handle_request_def)
    next
      case False
      then show ?thesis
        by (cases "slot_of_keyref (sv_server r) keyref") (auto intro!: send send_error_sends
            simp: InGet handle_request_def answer_get_def lookup split: if_splits option.splits)
    qed
  next
    case (InWrite keyref v)
    show ?thesis
    proof (cases "\<exists>i. slot_of_keyref (sv_server r) keyref = SlotOf i \<and> key_writable (srv_keys (sv_server r) ! i)")
      case True
      then show ?thesis using write_replies [OF ok] InWrite wf by (auto simp: handle_request_def)
    next
      case False
      then have "stored_by_write lib (sv_server r) keyref v = None"
        by (auto simp: stored_by_write_def split: slot.splits)
      with False show ?thesis
        by (cases "slot_of_keyref (sv_server r) keyref") (auto intro!: send send_error_sends
            simp: InWrite handle_request_def answer_write_def lookup split: if_splits option.splits)
    qed
  next
    case (InObserve keyref)
    show ?thesis
    proof (cases "\<exists>i. slot_of_keyref (sv_server r) keyref = SlotOf i \<and> key_observable (srv_keys (sv_server r) ! i)")
      case True
      then obtain i where i: "slot_of_keyref (sv_server r) keyref = SlotOf i" "key_observable (srv_keys (sv_server r) ! i)" by blast
      let ?r1 = "mark_seen i (r\<lparr>sv_observed := (sv_observed r)[i := True]\<rparr>)"
      have "(handle_request lib write_all node_id q :: ('g, 's, 're, 'we, unit) handler) r =
          on_world (send_frame_to write_all OK []) ?r1"
        using i by (auto simp: InObserve handle_request_def answer_observe_def lookup Let_def split: if_splits option.splits)
      from mark_replies [where h = "handle_request lib write_all node_id q", OF ok this] i show ?thesis
        by (simp add: InObserve mark_seen_def watch_def sv_key_def)
    next
      case False
      then show ?thesis
        by (cases "slot_of_keyref (sv_server r) keyref") (auto intro!: send send_error_sends
            simp: InObserve handle_request_def answer_observe_def lookup split: if_splits option.splits)
    qed
  next
    case (InUnobserve keyref)
    show ?thesis
    proof (cases "slot_of_keyref (sv_server r) keyref")
      case UnknownKeyref
      then show ?thesis by (auto intro!: send send_error_sends
            simp: InUnobserve handle_request_def answer_unobserve_def lookup split: if_splits option.splits)
    next
      case VoidKey
      then have "(handle_request lib write_all node_id q :: ('g, 's, 're, 'we, unit) handler) r =
          on_world (send_frame_to write_all OK []) r"
        by (auto simp: InUnobserve handle_request_def answer_unobserve_def lookup Let_def split: if_splits option.splits)
      from mark_replies [where h = "handle_request lib write_all node_id q", OF ok this] VoidKey show ?thesis
        by (simp add: InUnobserve)
    next
      case (SlotOf i)
      let ?r1 = "mark_seen i (r\<lparr>sv_observed := (sv_observed r)[i := False]\<rparr>)"
      have "(handle_request lib write_all node_id q :: ('g, 's, 're, 'we, unit) handler) r =
          on_world (send_frame_to write_all OK []) ?r1"
        using SlotOf by (auto simp: InUnobserve handle_request_def answer_unobserve_def lookup Let_def split: if_splits option.splits)
      from mark_replies [where h = "handle_request lib write_all node_id q", OF ok this] SlotOf show ?thesis
        by (simp add: InUnobserve mark_seen_def watch_def sv_key_def)
    qed
  qed
qed

lemma embassy_store_ok:
  assumes "server_ok max_resp srv" and "wf_incoming q"
  shows "server_ok max_resp (embassy_store lib srv q)"
proof (cases q)
  case (InWrite keyref v)
  show ?thesis
  proof (cases "stored_by_write lib srv keyref v")
    case (Some p)
    obtain i x where p: "p = (i, x)" by (cases p)
    show ?thesis using stored_by_write_ok [OF assms(1), of v keyref i x] srv_store_ok [OF assms(1), of i x] Some p InWrite assms(2)
      by simp
  qed (use InWrite assms in simp)
qed (use assms in simp_all)

lemma embassy_store_static: "srv_static (embassy_store lib srv q) = srv_static srv"
  by (cases q) (auto simp: srv_store_static split: option.splits)

end

section \<open>The response conforms to the protocol\<close>

lemma embassy_caps_parse:
  "caps_parse (caps srv) = Inr \<lparr>caps_raw = caps srv, supports_changed = srv_has_observable srv\<rparr>"
proof -
  have "caps_parse BASE_CAPS = Inr \<lparr>caps_raw = BASE_CAPS, supports_changed = False\<rparr>" by code_simp
  moreover have "caps_parse OBSERVABLE_CAPS = Inr \<lparr>caps_raw = OBSERVABLE_CAPS, supports_changed = True\<rparr>" by code_simp
  ultimately show ?thesis by (simp add: caps_def)
qed

lemma caps_wf: "wf_str (caps srv)" and caps_length: "length (caps srv) \<le> 17"
proof -
  have "list_all (\<lambda>b. 0 < b \<and> b < 0x80) BASE_CAPS \<and> length BASE_CAPS \<le> 17" by code_simp
  moreover have "list_all (\<lambda>b. 0 < b \<and> b < 0x80) OBSERVABLE_CAPS \<and> length OBSERVABLE_CAPS \<le> 17" by code_simp
  ultimately show "wf_str (caps srv)" "length (caps srv) \<le> 17"
    unfolding caps_def by (auto simp: list_all_iff intro!: ascii_wf_str)
qed

lemma embassy_error_codes: "ERROR_UNKNOWN_KEYREF = 0x01" "ERROR_NOT_ALLOWED = 0x02" "ERROR_TYPE_MISMATCH = 0x03"
  by (simp_all add: ERROR_UNKNOWN_KEYREF_def ERROR_NOT_ALLOWED_def ERROR_TYPE_MISMATCH_def)

context embassy_library
begin

lemma slot_key:
  assumes "server_ok max_resp srv" and "slot_of_keyref srv keyref = SlotOf i"
  shows "key_fits max_resp (srv_keys srv ! i)"
  using assms slot_of_keyref_SlotOf [OF assms(2)] by (auto simp: server_ok_def)

lemma key_message_wire:
  assumes "key_fits max_resp k"
  shows "wire_message NodeToClient (OrdinaryResponse (Key (KeyFlags (keyflags k)) (key_name k)))"
  using assms wf_keyflags [of "key_perm k"]
  by (simp add: key_fits_def key_ok_def key_typed_def wire_message_def opcodes_of_def node_opcodes_def keyflags_def)

lemma value_messages_wire:
  assumes "key_fits max_resp k"
  shows "wire_message NodeToClient (OrdinaryResponse (Value (key_wire k)))"
    and "wire_message NodeToClient (OrdinaryResponse (Written (key_wire k)))"
  using assms wire_length [of k]
  by (auto simp: key_fits_def key_ok_def key_wire_len_def wire_message_def opcodes_of_def node_opcodes_def)

lemma embassy_response_answers:
  assumes "server_ok max_resp srv" and "incoming_of max_str m = Some q"
  shows "answers m (embassy_response lib node_id srv q)"
  using assms(2)
  by (cases "(max_str, m)" rule: incoming_of.cases)
    (auto simp: expected_responses embassy_error_codes caps_message_def split: slot.splits option.splits)

lemma embassy_response_wire:
  assumes ok: "server_ok max_resp srv" and wf: "wf_incoming q" and id: "wf_str node_id" "length node_id \<le> 65533"
  shows "wire_message NodeToClient (embassy_response lib node_id srv q)"
proof -
  have refuse: "wire_message NodeToClient (refuse code)" for code
    by (simp add: wire_message_def opcodes_of_def node_opcodes_def)
  have ok_msg: "wire_message NodeToClient (OrdinaryResponse Ok)"
    by (simp add: wire_message_def opcodes_of_def node_opcodes_def)
  show ?thesis
  proof (cases q)
    case InIdentify
    then show ?thesis using id by (simp add: wire_message_def opcodes_of_def node_opcodes_def)
  next
    case InGetCaps
    then show ?thesis using caps_wf [of srv] caps_length [of srv] embassy_caps_parse [of srv]
      by (simp add: caps_message_def wire_message_def wf_caps_def opcodes_of_def node_opcodes_def)
  next
    case InGetKeytabLen
    then show ?thesis by (simp add: wire_message_def opcodes_of_def node_opcodes_def)
  next
    case (InGetKey keyref)
    have "wire_message NodeToClient (OrdinaryResponse (Key (KeyFlags 0) []))"
      by (simp add: wire_message_def opcodes_of_def node_opcodes_def wf_flags_def wf_str_def)
    then show ?thesis using InGetKey refuse
      by (auto split: slot.split intro: key_message_wire slot_key [OF ok])
  next
    case (InGet keyref)
    then show ?thesis using refuse by (auto split: slot.split intro: value_messages_wire(1) slot_key [OF ok])
  next
    case (InWrite keyref v)
    have "wire_message NodeToClient (OrdinaryResponse (Written (value_repr (key_type (srv_keys srv ! i)) x)))"
      if "stored_by_write lib srv keyref v = Some (i, x)" for i x
    proof -
      have st: "slot_of_keyref srv keyref = SlotOf i" "i < length (srv_keys srv)"
        "value_inhabits (key_type (srv_keys srv ! i)) x" "wf_value (value_repr (key_type (srv_keys srv ! i)) x)"
        using stored_by_write_ok [OF ok _ that] wf InWrite by simp_all
      have "key_fits max_resp (key_store lib x (srv_keys srv ! i))"
        using slot_key [OF ok st(1)] key_store_ok(2) [OF _ st(3,4), of lib]
        by (auto simp: key_fits_def key_ok_def key_wire_len_def)
      then show ?thesis using value_messages_wire(2) by (fastforce simp: key_wire_def)
    qed
    then show ?thesis using InWrite refuse by (auto split: slot.split option.split)
  qed (use refuse ok_msg in \<open>auto split: slot.split\<close>)
qed

end

section \<open>A concrete environment\<close>

text \<open>
  The bytes the peer sends, in their order, with the bytes written to it, and no other task; the
  outcomes of \<open>select\<close> decide which of them have arrived.
\<close>

record list_stream =
  ls_in :: bytes
  ls_out :: bytes

definition ls_read :: "(('g, list_stream) world, unit) reader" where
  "ls_read n w =
     (if n \<le> length (ls_in (w_stream w))
      then (Inr (take n (ls_in (w_stream w))),
            w\<lparr>w_stream := (w_stream w)\<lparr>ls_in := drop n (ls_in (w_stream w))\<rparr>\<rparr>)
      else (Inl (), w))"

definition ls_write :: "(('g, list_stream) world, unit) writer" where
  "ls_write bs w = (Inr (), w\<lparr>w_stream := (w_stream w)\<lparr>ls_out := ls_out (w_stream w) @ bs\<rparr>\<rparr>)"

definition ls_pending :: "('g, list_stream) world \<Rightarrow> bytes" where
  "ls_pending w = ls_in (w_stream w)"

definition ls_written :: "('g, list_stream) world \<Rightarrow> bytes" where
  "ls_written w = ls_out (w_stream w)"

interpretation ls: embassy_env flag_lib ls_read ls_pending "\<lambda>_. True" ls_write ls_written
  by unfold_locales (auto simp: ls_read_def ls_write_def ls_pending_def ls_written_def split: if_splits)

lemma ls_send_frame:
  assumes "length payload \<le> 65535"
  shows "(send_frame_to ls_write oc payload :: (('g, list_stream) world, 're, unit, unit) srv_action) w =
    (Inr (), w\<lparr>w_stream := (w_stream w)\<lparr>ls_out := ls_out (w_stream w) @ frame_bytes oc payload\<rparr>\<rparr>)"
  unfolding send_frame_to_eq [OF assms]
  by (simp add: act_bind_def send_bytes_def act_map_err_def ls_write_def frame_bytes_def)

definition sample_server :: "bool server" where
  "sample_server = \<lparr>srv_has_observable = True, srv_keys = [sample_key], srv_notifier = False\<rparr>"

definition sample_serving :: "bytes \<Rightarrow> (bool, list_stream) serving" where
  "sample_serving input = serving_start \<lparr>w_server = sample_server, w_stream = \<lparr>ls_in = input, ls_out = []\<rparr>\<rparr> 10"

lemma sample_serving_ok: "serving_ok (\<lambda>_. True) (sample_serving input)"
proof -
  have "key_ok sample_key"
    using sample_key_typed by (simp add: key_ok_def key_wire_def sample_key_def ascii_def ascii_wf_str)
  then show ?thesis
    by (simp add: serving_ok_def sample_serving_def serving_start_def server_ok_def sample_server_def Let_def
        key_fits_def key_wire_len_def sample_key_def enum_MAX_WIRE_LEN_def enum_MAX_STR_LEN_def ascii_def
        key_observable_def perm_tests)
qed

lemma handle_request_Inr:
  assumes "embassy_env lib (read_exact :: (('g, 's) world, 're) reader) pending valid write_all written"
    and "serving_ok valid r" and "wf_incoming q" and "length node_id \<le> 65533"
    and "(handle_request lib write_all node_id q :: ('g, 's, 're, 'we, unit) handler) r = (Inr (), r')"
  shows "written (sv_world r') = written (sv_world r) @ message_bytes (embassy_response lib node_id (sv_server r) q)"
    and "local_steps lib (embassy_store lib (sv_server r) q) (sv_server r')"
    and "sv_watching r' = embassy_watch (sv_server r) q (sv_watching r)"
proof -
  have "replies lib pending valid written r (handle_request lib write_all node_id q :: ('g, 's, 're, 'we, unit) handler)
      (message_bytes (embassy_response lib node_id (sv_server r) q))
      (embassy_store lib (sv_server r) q) (embassy_watch (sv_server r) q (sv_watching r))"
    by (rule embassy_env.handle_request_refines [OF assms(1-4)])
  then show "written (sv_world r') = written (sv_world r) @ message_bytes (embassy_response lib node_id (sv_server r) q)"
    and "local_steps lib (embassy_store lib (sv_server r) q) (sv_server r')"
    and "sv_watching r' = embassy_watch (sv_server r) q (sv_watching r)"
    unfolding replies_def using assms(5) by simp_all
qed

section \<open>Properties\<close>

text \<open>
  C2: the request handler of the embassy server refines its specification, whatever other
  tasks do to the keys at its awaits: it writes exactly the specified response, makes exactly
  the specified change to the registry (later changes are those of other tasks) and to the
  observation state of the connection, and fails only with an error of the stream.
\<close>

theorem handle_request_correct:
  assumes "embassy_env lib (read_exact :: (('g, 's) world, 're) reader) pending valid write_all written"
    and "serving_ok valid r" and "wf_incoming q" and "length node_id \<le> 65533"
  shows "\<exists>res r'. (handle_request lib write_all node_id q :: ('g, 's, 're, 'we, unit) handler) r = (res, r')
     \<and> (res = Inr () \<and> written (sv_world r') =
            written (sv_world r) @ message_bytes (embassy_response lib node_id (sv_server r) q)
        \<or> (\<exists>e. res = Inl (Fail (ServerWrite e))))
     \<and> local_steps lib (embassy_store lib (sv_server r) q) (sv_server r')
     \<and> sv_watching r' = embassy_watch (sv_server r) q (sv_watching r)"
proof -
  have "replies lib pending valid written r (handle_request lib write_all node_id q :: ('g, 's, 're, 'we, unit) handler)
      (message_bytes (embassy_response lib node_id (sv_server r) q))
      (embassy_store lib (sv_server r) q) (embassy_watch (sv_server r) q (sv_watching r))"
    by (rule embassy_env.handle_request_refines [OF assms])
  then show ?thesis unfolding replies_def by fast
qed

lemma handle_request_correct_witness:
  "\<exists>res r'. handle_request flag_lib ls_write (ascii ''n'') (InWrite 0 (WireStr (ascii ''partial''))) (sample_serving []) = (res, r')
     \<and> (res = (Inr () :: (unit, unit) server_error fault + unit) \<and> ls_written (sv_world r') =
            ls_written (sv_world (sample_serving [])) @ message_bytes (embassy_response flag_lib (ascii ''n'')
               (sv_server (sample_serving [])) (InWrite 0 (WireStr (ascii ''partial''))))
        \<or> (\<exists>e. res = Inl (Fail (ServerWrite e))))
     \<and> local_steps flag_lib (embassy_store flag_lib (sv_server (sample_serving [])) (InWrite 0 (WireStr (ascii ''partial''))))
         (sv_server r')
     \<and> sv_watching r' = embassy_watch (sv_server (sample_serving [])) (InWrite 0 (WireStr (ascii ''partial'')))
         (sv_watching (sample_serving []))"
  by (rule handle_request_correct [OF ls.embassy_env_axioms sample_serving_ok]) (simp_all add: ascii_def ascii_wf_str)

text \<open>
  Every well-formed request to an embassy server is answered by exactly one frame: the
  success response the protocol pairs with the request, well formed and within the length
  field, or an error with a code the protocol lists for it.
\<close>

lemma embassy_answers_request:
  assumes "embassy_env lib (read_exact :: (('g, 's) world, 're) reader) pending valid write_all written"
    and "serving_ok valid r" and "wire_message ClientToNode m" and "incoming_of max_str m = Some q"
    and "wf_str node_id" and "length node_id \<le> 65533"
    and "(handle_request lib write_all node_id q :: ('g, 's, 're, 'we, unit) handler) r = (Inr (), r')"
  shows "\<exists>m'. written (sv_world r') = written (sv_world r) @ message_bytes m'
     \<and> wire_message NodeToClient m' \<and> answers m m'"
proof -
  have wf: "wf_incoming q" using assms(3,4)
    by (cases "(max_str, m)" rule: incoming_of.cases) (auto simp: wire_message_def intro: wf_wire_in)
  have lib: "embassy_library lib" using assms(1) by (simp add: embassy_env_def)
  have ok: "server_ok (length (sv_payload r)) (sv_server r)" using assms(2) by (simp add: serving_ok_def)
  note handle_request_Inr(1) [OF assms(1,2) wf assms(6,7)]
  with embassy_library.embassy_response_wire [OF lib ok wf assms(5,6)]
    embassy_library.embassy_response_answers [OF lib ok assms(4)] show ?thesis by blast
qed

lemma embassy_answers_request_witness:
  "\<exists>r' m'. (handle_request flag_lib ls_write (ascii ''n'') InPing :: (bool, list_stream, unit, unit, unit) handler)
        (sample_serving []) = (Inr (), r')
     \<and> ls_written (sv_world r') = ls_written (sv_world (sample_serving [])) @ message_bytes m'
     \<and> wire_message NodeToClient m' \<and> answers (Request Ping) m'"
proof -
  have "fst ((handle_request flag_lib ls_write (ascii ''n'') InPing :: (bool, list_stream, unit, unit, unit) handler)
      (sample_serving [])) = Inr ()" by (simp add: handle_request_def on_world_def ls_send_frame)
  then obtain r' where r': "(handle_request flag_lib ls_write (ascii ''n'') InPing :: (bool, list_stream, unit, unit, unit) handler)
      (sample_serving []) = (Inr (), r')" by (metis prod.collapse)
  have "\<exists>m'. ls_written (sv_world r') = ls_written (sv_world (sample_serving [])) @ message_bytes m'
     \<and> wire_message NodeToClient m' \<and> answers (Request Ping) m'"
    by (rule embassy_answers_request [OF ls.embassy_env_axioms sample_serving_ok _ _ _ _ r', where max_str = 16])
      (simp_all add: ascii_def ascii_wf_str wire_message_def opcodes_of_def client_opcodes_def)
  with r' show ?thesis by blast
qed

text \<open>
  A request that an embassy server answers with an error has no side effect: the
  observation state is unchanged and the registry changes only by what other tasks set.
\<close>

lemma embassy_error_no_effect:
  assumes "embassy_env lib (read_exact :: (('g, 's) world, 're) reader) pending valid write_all written"
    and "serving_ok valid r" and "wf_incoming q" and "length node_id \<le> 65533"
    and "(handle_request lib write_all node_id q :: ('g, 's, 're, 'we, unit) handler) r = (Inr (), r')"
    and "written (sv_world r') = written (sv_world r) @ message_bytes (Error err)"
    and "wf_str node_id"
  shows "sv_watching r' = sv_watching r \<and> local_steps lib (sv_server r) (sv_server r')"
proof -
  have lib: "embassy_library lib" using assms(1) by (simp add: embassy_env_def)
  have ok: "server_ok (length (sv_payload r)) (sv_server r)" using assms(2) by (simp add: serving_ok_def)
  let ?m = "embassy_response lib node_id (sv_server r) q"
  note * = handle_request_Inr [OF assms(1-5)]
  have "message_bytes ?m = message_bytes (Error err)" using *(1) assms(6) by simp
  moreover have "wire_message NodeToClient (Error err)"
    by (simp add: wire_message_def opcodes_of_def node_opcodes_def)
  ultimately have m: "?m = Error err"
    using message_bytes_inj embassy_library.embassy_response_wire [OF lib ok assms(3,7,4)] by metis
  have "embassy_watch (sv_server r) q (sv_watching r) = sv_watching r" "embassy_store lib (sv_server r) q = sv_server r"
    using m by (cases q; auto simp: stored_by_write_def caps_message_def split: slot.splits option.splits if_splits sum.splits)+
  with * show ?thesis by simp
qed

lemma embassy_error_no_effect_witness:
  "\<exists>r'. (handle_request flag_lib ls_write (ascii ''n'') (InObserve 9) :: (bool, list_stream, unit, unit, unit) handler)
        (sample_serving []) = (Inr (), r')
     \<and> ls_written (sv_world r') = ls_written (sv_world (sample_serving [])) @ message_bytes (Error (ErrorResponse 1))
     \<and> sv_watching r' = sv_watching (sample_serving [])
     \<and> local_steps flag_lib (sv_server (sample_serving [])) (sv_server r')"
proof -
  let ?run = "(handle_request flag_lib ls_write (ascii ''n'') (InObserve 9) :: (bool, list_stream, unit, unit, unit) handler)
      (sample_serving [])"
  have *: "fst ?run = Inr () \<and> ls_written (sv_world (snd ?run)) =
      ls_written (sv_world (sample_serving [])) @ message_bytes (Error (ErrorResponse 1))"
    by (simp add: handle_request_def answer_observe_def on_world_def send_error_def ls_send_frame ls_written_def
        message_bytes_def ERROR_UNKNOWN_KEYREF_def key_count_def sample_serving_def serving_start_def sample_server_def
        sample_key_def u16_saturating_add_def Let_def)
  then have r': "?run = (Inr (), snd ?run)" by (metis prod.collapse)
  have "sv_watching (snd ?run) = sv_watching (sample_serving [])
      \<and> local_steps flag_lib (sv_server (sample_serving [])) (sv_server (snd ?run))"
    by (rule embassy_error_no_effect [OF ls.embassy_env_axioms sample_serving_ok _ _ r'])
      (use * in \<open>simp_all add: ascii_def ascii_wf_str\<close>)
  with r' * show ?thesis by blast
qed

end
