(* ===== verification/Embassy_Notify.thy ===== *)
theory Embassy_Notify
  imports Embassy_Handle
begin

text \<open>
  Notifications of the embassy server: what reading a request leaves of the world, which
  CHANGED frames \<open>flush_notifications\<close> sends while other tasks keep setting keys, and the
  invariant that an observed key whose change was not announced yet keeps the notifier signalled.
\<close>

section \<open>Reading only moves the stream\<close>

text \<open>A relation that every \<open>read_exact\<close> respects is respected by the whole reader.\<close>

locale tracked_relation =
  fixes read_exact :: "('r, 'e) reader" and keep :: "'r \<Rightarrow> bool" and rel :: "'r \<Rightarrow> 'r \<Rightarrow> bool"
  assumes rel_refl: "rel r r" and rel_trans: "rel r s \<Longrightarrow> rel s t \<Longrightarrow> rel r t"
    and read_rel: "keep r \<Longrightarrow> read_exact n r = (res, r') \<Longrightarrow> keep r' \<and> rel r r'"

definition upholds ::
  "('r \<Rightarrow> bool) \<Rightarrow> ('r \<Rightarrow> 'r \<Rightarrow> bool) \<Rightarrow> ('r, 're, 'we, 'a) read_action \<Rightarrow> bool" where
  "upholds keep rel m \<longleftrightarrow>
     (\<forall>r acc res r' acc'. keep r \<longrightarrow> m (r, acc) = (res, (r', acc')) \<longrightarrow> keep r' \<and> rel r r')"

context tracked_relation
begin

lemma pure_upholds: "(\<And>s. m s = (res, s)) \<Longrightarrow> upholds keep rel m"
  by (simp add: upholds_def rel_refl)

lemma act_upholds: "upholds keep rel (act_ok a)" "upholds keep rel (act_err f)" "upholds keep rel (act_lift l)"
  by (rule pure_upholds, simp)+

lemma bind_upholds:
  assumes "upholds keep rel m" and "\<And>a. upholds keep rel (f a)"
  shows "upholds keep rel (act_bind m f)"
  unfolding upholds_def
proof (intro allI impI)
  fix r acc res r' acc' assume r: "keep r" and run: "act_bind m f (r, acc) = (res, (r', acc'))"
  obtain res1 r1 acc1 where m: "m (r, acc) = (res1, (r1, acc1))" by (metis surj_pair)
  with r assms(1) have 1: "keep r1 \<and> rel r r1" unfolding upholds_def by blast
  show "keep r' \<and> rel r r'"
  proof (cases res1)
    case (Inl e)
    then show ?thesis using m run 1 by (simp add: act_bind_def)
  next
    case (Inr a)
    then have "f a (r1, acc1) = (res, (r', acc'))" using m run by (simp add: act_bind_def)
    then have "keep r' \<and> rel r1 r'" using assms(2) 1 unfolding upholds_def by blast
    then show ?thesis using 1 rel_trans by blast
  qed
qed

lemma tracked_upholds: "upholds keep rel (read_exact_tracked read_exact n)"
  using read_rel by (fastforce simp: upholds_def read_exact_tracked_def split: prod.splits sum.splits)

lemma finish_upholds: "upholds keep rel (finish_checksum read_exact)"
  using read_rel by (fastforce simp: upholds_def finish_checksum_def Let_def split: prod.splits sum.splits)

lemma discard_upholds: "upholds keep rel (discard_exact read_exact n :: ('r, 'e, 'we, unit) read_action)"
proof (induction n rule: less_induct)
  case (less n)
  show ?case
  proof (cases "n = 0")
    case True
    then show ?thesis by (intro pure_upholds) (simp add: discard_exact.simps)
  next
    case False
    then have "(discard_exact read_exact n :: ('r, 'e, 'we, unit) read_action) =
        act_bind (read_exact_tracked read_exact (min n DISCARD_CHUNK)) (\<lambda>_. discard_exact read_exact (n - min n DISCARD_CHUNK))"
      by (subst discard_exact.simps [abs_def]) (simp add: act_bind_def fun_eq_iff Let_def split: prod.splits sum.splits)
    moreover have "n - min n DISCARD_CHUNK < n" using False by (simp add: DISCARD_CHUNK_def)
    ultimately show ?thesis using less by (simp add: bind_upholds tracked_upholds)
  qed
qed

lemma oversized_upholds: "upholds keep rel (read_oversized read_exact n v :: ('r, 'e, 'we, _) read_action)"
proof (induction n arbitrary: v rule: less_induct)
  case (less n)
  show ?case
  proof (cases "n = 0")
    case True
    then show ?thesis by (intro pure_upholds) (simp add: read_oversized.simps)
  next
    case False
    then have "(read_oversized read_exact n v :: ('r, 'e, 'we, _) read_action) =
        act_bind (read_exact_tracked read_exact (min n DISCARD_CHUNK)) (\<lambda>chunk.
          case feed_first chunk v of (Inl _, _) \<Rightarrow> act_err Panic
          | (Inr _, v') \<Rightarrow> read_oversized read_exact (n - min n DISCARD_CHUNK) v')"
      by (subst read_oversized.simps [abs_def])
        (simp add: act_bind_def act_err_def fun_eq_iff Let_def split: prod.splits sum.splits)
    moreover have "n - min n DISCARD_CHUNK < n" using False by (simp add: DISCARD_CHUNK_def)
    ultimately show ?thesis using less
      by (auto intro!: bind_upholds tracked_upholds act_upholds split: prod.split sum.split)
  qed
qed

lemmas upholds_intros = bind_upholds tracked_upholds finish_upholds discard_upholds oversized_upholds act_upholds

lemma reject_upholds: "upholds keep rel (reject_payload read_exact n e :: ('r, 'e, 'we, 'a) read_action)"
  unfolding reject_payload_def by (intro upholds_intros)

lemma empty_upholds: "upholds keep rel (read_empty_request read_exact oc n q :: ('r, 'e, 'we, _) read_action)"
  by (simp add: read_empty_request_def reject_upholds upholds_intros)

lemma keyref_upholds: "upholds keep rel (read_keyref_request read_exact oc n c :: ('r, 'e, 'we, _) read_action)"
  by (simp add: read_keyref_request_def reject_upholds upholds_intros)

lemma value_upholds:
  "upholds keep rel (read_write_bool read_exact k n :: ('r, 'e, 'we, _) read_action)"
  "upholds keep rel (read_write_i64 read_exact k n :: ('r, 'e, 'we, _) read_action)"
  by (simp_all add: read_write_bool_def read_write_i64_def reject_upholds upholds_intros)

lemma write_str_upholds: "upholds keep rel (read_write_str read_exact max_str k n :: ('r, 'e, 'we, _) read_action)"
  unfolding read_write_str_def Let_def
  by (simp add: reject_upholds) (auto intro!: upholds_intros reject_upholds split: option.split)

lemma write_request_upholds:
  "upholds keep rel (read_write_request read_exact max_str n :: ('r, 'e, 'we, _) read_action)"
  unfolding read_write_request_def Let_def
  by (simp add: reject_upholds) (auto intro!: bind_upholds tracked_upholds reject_upholds value_upholds write_str_upholds
    split: sum.split value_kind.split)

lemma body_upholds: "upholds keep rel (read_request_body read_exact max_str oc n :: ('r, 'e, 'we, _) read_action)"
  by (simp add: read_request_body_def empty_upholds keyref_upholds write_request_upholds act_upholds)

lemma read_request_rel:
  assumes "keep r" and run: "read_request read_exact max_str r = (res :: ('e, 'we) server_error fault + _, r')"
  shows "keep r' \<and> rel r r'"
proof -
  obtain res1 r1 where head: "read_exact 3 r = (res1, r1)" by fastforce
  note 1 = read_rel [OF assms(1) head]
  show ?thesis
  proof (cases res1)
    case (Inl e)
    then show ?thesis using run head 1 by (simp add: read_request_def)
  next
    case (Inr header)
    let ?oc = "Opcode (header ! 0)" and ?n = "from_be [header ! 1, header ! 2] :: u16"
    show ?thesis
    proof (cases "validate ?oc ClientToNode")
      case (Inl e)
      then show ?thesis using run head 1 Inr by (simp add: read_request_def Let_def)
    next
      case ok: (Inr u)
      obtain res2 r2 acc2 where body: "(read_request_body read_exact max_str ?oc ?n (r1, frame_sum_new ?oc ?n)
          :: (('e, 'we) server_error fault + _) \<times> _) = (res2, (r2, acc2))" by (metis surj_pair)
      then have "r' = r2" using run head Inr ok by (simp add: read_request_def Let_def)
      then show ?thesis
        using body_upholds [of max_str ?oc ?n] body 1 rel_trans unfolding upholds_def by blast
    qed
  qed
qed

end

sublocale embassy_env \<subseteq> reads: tracked_relation read_exact valid
  "\<lambda>w w'. written w' = written w \<and> local_steps lib (w_server w) (w_server w')"
  by unfold_locales (use read_local in \<open>auto intro: rtranclp_trans\<close>)

section \<open>Flushing notifications\<close>

text \<open>An observed key whose last change has not been announced on the connection.\<close>

definition unannounced :: "('g, 's) serving \<Rightarrow> nat \<Rightarrow> bool" where
  "unannounced r i \<longleftrightarrow> sv_observed r ! i \<and> key_observable (sv_key r i)
     \<and> key_generation (sv_key r i) \<noteq> sv_seen r ! i"

definition changed_frame :: "'g server \<Rightarrow> nat \<Rightarrow> bytes" where
  "changed_frame srv i = message_bytes (Changed (key_keyref (srv_keys srv ! i)))"

text \<open>
  The keys a flush announces are determined by the generation it reads when it comes to each
  key; other tasks may set keys in between.
\<close>

definition due :: "('g, 's) serving \<Rightarrow> (nat \<Rightarrow> u32) \<Rightarrow> nat \<Rightarrow> bool" where
  "due r gens i \<longleftrightarrow> sv_observed r ! i \<and> key_observable (sv_key r i) \<and> gens i \<noteq> sv_seen r ! i"

definition seen_after :: "('g, 's) serving \<Rightarrow> (nat \<Rightarrow> u32) \<Rightarrow> nat set \<Rightarrow> u32 list" where
  "seen_after r gens js = map (\<lambda>i. if i \<in> js \<and> due r gens i then gens i else sv_seen r ! i) [0..<length (sv_seen r)]"

text \<open>The generation of key \<open>i\<close> was read in a registry between \<open>srv\<close> and \<open>srv'\<close>.\<close>

definition read_between :: "'g embassy_lib \<Rightarrow> 'g server \<Rightarrow> 'g server \<Rightarrow> nat \<Rightarrow> u32 \<Rightarrow> bool" where
  "read_between lib srv srv' i g \<longleftrightarrow>
     (\<exists>m. local_steps lib srv m \<and> local_steps lib m srv' \<and> key_generation (srv_keys m ! i) = g)"

definition flushes ::
  "'g embassy_lib \<Rightarrow> (('g, 's) world \<Rightarrow> bytes) \<Rightarrow> (('g, 's) world \<Rightarrow> bool) \<Rightarrow> (('g, 's) world \<Rightarrow> bytes) \<Rightarrow>
   ('g, 's, 're, 'we, unit) handler \<Rightarrow> nat list \<Rightarrow> ('g, 's) serving \<Rightarrow> bool" where
  "flushes lib pending valid written h js r \<longleftrightarrow>
     (\<exists>res r' gens. h r = (res, r') \<and> serving_ok valid r' \<and> pending (sv_world r') = pending (sv_world r)
        \<and> local_steps lib (sv_server r) (sv_server r') \<and> sv_observed r' = sv_observed r
        \<and> length (sv_payload r') = length (sv_payload r)
        \<and> (res = Inr () \<and> sv_seen r' = seen_after r gens (set js)
              \<and> written (sv_world r') = written (sv_world r) @ concat (map (changed_frame (sv_server r)) (filter (due r gens) js))
              \<and> (\<forall>i \<in> set js. read_between lib (sv_server r) (sv_server r') i (gens i))
           \<or> (\<exists>e. res = Inl (Fail (ServerWrite e)))))"

lemma seen_after_update:
  assumes "i \<notin> set js" and "i < length (sv_seen r)" and "due r gens i \<or> x = sv_seen r ! i"
    and "sv_seen r' = (sv_seen r)[i := x]" and "\<And>j. j \<in> set js \<Longrightarrow> due r' gens j = due r gens j"
    and "gens i = x"
  shows "seen_after r' gens (set js) = seen_after r gens (set (i # js))"
  using assms unfolding seen_after_def by (intro nth_equalityI) (auto simp: nth_list_update)

lemma static_key:
  assumes "srv_static srv' = srv_static srv" and "i < length (srv_keys srv)"
  shows "key_observable (srv_keys srv' ! i) = key_observable (srv_keys srv ! i)"
    and "key_keyref (srv_keys srv' ! i) = key_keyref (srv_keys srv ! i)"
    and "key_notifier (srv_keys srv' ! i) = key_notifier (srv_keys srv ! i)"
proof -
  have m: "map key_static (srv_keys srv') = map key_static (srv_keys srv)" using assms(1) by (simp add: srv_static_def)
  then have "key_static (srv_keys srv' ! i) = key_static (srv_keys srv ! i)"
    using assms(2) by (metis nth_map length_map)
  then show "key_observable (srv_keys srv' ! i) = key_observable (srv_keys srv ! i)"
    "key_keyref (srv_keys srv' ! i) = key_keyref (srv_keys srv ! i)"
    "key_notifier (srv_keys srv' ! i) = key_notifier (srv_keys srv ! i)"
    by (simp_all add: key_static_def key_observable_def)
qed

context embassy_env
begin

lemma serving_ok_after:
  assumes "serving_ok valid r" and "local_steps lib (sv_server r) (sv_server r')" and "valid (sv_world r')"
    and "length (sv_payload r') = length (sv_payload r)" and "length (sv_observed r') = length (sv_observed r)"
    and "length (sv_seen r') = length (sv_seen r)"
  shows "serving_ok valid r'"
  using assms local_steps_ok [OF assms(2)] arg_cong [OF local_steps_static [OF assms(2)], of "\<lambda>s. length (snd s)"]
  by (simp add: serving_ok_def srv_static_def)

lemma flush_key_replies:
  assumes ok: "serving_ok valid r" and "i < length (srv_keys (sv_server r))"
  shows "replies lib pending valid written r (flush_key write_all i :: ('g, 's, 're, 'we, unit) handler)
     (if unannounced r i then changed_frame (sv_server r) i else []) (sv_server r)
     (sv_observed r, if unannounced r i then (sv_seen r)[i := key_generation (sv_key r i)] else sv_seen r)"
proof (cases "unannounced r i")
  case True
  let ?k = "key_keyref (sv_key r i)"
  let ?r1 = "r\<lparr>sv_seen := (sv_seen r)[i := key_generation (sv_key r i)], sv_payload := to_be 2 ?k @ drop 2 (sv_payload r)\<rparr>"
  have two: "2 \<le> length (sv_payload r)" and v: "valid (sv_world r)"
    using ok by (simp_all add: serving_ok_def server_ok_def)
  have "(flush_key write_all i :: ('g, 's, 're, 'we, unit) handler) r =
      on_world (send_frame_to write_all CHANGED (to_be 2 ?k)) ?r1"
    using True two send_encoded [of ?r1 "to_be 2 ?k" "drop 2 (sv_payload r)" write_all CHANGED]
    by (simp add: flush_key_def unannounced_def act_bind_def fill_payload_def write_front_fits Let_def sv_key_def)
  note h = this
  have fr: "changed_frame (sv_server r) i = frame_bytes CHANGED (to_be 2 ?k)"
    by (simp add: changed_frame_def message_bytes_def sv_key_def)
  show ?thesis unfolding if_P [OF True] fr
    using two v by (intro replies_on_world [OF send_frame_sends, where ?r1.0 = ?r1]) (simp_all add: h)
next
  case False
  then have "(flush_key write_all i :: ('g, 's, 're, 'we, unit) handler) r = (Inr (), r)"
    by (auto simp: flush_key_def unannounced_def Let_def)
  then show ?thesis using False ok by (simp add: replies_def serving_ok_def)
qed

lemma flush_keys_flushes:
  assumes "serving_ok valid r" and "distinct js" and "set js \<subseteq> {..<length (srv_keys (sv_server r))}"
  shows "flushes lib pending valid written (flush_keys write_all js :: ('g, 's, 're, 'we, unit) handler) js r"
  using assms
proof (induction js arbitrary: r)
  case Nil
  then show ?case unfolding flushes_def
    by (intro exI [of _ "Inr ()"] exI [of _ r]) (simp add: seen_after_def map_nth)
next
  case (Cons i js)
  then have i: "i < length (srv_keys (sv_server r))" and ok: "serving_ok valid r" by simp_all
  obtain res1 r1 where run1: "(flush_key write_all i :: ('g, 's, 're, 'we, unit) handler) r = (res1, r1)"
    and v1: "valid (sv_world r1)" and p1: "pending (sv_world r1) = pending (sv_world r)"
    and l1: "local_steps lib (sv_server r) (sv_server r1)" and obs1: "sv_observed r1 = sv_observed r"
    and seen1: "sv_seen r1 = (if unannounced r i then (sv_seen r)[i := key_generation (sv_key r i)] else sv_seen r)"
    and len1: "length (sv_payload r1) = length (sv_payload r)"
    and res1: "res1 = Inr () \<and> written (sv_world r1) = written (sv_world r) @
        (if unannounced r i then changed_frame (sv_server r) i else []) \<or> (\<exists>e. res1 = Inl (Fail (ServerWrite e)))"
    using flush_key_replies [OF ok i] unfolding replies_def by auto
  have ok1: "serving_ok valid r1"
    using serving_ok_after [OF ok l1 v1 len1] obs1 seen1 by simp
  have st: "srv_static (sv_server r1) = srv_static (sv_server r)" by (rule local_steps_static [OF l1])
  show ?case
  proof (cases res1)
    case (Inl f)
    then show ?thesis unfolding flushes_def using run1 ok1 p1 l1 obs1 len1 res1
      by (intro exI [of _ res1] exI [of _ r1]) (simp add: act_bind_def)
  next
    case (Inr u)
    have n1: "length (srv_keys (sv_server r1)) = length (srv_keys (sv_server r))"
      using static_nth(2) [OF st i] .
    obtain res2 r2 gens where run2: "(flush_keys write_all js :: ('g, 's, 're, 'we, unit) handler) r1 = (res2, r2)"
      and 2: "serving_ok valid r2" "pending (sv_world r2) = pending (sv_world r1)"
        "local_steps lib (sv_server r1) (sv_server r2)" "sv_observed r2 = sv_observed r1"
        "length (sv_payload r2) = length (sv_payload r1)"
      and res2: "res2 = Inr () \<and> sv_seen r2 = seen_after r1 gens (set js)
              \<and> written (sv_world r2) = written (sv_world r1) @ concat (map (changed_frame (sv_server r1)) (filter (due r1 gens) js))
              \<and> (\<forall>i \<in> set js. read_between lib (sv_server r1) (sv_server r2) i (gens i))
           \<or> (\<exists>e. res2 = Inl (Fail (ServerWrite e)))"
      using Cons.IH [OF ok1] Cons.prems n1 unfolding flushes_def by auto
    let ?gens = "gens(i := key_generation (sv_key r i))"
    have due_i: "due r ?gens i = unannounced r i" by (simp add: due_def unannounced_def)
    have due_js: "due r1 gens j = due r ?gens j" if "j \<in> set js" for j
      using that Cons.prems obs1 seen1 static_key(1) [OF st, of j] by (auto simp: due_def sv_key_def)
    have frames: "map (changed_frame (sv_server r1)) (filter (due r1 gens) js) =
        map (changed_frame (sv_server r)) (filter (due r ?gens) js)"
    proof -
      have "filter (due r1 gens) js = filter (due r ?gens) js" by (rule filter_cong) (use due_js in simp_all)
      moreover have "changed_frame (sv_server r1) j = changed_frame (sv_server r) j" if "j \<in> set js" for j
        using that Cons.prems static_key(2) [OF st, of j] by (auto simp: changed_frame_def)
      ultimately show ?thesis by (simp add: map_eq_conv)
    qed
    have seen: "seen_after r1 gens (set js) = seen_after r ?gens (set (i # js))"
      using Cons.prems seen1 due_js due_i ok n1 unfolding seen_after_def serving_ok_def
      by (intro nth_equalityI) (auto simp: nth_list_update)
    have between: "read_between lib (sv_server r) (sv_server r2) j (?gens j)"
      if "res2 = Inr ()" and "j \<in> set (i # js)" for j
    proof (cases "j = i")
      case True
      then show ?thesis using l1 2(3) by (auto simp: read_between_def sv_key_def intro: rtranclp_trans)
    next
      case False
      then have "read_between lib (sv_server r1) (sv_server r2) j (gens j)" using that res2 by auto
      then show ?thesis using False l1 unfolding read_between_def by (auto intro: rtranclp_trans)
    qed
    have run: "(flush_keys write_all (i # js) :: ('g, 's, 're, 'we, unit) handler) r = (res2, r2)"
      using run1 run2 Inr by (simp add: act_bind_def)
    have written: "written (sv_world r2) = written (sv_world r) @
        concat (map (changed_frame (sv_server r)) (filter (due r ?gens) (i # js)))" if "res2 = Inr ()"
      using res1 res2 Inr frames due_i that by simp
    have "res2 = Inr () \<and> sv_seen r2 = seen_after r ?gens (set (i # js))
        \<and> written (sv_world r2) = written (sv_world r) @
            concat (map (changed_frame (sv_server r)) (filter (due r ?gens) (i # js)))
        \<and> (\<forall>j \<in> set (i # js). read_between lib (sv_server r) (sv_server r2) j (?gens j))
      \<or> (\<exists>e. res2 = Inl (Fail (ServerWrite e)))"
      using res2 written between seen by (cases "res2 = Inr ()") simp_all
    moreover have "local_steps lib (sv_server r) (sv_server r2)" using l1 2(3) by (rule rtranclp_trans)
    moreover have "pending (sv_world r2) = pending (sv_world r)" "sv_observed r2 = sv_observed r"
      "length (sv_payload r2) = length (sv_payload r)" using 2 p1 obs1 len1 by simp_all
    ultimately show ?thesis unfolding flushes_def using run 2(1) by blast
  qed
qed

lemma flush_notifications_flushes:
  assumes ok: "serving_ok valid r"
  shows "flushes lib pending valid written (flush_notifications write_all :: ('g, 's, 're, 'we, unit) handler)
     [0..<length (srv_keys (sv_server r))] r"
proof (cases "srv_has_observable (sv_server r)")
  case True
  then have "(flush_notifications write_all :: ('g, 's, 're, 'we, unit) handler) r =
      flush_keys write_all [0..<length (srv_keys (sv_server r))] r"
    by (simp add: flush_notifications_def)
  moreover have "flushes lib pending valid written
      (flush_keys write_all [0..<length (srv_keys (sv_server r))] :: ('g, 's, 're, 'we, unit) handler)
      [0..<length (srv_keys (sv_server r))] r"
    by (rule flush_keys_flushes [OF ok]) auto
  ultimately show ?thesis by (simp add: flushes_def)
next
  case False
  then have "\<not> due r gens i" if "i < length (srv_keys (sv_server r))" for gens i
    using ok that by (auto simp: serving_ok_def server_ok_def due_def sv_key_def)
  then have none: "filter (due r gens) [0..<length (srv_keys (sv_server r))] = []"
    "seen_after r gens {..<length (srv_keys (sv_server r))} = sv_seen r" for gens
    by (auto simp: seen_after_def filter_empty_conv intro!: nth_equalityI)
  show ?thesis unfolding flushes_def
    using False ok none
    by (intro exI [of _ "Inr ()"] exI [of _ r] exI [of _ "\<lambda>i. key_generation (sv_key r i)"])
      (auto simp: flush_notifications_def atLeast0LessThan read_between_def sv_key_def)
qed

end

end
