(* ===== verification/Embassy_Run.thy ===== *)
theory Embassy_Run
  imports Embassy_Notify
begin

text \<open>
  The serving loop of the embassy server: what one turn does, the invariant of the loop that no
  notification is lost, the transcript of a run, and the sizes \<open>run!\<close> chooses. The outcome of
  \<open>select\<close> in each turn, and with it the moment at which other tasks run, is arbitrary.
\<close>

section \<open>The sizes chosen by the macro\<close>

lemma max_from_eq: "max_from vs index m = foldl max m (drop index vs)"
proof (induction vs index m rule: max_from.induct)
  case (1 vs index m)
  show ?case
  proof (cases "index < length vs")
    case True
    then have "drop index vs = vs ! index # drop (Suc index) vs" by (rule Cons_nth_drop_Suc [symmetric])
    moreover have "max m (vs ! index) = (if m < vs ! index then vs ! index else m)" by (auto simp: max_def)
    ultimately show ?thesis using 1 True by (subst max_from.simps) simp
  qed (subst max_from.simps, simp)
qed

lemma any_from_eq: "any_from vs index \<longleftrightarrow> (\<exists>i. index \<le> i \<and> i < length vs \<and> vs ! i)"
proof (induction vs index rule: any_from.induct)
  case (1 vs index)
  show ?case
  proof (cases "index < length vs \<and> \<not> vs ! index")
    case True
    then have "any_from vs index = (\<exists>i. index + 1 \<le> i \<and> i < length vs \<and> vs ! i)"
      using 1 by (subst any_from.simps) simp
    then show ?thesis using True by (metis Suc_eq_plus1 Suc_leD Suc_leI le_neq_implies_less)
  qed (subst any_from.simps, auto)
qed

lemma foldl_max_bounds:
  fixes vs :: "'a::linorder list"
  shows "m \<le> foldl max m vs" and "v \<in> set vs \<Longrightarrow> v \<le> foldl max m vs"
  and "foldl max m vs \<in> insert m (set vs)"
proof (induction vs arbitrary: m)
  case (Cons x vs)
  { case 1 show ?case using Cons(1) [of "max m x"] by simp }
  { case 2 then show ?case using Cons(1,2) [of "max m x"] by (auto intro: order_trans [of v "max m x"]) }
  { case 3 show ?case using Cons(3) [of "max m x"] by (auto simp: max_def split: if_splits) }
qed simp_all

lemma max_usize_ge: "v \<in> set vs \<Longrightarrow> v \<le> max_usize vs"
  by (simp add: max_usize_def max_from_eq foldl_max_bounds)

lemma any_iff: "any vs \<longleftrightarrow> True \<in> set vs"
  by (auto simp: any_def any_from_eq in_set_conv_nth)

text \<open>Keys a program may pass to \<open>run!\<close>: valid stored values, names and values that fit a frame.\<close>

definition registry_ok :: "'g ekey list \<Rightarrow> bool" where
  "registry_ok keys \<longleftrightarrow>
     (\<forall>k \<in> set keys. key_ok k \<and> length (key_name k) \<le> 65532 \<and> key_wire_len k \<le> 65535)"

lemma attach_notifier_keeps:
  "key_ok (attach_notifier k) = key_ok k" "key_wire_len (attach_notifier k) = key_wire_len k"
  "key_observable (attach_notifier k) = key_observable k" "key_name (attach_notifier k) = key_name k"
  "key_observable k \<Longrightarrow> key_notifier (attach_notifier k)"
  by (auto simp: attach_notifier_def key_ok_def key_typed_def key_wire_def key_wire_len_def key_observable_def)

lemma run_server_ok:
  assumes "registry_ok keys"
  shows "server_ok (run_max_response keys) (attach_notifiers (run_server lib keys))"
proof -
  have two: "2 \<le> run_max_response keys" by (simp add: run_max_response_def max_usize_ge)
  have "key_wire_len k \<le> run_max_response keys" if "k \<in> set keys" for k
  proof -
    have "key_wire_len k \<le> run_max_value keys" using that by (simp add: run_max_value_def max_usize_ge)
    also have "\<dots> \<le> run_max_response keys" by (simp add: run_max_response_def max_usize_ge)
    finally show ?thesis .
  qed
  then show ?thesis
    using assms two
    by (auto simp: server_ok_def attach_notifiers_def run_server_def server_new_def run_has_observable_def any_iff
        key_fits_def registry_ok_def attach_notifier_keeps)
qed

lemma key_fits_string: "k \<in> set keys \<Longrightarrow> type_MAX_STR_LEN (key_type k) \<le> run_max_str keys"
  unfolding run_max_str_def key_max_string_len_def [symmetric] by (rule max_usize_ge) simp

section \<open>One turn of the loop\<close>

text \<open>Every unannounced change keeps the notifier signalled, so the loop will wake up for it.\<close>

definition announced :: "'g embassy_lib \<Rightarrow> ('g, 's) serving \<Rightarrow> bool" where
  "announced lib r \<longleftrightarrow>
     (\<forall>i < length (srv_keys (sv_server r)). unannounced r i \<longrightarrow> srv_ready lib (sv_server r))"

definition frames_of :: "u16 list \<Rightarrow> bytes" where
  "frames_of ks = concat (map (\<lambda>k. message_bytes (Changed k)) ks)"

text \<open>The key references with an observed key.\<close>

definition observed_keyrefs :: "('g, 's) serving \<Rightarrow> u16 set" where
  "observed_keyrefs r = {key_keyref (sv_key r i) |i. i < length (srv_keys (sv_server r))
     \<and> sv_observed r ! i \<and> key_observable (sv_key r i)}"

text \<open>A turn that ends well, having written \<open>bs\<close> and then the CHANGED frames of \<open>ks\<close>.\<close>

definition turn_ends ::
  "'g embassy_lib \<Rightarrow> (('g, 's) world \<Rightarrow> bool) \<Rightarrow> (('g, 's) world \<Rightarrow> bytes) \<Rightarrow>
   ('g, 's) serving \<Rightarrow> bytes \<Rightarrow> u16 list \<Rightarrow> ('g, 's) serving \<Rightarrow> bool" where
  "turn_ends lib valid written r bs ks r' \<longleftrightarrow>
     serving_ok valid r' \<and> announced lib r' \<and> srv_static (sv_server r') = srv_static (sv_server r)
     \<and> length (sv_payload r') = length (sv_payload r)
     \<and> written (sv_world r') = written (sv_world r) @ bs @ frames_of ks \<and> set ks \<subseteq> observed_keyrefs r'"

text \<open>The only failures of the loop: errors of the stream and bytes that violate the protocol.\<close>

definition wire_failure :: "('re, 'we) server_error fault \<Rightarrow> bool" where
  "wire_failure f \<longleftrightarrow> (\<exists>e. f = Fail (ServerRead e)) \<or> (\<exists>e. f = Fail (ServerWrite e)) \<or> (\<exists>e. f = Fail (ServerProtocol e))"

context embassy_env
begin

lemma flush_ends:
  assumes ok: "serving_ok valid r" and run: "(flush_notifications write_all r :: (('re, 'we) server_error fault + unit) \<times> _) = (res, r')"
  shows "(\<exists>ks. res = Inr () \<and> turn_ends lib valid written r [] ks r') \<and> pending (sv_world r') = pending (sv_world r)
        \<and> sv_observed r' = sv_observed r
     \<or> (\<exists>f. res = Inl f \<and> wire_failure f)"
proof -
  let ?n = "length (srv_keys (sv_server r))"
  obtain gens where r': "serving_ok valid r'" "pending (sv_world r') = pending (sv_world r)"
      "local_steps lib (sv_server r) (sv_server r')" "sv_observed r' = sv_observed r"
      "length (sv_payload r') = length (sv_payload r)"
    and res: "res = Inr () \<and> sv_seen r' = seen_after r gens (set [0..<?n])
              \<and> written (sv_world r') = written (sv_world r) @ concat (map (changed_frame (sv_server r)) (filter (due r gens) [0..<?n]))
              \<and> (\<forall>i \<in> set [0..<?n]. read_between lib (sv_server r) (sv_server r') i (gens i))
           \<or> (\<exists>e. res = Inl (Fail (ServerWrite e)))"
    using flush_notifications_flushes [OF ok] run unfolding flushes_def by fastforce
  show ?thesis
  proof (cases "res = Inr ()")
    case True
    have st: "srv_static (sv_server r') = srv_static (sv_server r)" by (rule local_steps_static [OF r'(3)])
    have ann: "announced lib r'"
      unfolding announced_def
    proof (intro allI impI)
      fix i assume "i < length (srv_keys (sv_server r'))" and un: "unannounced r' i"
      moreover have len: "length (srv_keys (sv_server r')) = ?n"
        using arg_cong [OF st, of "\<lambda>s. length (snd s)"] by (simp add: srv_static_def)
      ultimately have i: "i < ?n" by simp
      then have "read_between lib (sv_server r) (sv_server r') i (gens i)" using res True by auto
      then obtain m where m: "local_steps lib (sv_server r) m" "local_steps lib m (sv_server r')"
        "key_generation (srv_keys m ! i) = gens i" unfolding read_between_def by blast
      have okm: "server_ok (length (sv_payload r)) m"
        using ok local_steps_ok [OF m(1)] by (simp add: serving_ok_def)
      have obs: "key_observable (sv_key r i)" using un static_key(1) [OF st i] by (simp add: unannounced_def sv_key_def)
      have stm: "srv_static m = srv_static (sv_server r)" by (rule local_steps_static [OF m(1)])
      have im: "i < length (srv_keys m)" "key_observable (srv_keys m ! i)"
        using static_nth(2) [OF stm i] static_key(1) [OF stm i] i obs by (simp_all add: sv_key_def)
      have "sv_seen r' ! i = gens i"
      proof -
        have "i < length (sv_seen r)" using ok i by (simp add: serving_ok_def)
        moreover have "due r gens i \<or> gens i = sv_seen r ! i" using un obs r'(4) by (auto simp: due_def unannounced_def)
        ultimately show ?thesis using res True i by (auto simp: seen_after_def)
      qed
      then have "key_generation (srv_keys (sv_server r') ! i) \<noteq> key_generation (srv_keys m ! i)"
        using un m(3) by (simp add: unannounced_def sv_key_def)
      then show "srv_ready lib (sv_server r')" by (rule local_steps_ready(2) [OF m(2) okm im])
    qed
    let ?ks = "map (\<lambda>i. key_keyref (sv_key r i)) (filter (due r gens) [0..<?n])"
    have "concat (map (changed_frame (sv_server r)) (filter (due r gens) [0..<?n])) = frames_of ?ks"
      by (simp add: frames_of_def changed_frame_def [abs_def] sv_key_def comp_def)
    moreover have "set ?ks \<subseteq> observed_keyrefs r'"
    proof
      fix k assume "k \<in> set ?ks"
      then obtain i where i: "i < ?n" "due r gens i" "k = key_keyref (sv_key r i)" by auto
      then show "k \<in> observed_keyrefs r'"
        using static_key(1,2) [OF st i(1)] static_nth(2) [OF st i(1)] r'(4)
        by (auto simp: observed_keyrefs_def due_def sv_key_def intro!: exI [of _ i])
    qed
    ultimately have "turn_ends lib valid written r [] ?ks r'"
      using res True r' st ann by (simp add: turn_ends_def)
    then show ?thesis using True r' by blast
  next
    case False
    then show ?thesis using res by (auto simp: wire_failure_def)
  qed
qed

end

section \<open>The transcript of a run\<close>

text \<open>A turn as the peer sees it: a request with its response, or a wake-up, and the keys announced.\<close>

datatype turn = Answered message_ref message_ref "u16 list" | Woken "u16 list"

fun turn_in :: "turn \<Rightarrow> bytes" where
  "turn_in (Answered m m' ks) = message_bytes m"
| "turn_in (Woken ks) = []"

fun turn_out :: "turn \<Rightarrow> bytes" where
  "turn_out (Answered m m' ks) = message_bytes m' @ frames_of ks"
| "turn_out (Woken ks) = frames_of ks"

text \<open>The keys the peer observes after a turn: successful OBSERVE and UNOBSERVE requests change them.\<close>

fun observing :: "turn \<Rightarrow> u16 set \<Rightarrow> u16 set" where
  "observing (Answered (Request (Observe k)) (OrdinaryResponse Ok) ks) obs = insert k obs"
| "observing (Answered (Request (Unobserve k)) (OrdinaryResponse Ok) ks) obs = obs - {k}"
| "observing _ obs = obs"

fun turn_ok :: "u16 set \<Rightarrow> turn \<Rightarrow> bool" where
  "turn_ok obs (Answered m m' ks) \<longleftrightarrow> wire_message ClientToNode m \<and> wire_message NodeToClient m' \<and> answers m m'
     \<and> set ks \<subseteq> observing (Answered m m' ks) obs"
| "turn_ok obs (Woken ks) \<longleftrightarrow> set ks \<subseteq> obs"

fun turns_ok :: "u16 set \<Rightarrow> turn list \<Rightarrow> bool" where
  "turns_ok obs [] = True"
| "turns_ok obs (t # ts) \<longleftrightarrow> turn_ok obs t \<and> turns_ok (observing t obs) ts"

definition watch_inv :: "u16 set \<Rightarrow> ('g, 's) serving \<Rightarrow> bool" where
  "watch_inv obs r \<longleftrightarrow> (\<forall>i < length (srv_keys (sv_server r)). sv_observed r ! i \<longrightarrow>
     find_slot (sv_server r) (key_keyref (sv_key r i)) = Some i \<and> key_keyref (sv_key r i) \<in> obs)"

lemma position_map: "position P (map f xs) = position (P \<circ> f) xs"
  by (induction xs) (simp_all split: option.split)

lemma static_keyrefs: "srv_static srv' = srv_static srv \<Longrightarrow> map key_keyref (srv_keys srv') = map key_keyref (srv_keys srv)"
  by (auto simp: srv_static_def key_static_def list_eq_iff_nth_eq)

lemma find_slot_static:
  assumes "srv_static srv' = srv_static srv"
  shows "find_slot srv' k = find_slot srv k"
  using arg_cong [OF static_keyrefs [OF assms], of "position (\<lambda>x. x = k)"]
  by (simp add: find_slot_def position_map comp_def)

lemma watch_inv_static:
  assumes "srv_static (sv_server r') = srv_static (sv_server r)" and "sv_observed r' = sv_observed r"
  shows "watch_inv obs r' = watch_inv obs r"
proof -
  have "key_keyref (sv_key r' i) = key_keyref (sv_key r i)" if "i < length (srv_keys (sv_server r))" for i
    using static_key(2) [OF assms(1) that] by (simp add: sv_key_def)
  moreover have "length (srv_keys (sv_server r')) = length (srv_keys (sv_server r))"
    using arg_cong [OF static_keyrefs [OF assms(1)], of length] by simp
  ultimately show ?thesis using assms(2) find_slot_static [OF assms(1)] by (auto simp: watch_inv_def)
qed

lemma watch_inv_observed: "watch_inv obs r \<Longrightarrow> observed_keyrefs r \<subseteq> obs"
  by (auto simp: watch_inv_def observed_keyrefs_def)

lemma length_embassy_watch:
  "length (fst (embassy_watch srv q ws)) = length (fst ws)" "length (snd (embassy_watch srv q ws)) = length (snd ws)"
  by (cases q; simp add: watch_def split: slot.split)+

lemma watch_inv_request:
  assumes "watch_inv obs r" and "serving_ok valid r" and m: "incoming_of max_str m = Some q"
    and "sv_server r' = sv_server r" and obs': "sv_observed r' = fst (embassy_watch (sv_server r) q (sv_watching r))"
  shows "watch_inv (observing (Answered m (embassy_response lib node_id (sv_server r) q) ks) obs) r'"
proof -
  let ?srv = "sv_server r"
  have len: "length (sv_observed r) = length (srv_keys ?srv)" using assms(2) by (simp add: serving_ok_def)
  have slotI: "find_slot ?srv keyref = Some i" if "slot_of_keyref ?srv keyref = SlotOf i" for keyref i
    using that by (auto simp: slot_of_keyref_def split: if_splits option.splits)
  have void: "find_slot ?srv keyref = None" if "slot_of_keyref ?srv keyref = VoidKey" for keyref
    using that by (auto simp: slot_of_keyref_def split: if_splits option.splits)
  have key: "sv_key r' i = sv_key r i" for i using assms(4) by (simp add: sv_key_def)
  show ?thesis
    using m
  proof (cases "(max_str, m)" rule: incoming_of.cases)
    case (7 max_str' k)
    note observe = this
    then have q: "q = InObserve k" using m by simp
    show ?thesis
      using assms(1,4) obs' len observe q key
      by (cases "slot_of_keyref ?srv k")
        (auto simp: watch_inv_def watch_def nth_list_update sv_key_def slot_of_keyref_SlotOf dest: slotI)
  next
    case (8 max_str' k)
    note unobserve = this
    then have q: "q = InUnobserve k" using m by simp
    have cleared: "sv_observed r ! i \<and> i \<noteq> j"
      if "(sv_observed r)[j := False] ! i" and "i < length (srv_keys ?srv)" for i j
      using that len by (cases "j = i") simp_all
    show ?thesis
      using assms(1,4) obs' len unobserve q key
      by (cases "slot_of_keyref ?srv k")
        (auto simp: watch_inv_def watch_def sv_key_def dest: slotI void dest!: cleared)
  qed (use assms obs' key in \<open>auto simp: watch_inv_def\<close>)
qed

section \<open>Turns\<close>

text \<open>A turn that ends in error, or well after the request \<open>m\<close> and its response.\<close>

definition node_id_ok :: "rstr \<Rightarrow> bool" where
  "node_id_ok node_id \<longleftrightarrow> wf_str node_id \<and> length node_id \<le> 65533"

context embassy_env
begin

lemma read_server_request_result:
  assumes ok: "serving_ok valid r"
    and run: "(read_server_request read_exact max_str r :: (('re, 'we) server_error fault + _) \<times> _) = (res, r')"
  obtains (failed) f where "res = Inl f" "wire_failure f"
    | (request) m q where "res = Inr q" "wire_message ClientToNode m" "incoming_of max_str m = Some q"
        "pending (sv_world r) = message_bytes m @ pending (sv_world r')"
        "serving_ok valid r'" "srv_static (sv_server r') = srv_static (sv_server r)"
        "written (sv_world r') = written (sv_world r)" "sv_watching r' = sv_watching r"
        "length (sv_payload r') = length (sv_payload r)"
proof -
  have v: "valid (sv_world r)" using ok by (simp add: serving_ok_def)
  obtain w' where read: "(read_request read_exact max_str (sv_world r) :: (('re, 'we) server_error fault + _) \<times> _) = (res, w')"
    and r': "r' = r\<lparr>sv_world := w'\<rparr>"
    using run by (auto simp: read_server_request_def on_world_def split: prod.splits)
  show thesis
  proof (cases res)
    case (Inl f)
    then have "wire_failure f"
      using read_request_situations [OF v read]
      by (auto simp: wire_failure_def frame_error_of_def payload_error_of_def body_meets_def)
    with Inl failed show thesis by blast
  next
    case (Inr q)
    obtain m where m: "wire_message ClientToNode m" "incoming_of max_str m = Some q"
      "pending (sv_world r) = message_bytes m @ pending w'" "valid w'"
      using read_request_Inr [OF v read [unfolded Inr]] by blast
    have rel: "written w' = written (sv_world r)" "local_steps lib (sv_server r) (w_server w')"
      using reads.read_request_rel [OF v read] by simp_all
    have "serving_ok valid r'" by (rule serving_ok_after [OF ok]) (use r' rel m(4) in simp_all)
    then show thesis using request [OF Inr m(1,2)] r' rel m(3) local_steps_static [OF rel(2)] by simp
  qed
qed

lemma handle_request_result:
  assumes ok: "serving_ok valid r" and m: "wire_message ClientToNode m" "incoming_of max_str m = Some q"
    and id: "node_id_ok node_id"
    and run: "(handle_request lib write_all node_id q r :: (('re, 'we) server_error fault + _) \<times> _) = (res, r')"
  obtains (failed) f where "res = Inl f" "wire_failure f"
    | (response) m' where "res = Inr ()" "wire_message NodeToClient m'" "answers m m'"
        "written (sv_world r') = written (sv_world r) @ message_bytes m'"
        "pending (sv_world r') = pending (sv_world r)"
        "serving_ok valid r'" "srv_static (sv_server r') = srv_static (sv_server r)"
        "length (sv_payload r') = length (sv_payload r)"
        "\<And>obs ks. watch_inv obs r \<Longrightarrow> watch_inv (observing (Answered m m' ks) obs) r'"
proof -
  let ?m' = "embassy_response lib node_id (sv_server r) q"
  have wf: "wf_incoming q" using m
    by (cases "(max_str, m)" rule: incoming_of.cases) (auto simp: wire_message_def intro: wf_wire_in)
  have id': "wf_str node_id" "length node_id \<le> 65533" using id by (simp_all add: node_id_ok_def)
  have okr: "server_ok (length (sv_payload r)) (sv_server r)" using ok by (simp add: serving_ok_def)
  have r': "valid (sv_world r')" "pending (sv_world r') = pending (sv_world r)"
      "local_steps lib (embassy_store lib (sv_server r) q) (sv_server r')"
      "sv_watching r' = embassy_watch (sv_server r) q (sv_watching r)"
      "length (sv_payload r') = length (sv_payload r)"
    and res: "res = Inr () \<and> written (sv_world r') = written (sv_world r) @ message_bytes ?m'
       \<or> (\<exists>e. res = Inl (Fail (ServerWrite e)))"
    using handle_request_refines [OF ok wf id'(2)] run unfolding replies_def by fastforce+
  show thesis
  proof (cases "res = Inr ()")
    case True
    have okr': "server_ok (length (sv_payload r')) (sv_server r')"
      using local_steps_ok [OF r'(3)] embassy_store_ok [OF okr wf] r'(5) by simp
    have st: "srv_static (sv_server r') = srv_static (sv_server r)"
      using local_steps_static [OF r'(3)] embassy_store_static by simp
    then have "length (srv_keys (sv_server r')) = length (srv_keys (sv_server r))"
      using arg_cong [OF static_keyrefs [OF st], of length] by simp
    then have "serving_ok valid r'"
      using ok okr' r'(1,4) length_embassy_watch [of "sv_server r" q "sv_watching r"]
      by (simp add: serving_ok_def prod_eq_iff)
    moreover have "watch_inv (observing (Answered m ?m' ks) obs) r'" if "watch_inv obs r" for obs ks
    proof -
      let ?r1 = "r\<lparr>sv_observed := sv_observed r'\<rparr>"
      have "watch_inv (observing (Answered m ?m' ks) obs) ?r1"
        by (rule watch_inv_request [OF that ok m(2)]) (use r'(4) in \<open>simp_all add: prod_eq_iff\<close>)
      then show ?thesis using watch_inv_static [of r' ?r1] st by simp
    qed
    ultimately show thesis
      using response [of ?m'] True res r' st embassy_response_wire [OF okr wf id'] embassy_response_answers [OF okr m(2)]
      by simp
  next
    case False
    then show thesis using res failed by (auto simp: wire_failure_def)
  qed
qed

end

text \<open>
  What \<open>select\<close> may do when the wait for the notifier wins: the pending read has taken bytes off
  the stream and is dropped, while other tasks ran. It is lossless when no byte was taken.
\<close>

definition outcome_ok ::
  "'g embassy_lib \<Rightarrow> (('g, 's) world \<Rightarrow> bytes) \<Rightarrow> (('g, 's) world \<Rightarrow> bool) \<Rightarrow> (('g, 's) world \<Rightarrow> bytes)
     \<Rightarrow> ('g, 's) select_outcome \<Rightarrow> bool" where
  "outcome_ok lib pending valid written sel \<longleftrightarrow>
     (\<forall>w w'. valid w \<and> sel w = Some w' \<longrightarrow> valid w' \<and> written w' = written w
        \<and> local_steps lib (w_server w) (w_server w') \<and> (\<exists>bs. pending w = bs @ pending w'))"

definition lossless :: "(('g, 's) world \<Rightarrow> bytes) \<Rightarrow> ('g, 's) select_outcome \<Rightarrow> bool" where
  "lossless pending sel \<longleftrightarrow> (\<forall>w w'. sel w = Some w' \<longrightarrow> pending w' = pending w)"

context embassy_env
begin

lemma serve_request_result:
  assumes ok: "serving_ok valid r" and id: "node_id_ok node_id"
    and run: "(serve_request lib read_exact write_all max_str node_id r :: (('re, 'we) server_error fault + _) \<times> _) = (res, r')"
  obtains (failed) f where "res = Inl f" "wire_failure f"
    | (turn) m m' ks where "res = Inr ()" "turn_ends lib valid written r (message_bytes m') ks r'"
        "pending (sv_world r) = message_bytes m @ pending (sv_world r')"
        "wire_message ClientToNode m" "wire_message NodeToClient m'" "answers m m'"
        "\<And>obs. watch_inv obs r \<Longrightarrow> watch_inv (observing (Answered m m' ks) obs) r'"
proof -
  obtain res1 r1 where run1: "(read_server_request read_exact max_str r :: (('re, 'we) server_error fault + _) \<times> _) = (res1, r1)"
    by fastforce
  show thesis
  proof (cases rule: read_server_request_result [OF ok run1, case_names failed request])
    case (failed f)
    then show thesis using that(1) [of f] run run1 by (simp add: serve_request_def act_bind_def)
  next
    case (request m q)
    note req = this
    obtain res2 r2 where run2: "(handle_request lib write_all node_id q r1 :: (('re, 'we) server_error fault + _) \<times> _) = (res2, r2)"
      by fastforce
    show thesis
    proof (cases rule: handle_request_result [OF req(5,2,3) id run2, case_names failed response])
      case (failed f)
      then show thesis using that(1) [of f] run run1 run2 req(1) by (simp add: serve_request_def act_bind_def)
    next
      case (response m')
      note resp = this
      have "(flush_notifications write_all r2 :: (('re, 'we) server_error fault + unit) \<times> _) = (res, r')"
        using run run1 run2 req(1) resp(1)
        by (auto simp: serve_request_def act_bind_def flush_notifications_def split: if_splits)
      from flush_ends [OF resp(6) this]
      show thesis
      proof (elim disjE exE conjE)
        fix ks assume res: "res = Inr ()" and ends: "turn_ends lib valid written r2 [] ks r'"
          and p: "pending (sv_world r') = pending (sv_world r2)" and obs: "sv_observed r' = sv_observed r2"
        have watch: "watch_inv (observing (Answered m m' ks) obs) r'" if "watch_inv obs r" for obs
        proof -
          have "watch_inv obs r1" using that watch_inv_static [OF req(6)] req(8) by simp
          then have "watch_inv (observing (Answered m m' ks) obs) r2" by (rule resp(9))
          then show ?thesis using watch_inv_static [of r' r2] ends obs by (simp add: turn_ends_def)
        qed
        have "turn_ends lib valid written r (message_bytes m') ks r'"
          using ends req(6,7,9) resp(4,7,8) by (simp add: turn_ends_def)
        then show thesis using that(2) [OF res _ _ req(2) resp(2,3) watch] req(4) resp(5) p by simp
      next
        fix f assume "res = Inl f" "wire_failure f"
        then show thesis by (rule that(1))
      qed
    qed
  qed
qed

lemma serve_notified_result:
  assumes ok: "serving_ok valid r" and ann: "announced lib r"
    and w: "valid w" "written w = written (sv_world r)" "local_steps lib (sv_server r) (w_server w)"
    and run: "(serve_notified lib write_all w r :: (('re, 'we) server_error fault + _) \<times> _) = (res, r')"
  obtains (failed) f where "res = Inl f" "wire_failure f"
    | (turn) ks where "res = Inr ()" "turn_ends lib valid written r [] ks r'" "sv_observed r' = sv_observed r"
        "pending (sv_world r') = pending (sv_world r) \<or> pending (sv_world r') = pending w"
proof (cases "lib_wait lib (srv_notifier (w_server w))")
  case None
  then have "res = Inr ()" "r' = r" using run by (simp_all add: serve_notified_def)
  then show thesis using turn [of "[]"] ok ann by (simp add: turn_ends_def frames_of_def)
next
  case (Some g)
  let ?r1 = "r\<lparr>sv_world := w\<lparr>w_server := (w_server w)\<lparr>srv_notifier := g\<rparr>\<rparr>\<rparr>"
  have flush: "(flush_notifications write_all ?r1 :: (('re, 'we) server_error fault + unit) \<times> _) = (res, r')"
    using run Some by (simp add: serve_notified_def)
  note st = local_steps_static [OF w(3)]
  have len: "length (srv_keys (w_server w)) = length (srv_keys (sv_server r))"
    using arg_cong [OF static_keyrefs [OF st], of length] by simp
  have "server_ok (length (sv_payload r)) (w_server w)"
    using ok local_steps_ok [OF w(3)] by (simp add: serving_ok_def)
  then have "serving_ok valid ?r1"
    using ok world_server [OF w(1)] len by (simp add: serving_ok_def server_ok_def)
  from flush_ends [OF this flush] show thesis
  proof (elim disjE exE conjE)
    fix ks assume res: "res = Inr ()" and ends: "turn_ends lib valid written ?r1 [] ks r'"
      and p: "pending (sv_world r') = pending (sv_world ?r1)" and obs: "sv_observed r' = sv_observed ?r1"
    have "srv_static (sv_server ?r1) = srv_static (sv_server r)" using st by (simp add: srv_static_def)
    then have "turn_ends lib valid written r [] ks r'"
      using ends world_server [OF w(1)] w(2) by (simp add: turn_ends_def)
    then show thesis using turn [OF res] p obs world_server [OF w(1)] by simp
  next
    fix f assume "res = Inl f" "wire_failure f"
    then show thesis by (rule failed)
  qed
qed

end

section \<open>Runs\<close>

context embassy_env
begin

lemma serve_turn_result:
  assumes ok: "serving_ok valid r" and ann: "announced lib r" and id: "node_id_ok node_id"
    and sel: "outcome_ok lib pending valid written sel"
    and turn: "(if srv_has_observable (sv_server r) then
      (case sel (sv_world r) of None \<Rightarrow> serve_request lib read_exact write_all max_str node_id r
        | Some w \<Rightarrow> serve_notified lib write_all w r)
      else serve_request lib read_exact write_all max_str node_id r :: (('re, 'we) server_error fault + unit) \<times> _) = (res1, r1)"
  shows "(\<exists>f. res1 = Inl f \<and> wire_failure f) \<or> res1 = Inr () \<and> (\<exists>bs ks. turn_ends lib valid written r bs ks r1)
      \<and> (\<forall>obs. watch_inv obs r \<and> lossless pending sel \<longrightarrow>
          (\<exists>t. turn_ok obs t \<and> watch_inv (observing t obs) r1
             \<and> pending (sv_world r) = turn_in t @ pending (sv_world r1)
             \<and> written (sv_world r1) = written (sv_world r) @ turn_out t))"
proof -
  have v: "valid (sv_world r)" using ok by (simp add: serving_ok_def)
  show ?thesis
  proof (cases "srv_has_observable (sv_server r) \<and> sel (sv_world r) \<noteq> None")
    case True
    then obtain w where w: "sel (sv_world r) = Some w" by blast
    then have w_ok: "valid w" "written w = written (sv_world r)" "local_steps lib (sv_server r) (w_server w)"
      using sel v unfolding outcome_ok_def by auto
    have run: "(serve_notified lib write_all w r :: (('re, 'we) server_error fault + unit) \<times> _) = (res1, r1)"
      using turn True w by simp
    show ?thesis
    proof (cases rule: serve_notified_result [OF ok ann w_ok run, case_names failed turn])
      case (turn ks)
      have "\<exists>t. turn_ok obs t \<and> watch_inv (observing t obs) r1
          \<and> pending (sv_world r) = turn_in t @ pending (sv_world r1)
          \<and> written (sv_world r1) = written (sv_world r) @ turn_out t"
        if "watch_inv obs r" and "lossless pending sel" for obs
      proof (intro exI [of _ "Woken ks"] conjI)
        have "watch_inv obs r1" using that(1) watch_inv_static [of r1 r] turn(2,3) by (simp add: turn_ends_def)
        then show "turn_ok obs (Woken ks)" "watch_inv (observing (Woken ks) obs) r1"
          using watch_inv_observed [of obs r1] turn(2) by (auto simp: turn_ends_def)
        show "pending (sv_world r) = turn_in (Woken ks) @ pending (sv_world r1)"
          using that(2) w turn(4) by (auto simp: lossless_def)
      qed (use turn(2) in \<open>simp add: turn_ends_def\<close>)
      then show ?thesis using turn(1,2) by blast
    qed blast
  next
    case False
    then have run: "(serve_request lib read_exact write_all max_str node_id r :: (('re, 'we) server_error fault + unit) \<times> _) = (res1, r1)"
      using turn by (auto split: if_splits)
    show ?thesis
    proof (cases rule: serve_request_result [OF ok id run, case_names failed turn])
      case (turn m m' ks)
      have "\<exists>t. turn_ok obs t \<and> watch_inv (observing t obs) r1
          \<and> pending (sv_world r) = turn_in t @ pending (sv_world r1)
          \<and> written (sv_world r1) = written (sv_world r) @ turn_out t"
        if "watch_inv obs r" for obs
      proof (intro exI [of _ "Answered m m' ks"] conjI)
        have watch: "watch_inv (observing (Answered m m' ks) obs) r1" using that by (rule turn(7))
        then show "watch_inv (observing (Answered m m' ks) obs) r1" .
        show "turn_ok obs (Answered m m' ks)"
          using watch_inv_observed [OF watch] turn(2,4-6) by (auto simp: turn_ends_def)
      qed (use turn(2,3) in \<open>simp_all add: turn_ends_def\<close>)
      then show ?thesis using turn(1,2) by blast
    qed blast
  qed
qed

lemma serve_loop_result:
  assumes "serving_ok valid r" and "announced lib r" and id: "node_id_ok node_id"
    and "\<forall>sel \<in> set sels. outcome_ok lib pending valid written sel"
    and "(serve_loop lib read_exact write_all max_str node_id sels r :: (('re, 'we) server_error fault + unit) \<times> _) = (res, r')"
  shows "(\<exists>f. res = Inl f \<and> wire_failure f)
    \<or> res = Inr () \<and> serving_ok valid r' \<and> announced lib r' \<and> srv_static (sv_server r') = srv_static (sv_server r)
      \<and> (\<forall>obs. watch_inv obs r \<and> (\<forall>sel \<in> set sels. lossless pending sel) \<longrightarrow>
          (\<exists>ts. length ts = length sels \<and> turns_ok obs ts
             \<and> pending (sv_world r) = concat (map turn_in ts) @ pending (sv_world r')
             \<and> written (sv_world r') = written (sv_world r) @ concat (map turn_out ts)))"
  using assms
proof (induction sels arbitrary: r)
  case Nil
  then show ?case by (auto intro!: exI [of _ "[]"])
next
  case (Cons sel sels)
  let ?turn = "if srv_has_observable (sv_server r) then
      (case sel (sv_world r) of None \<Rightarrow> serve_request lib read_exact write_all max_str node_id r
        | Some w \<Rightarrow> serve_notified lib write_all w r)
      else serve_request lib read_exact write_all max_str node_id r :: (('re, 'we) server_error fault + unit) \<times> _"
  obtain res1 r1 where turn: "?turn = (res1, r1)" by fastforce
  then have loop: "(res, r') = (case res1 of Inl e \<Rightarrow> (Inl e, r1)
      | Inr _ \<Rightarrow> serve_loop lib read_exact write_all max_str node_id sels r1)"
    using Cons.prems(5) by (simp add: act_bind_def)
  have "(\<exists>f. res1 = Inl f \<and> wire_failure f) \<or> res1 = Inr () \<and> (\<exists>bs ks. turn_ends lib valid written r bs ks r1)
      \<and> (\<forall>obs. watch_inv obs r \<and> lossless pending sel \<longrightarrow>
          (\<exists>t. turn_ok obs t \<and> watch_inv (observing t obs) r1
             \<and> pending (sv_world r) = turn_in t @ pending (sv_world r1)
             \<and> written (sv_world r1) = written (sv_world r) @ turn_out t))" (is "?failed \<or> ?went")
  proof (rule serve_turn_result [OF Cons.prems(1,2) id])
    show "outcome_ok lib pending valid written sel" using Cons.prems(4) by simp
  qed (rule turn)
  then show ?case
  proof
    assume ?failed
    then show ?thesis using loop by auto
  next
    assume went: ?went
    then have ends: "serving_ok valid r1" "announced lib r1" "srv_static (sv_server r1) = srv_static (sv_server r)"
      by (auto simp: turn_ends_def)
    have run: "(serve_loop lib read_exact write_all max_str node_id sels r1 :: (('re, 'we) server_error fault + unit) \<times> _) = (res, r')"
      using went loop by simp
    have sels: "\<forall>sel \<in> set sels. outcome_ok lib pending valid written sel" using Cons.prems(4) by simp
    from Cons.IH [OF ends(1,2) id sels run] show ?thesis
    proof (elim disjE conjE)
      assume res: "res = Inr ()" and r': "serving_ok valid r'" "announced lib r'" "srv_static (sv_server r') = srv_static (sv_server r1)"
        and rest: "\<forall>obs. watch_inv obs r1 \<and> (\<forall>sel \<in> set sels. lossless pending sel) \<longrightarrow>
          (\<exists>ts. length ts = length sels \<and> turns_ok obs ts
             \<and> pending (sv_world r1) = concat (map turn_in ts) @ pending (sv_world r')
             \<and> written (sv_world r') = written (sv_world r1) @ concat (map turn_out ts))"
      have "\<exists>ts. length ts = length (sel # sels) \<and> turns_ok obs ts
          \<and> pending (sv_world r) = concat (map turn_in ts) @ pending (sv_world r')
          \<and> written (sv_world r') = written (sv_world r) @ concat (map turn_out ts)"
        if obs: "watch_inv obs r" and ll: "\<forall>sel \<in> set (sel # sels). lossless pending sel" for obs
      proof -
        obtain t where t: "turn_ok obs t" "watch_inv (observing t obs) r1"
          "pending (sv_world r) = turn_in t @ pending (sv_world r1)"
          "written (sv_world r1) = written (sv_world r) @ turn_out t" using went obs ll by auto
        obtain ts where ts: "length ts = length sels" "turns_ok (observing t obs) ts"
          "pending (sv_world r1) = concat (map turn_in ts) @ pending (sv_world r')"
          "written (sv_world r') = written (sv_world r1) @ concat (map turn_out ts)"
          using rest t(2) ll by auto
        show ?thesis by (rule exI [of _ "t # ts"]) (use t ts in simp)
      qed
      then show ?thesis using res r' ends(3) by simp
    qed blast
  qed
qed

end

lemma unique_attached: "unique_keyrefs (map attach_notifier keys) = unique_keyrefs keys"
proof -
  have "key_keyref (attach_notifier k) = key_keyref k" for k :: "'a ekey" by (simp add: attach_notifier_def)
  then show ?thesis by (induction keys) (simp_all add: list_all_iff)
qed

context embassy_env
begin

lemma run_result:
  assumes keys: "registry_ok keys" and unique: "unique_keyrefs keys" and id: "node_id_ok node_id"
    and w: "valid w" "w_server w = run_server lib keys"
    and sels: "\<forall>sel \<in> set sels. outcome_ok lib pending valid written sel"
    and run: "(run_embassy_server debug_assertions lib read_exact write_all (run_max_str keys) (run_max_response keys)
        node_id sels w :: (('re, 'we) server_error fault + unit) \<times> _) = (res, r')"
  shows "(\<exists>f. res = Inl f \<and> wire_failure f)
    \<or> res = Inr () \<and> serving_ok valid r' \<and> announced lib r'
      \<and> srv_static (sv_server r') = srv_static (attach_notifiers (run_server lib keys))
      \<and> ((\<forall>sel \<in> set sels. lossless pending sel) \<longrightarrow>
          (\<exists>ts. length ts = length sels \<and> turns_ok {} ts
             \<and> pending w = concat (map turn_in ts) @ pending (sv_world r')
             \<and> written (sv_world r') = written w @ concat (map turn_out ts)))"
proof -
  let ?w = "w\<lparr>w_server := attach_notifiers (w_server w)\<rparr>"
  let ?r = "serving_start ?w (run_max_response keys)"
  have "validate_wire_string node_id = Inr ()"
    using id by (auto simp: node_id_ok_def validate_wire_string_def wf_str_def)
  moreover have "debug_assert_unique_keyrefs debug_assertions (attach_notifiers (w_server w))"
    using unique by (simp add: debug_assert_unique_keyrefs_def attach_notifiers_def w(2) run_server_def server_new_def unique_attached)
  ultimately have loop: "(serve_loop lib read_exact write_all (run_max_str keys) node_id sels ?r
      :: (('re, 'we) server_error fault + unit) \<times> _) = (res, r')"
    using run by (simp add: run_embassy_server_def Let_def)
  have start: "sv_world ?r = ?w" "sv_observed ?r = replicate (length (srv_keys (w_server ?w))) False"
    by (simp_all add: serving_start_def Let_def)
  have ok: "serving_ok valid ?r"
    using world_server [OF w(1)] run_server_ok [OF keys] w(2)
    by (simp add: serving_ok_def serving_start_def Let_def)
  have "announced lib ?r" "watch_inv {} ?r"
    using start by (auto simp: announced_def unannounced_def watch_inv_def)
  with serve_loop_result [OF ok _ id sels loop] show ?thesis
    using start world_server [OF w(1)] w(2) by auto
qed

end

section \<open>A sample run\<close>

text \<open>The frames of OBSERVE for key 0 and of PING.\<close>

definition observe_bytes :: bytes where "observe_bytes = [0x4E, 0, 2, 0, 0, 0xB0]"
definition ping_bytes :: bytes where "ping_bytes = [0x50, 0, 0, 0xB0]"

lemma sample_frames:
  "message_bytes (Request (Observe 0)) = observe_bytes" "message_bytes (Request Ping) = ping_bytes"
  by (simp_all add: observe_bytes_def ping_bytes_def message_bytes_def frame_bytes_def opcode_defs to_be_2_eq compute_checksum_sum)

definition sample_world :: "bytes \<Rightarrow> (bool, list_stream) world" where
  "sample_world input = \<lparr>w_server = run_server flag_lib [sample_key], w_stream = \<lparr>ls_in = input, ls_out = []\<rparr>\<rparr>"

lemma sample_registry: "run_server flag_lib [sample_key] = sample_server" "attach_notifiers sample_server = sample_server"
  "run_max_response [sample_key] = 10" "run_max_str [sample_key] = 7"
  by (simp_all add: run_server_def server_new_def sample_server_def run_has_observable_def any_iff flag_lib_def
      attach_notifiers_def attach_notifier_def sample_key_def key_observable_def perm_tests
      run_max_response_def run_max_value_def run_max_str_def max_usize_def max_from_eq key_wire_len_def key_max_string_len_def
      enum_MAX_WIRE_LEN_def enum_MAX_STR_LEN_def ascii_def)

definition sample_observing :: "bytes \<Rightarrow> (bool, list_stream) serving" where
  "sample_observing input =
     \<lparr>sv_world = \<lparr>w_server = sample_server, w_stream = \<lparr>ls_in = input, ls_out = frame_bytes OK []\<rparr>\<rparr>,
      sv_observed = [True], sv_seen = [0], sv_payload = replicate 10 0\<rparr>"

lemma be_small: "from_be [0, 2] = (2 :: u16)" "from_be [0, 0] = (0 :: u16)"
  using from_be_2 [of 2] from_be_2 [of 0] by (simp_all add: to_be_2_eq)

lemma sample_read_observe:
  "read_request ls_read n \<lparr>w_server = srv, w_stream = \<lparr>ls_in = observe_bytes @ rest, ls_out = out\<rparr>\<rparr> =
     (Inr (InObserve 0), \<lparr>w_server = srv, w_stream = \<lparr>ls_in = rest, ls_out = out\<rparr>\<rparr>)"
  by (simp add: read_request_def ls_read_def observe_bytes_def validate_def is_reserved_def opcode_class_def is_defined_def
      opcode_defs required_direction_def read_request_body_def read_keyref_request_def read_exact_tracked_def act_bind_def
      finish_checksum_def sum_add_slice_eq frame_sum_new_def sum_add_byte_def sum_finish_def be_small Let_def to_be_2_eq)

lemma sample_turn_observe:
  assumes "node_id_ok node_id"
  shows "(serve_request flag_lib ls_read ls_write n node_id (sample_serving (observe_bytes @ rest))
      :: ((unit, unit) server_error fault + unit) \<times> _) = (Inr (), sample_observing rest)"
proof -
  let ?start = "sample_serving (observe_bytes @ rest)"
  have start: "?start = \<lparr>sv_world = \<lparr>w_server = sample_server, w_stream = \<lparr>ls_in = observe_bytes @ rest, ls_out = []\<rparr>\<rparr>,
      sv_observed = [False], sv_seen = [0], sv_payload = replicate 10 0\<rparr>"
    by (simp add: sample_serving_def serving_start_def sample_server_def Let_def)
  have read: "(read_server_request ls_read n ?start :: ((unit, unit) server_error fault + _) \<times> _) =
      (Inr (InObserve 0), ?start\<lparr>sv_world := \<lparr>w_server = sample_server, w_stream = \<lparr>ls_in = rest, ls_out = []\<rparr>\<rparr>\<rparr>)"
    by (simp add: start read_server_request_def on_world_def sample_read_observe)
  have handle: "(handle_request flag_lib ls_write node_id (InObserve 0)
        (?start\<lparr>sv_world := \<lparr>w_server = sample_server, w_stream = \<lparr>ls_in = rest, ls_out = []\<rparr>\<rparr>\<rparr>)
        :: ((unit, unit) server_error fault + unit) \<times> _) = (Inr (), sample_observing rest)"
    by (simp add: start handle_request_def answer_observe_def on_world_def ls_send_frame key_count_def sample_server_def
        sample_key_def u16_saturating_add_def Let_def find_slot_def sv_key_def key_observable_def perm_tests mark_seen_def
        sample_observing_def)
  have "(flush_notifications ls_write (sample_observing rest) :: ((unit, unit) server_error fault + unit) \<times> _) =
      (Inr (), sample_observing rest)"
    by (simp add: flush_notifications_def sample_observing_def sample_server_def flush_key_def sv_key_def sample_key_def act_bind_def)
  then show ?thesis
    using read handle by (simp add: serve_request_def act_bind_def)
qed

lemma sample_run:
  assumes "node_id_ok node_id"
  shows "(run_embassy_server debug_assertions flag_lib ls_read ls_write (run_max_str [sample_key])
      (run_max_response [sample_key]) node_id ((\<lambda>_. None) # sels) (sample_world (observe_bytes @ rest))
      :: ((unit, unit) server_error fault + unit) \<times> _) =
    serve_loop flag_lib ls_read ls_write 7 node_id sels (sample_observing rest)"
proof -
  have "validate_wire_string node_id = Inr ()"
    using assms by (auto simp: node_id_ok_def validate_wire_string_def wf_str_def)
  moreover have "debug_assert_unique_keyrefs debug_assertions sample_server"
    by (simp add: debug_assert_unique_keyrefs_def sample_server_def)
  moreover have "srv_has_observable (sv_server (sample_serving input))" for input
    by (simp add: sample_serving_def serving_start_def sample_server_def Let_def)
  moreover have "serving_start (sample_world input) 10 = sample_serving input" for input
    by (simp add: sample_serving_def sample_world_def sample_registry)
  ultimately show ?thesis
    using sample_turn_observe [OF assms, of 7 rest]
    by (simp add: run_embassy_server_def sample_registry sample_world_def act_bind_def sample_serving_def)
qed

end
