(* ===== verification/Embassy_Link.thy ===== *)
theory Embassy_Link
  imports Embassy_Run
begin

text \<open>
  One turn of an embassy server as a client at the other end of the connection sees it. The
  client's bytes are delivered into the stream of the server, whose loop then runs until the
  request is answered; wake-ups of the notifier before the request and updates of other tasks at
  every await are arbitrary. The lemmas determine the bytes the turn writes and the state of the
  registry the answer is computed from.
\<close>

section \<open>What happens to a registry during a turn\<close>

text \<open>Beside the updates of other tasks, the loop itself takes the signal of the notifier.\<close>

inductive link_step :: "'g embassy_lib \<Rightarrow> 'g server \<Rightarrow> 'g server \<Rightarrow> bool" for lib where
  task: "local_step lib srv srv' \<Longrightarrow> link_step lib srv srv'"
| taken: "lib_wait lib (srv_notifier srv) = Some g \<Longrightarrow> link_step lib srv (srv\<lparr>srv_notifier := g\<rparr>)"

abbreviation link_steps :: "'g embassy_lib \<Rightarrow> 'g server \<Rightarrow> 'g server \<Rightarrow> bool" where
  "link_steps lib \<equiv> (link_step lib)\<^sup>*\<^sup>*"

lemma local_link_steps: "local_steps lib srv srv' \<Longrightarrow> link_steps lib srv srv'"
  by (induction rule: rtranclp_induct) (auto intro: rtranclp.rtrancl_into_rtrancl link_step.task)

lemma link_steps_static:
  assumes "embassy_library lib"
  shows "link_steps lib srv srv' \<Longrightarrow> srv_static srv' = srv_static srv"
proof (induction rule: rtranclp_induct)
  case (step srv1 srv2)
  from step(2) have "srv_static srv2 = srv_static srv1"
    by cases (auto dest: embassy_library.local_step_static [OF assms] simp: srv_static_def)
  with step show ?case by simp
qed simp

section \<open>Writes that cannot fail\<close>

text \<open>An operation that never ends with an error of the writing half of the stream.\<close>

definition never_fails_writing :: "('s, ('re, 'we) server_error fault, 'a) action \<Rightarrow> bool" where
  "never_fails_writing m \<longleftrightarrow> (\<forall>s e. fst (m s) \<noteq> Inl (Fail (ServerWrite e)))"

named_theorems nfw

lemma nfw_pure [nfw]:
  "never_fails_writing (act_ok a)" "never_fails_writing (act_err Panic)"
  "never_fails_writing (act_err (Fail (ServerInternal msg)))"
  "never_fails_writing (act_lift (compute_segmented_checksum oc ps))"
  by (simp_all add: never_fails_writing_def act_ok_def act_err_def act_lift_def compute_segmented_checksum_def Let_def
      split: option.split)

lemma nfw_bind [nfw]:
  "never_fails_writing m \<Longrightarrow> (\<And>a. never_fails_writing (f a)) \<Longrightarrow> never_fails_writing (act_bind m f)"
  by (auto simp: never_fails_writing_def act_bind_def split: prod.split sum.split) (metis fst_conv)+

lemma nfw_on_world [nfw]: "never_fails_writing m \<Longrightarrow> never_fails_writing (on_world m)"
  by (auto simp: never_fails_writing_def on_world_def split: prod.split) (metis fst_conv)

lemma nfw_send [nfw]:
  assumes "\<forall>bs w. fst (write_all bs w) = Inr ()"
  shows "never_fails_writing (send_bytes write_all bs)"
  unfolding never_fails_writing_def
proof (intro allI)
  fix w e
  have "fst (write_all bs w) = Inr ()" using assms by blast
  then show "fst (send_bytes write_all bs w) \<noteq> Inl (Fail (ServerWrite e))"
    by (cases "write_all bs w") (simp add: send_bytes_def act_map_err_def)
qed

lemma nfw_responses [nfw]:
  assumes "\<forall>bs w. fst (write_all bs w) = Inr ()"
  shows "never_fails_writing (send_frame_to write_all oc p)" "never_fails_writing (send_str16_response write_all oc v)"
    "never_fails_writing (send_key_response write_all k)"
  unfolding send_frame_to_def send_str16_response_def send_key_response_def Let_def
  by (auto split: option.split intro!: nfw assms)

lemma nfw_apply: "never_fails_writing m \<Longrightarrow> fst (m s) \<noteq> Inl (Fail (ServerWrite e))"
  by (simp add: never_fails_writing_def)

lemma nfw_bind_apply: "never_fails_writing m \<Longrightarrow> (\<And>a. never_fails_writing (f a)) \<Longrightarrow>
    fst (act_bind m f s) \<noteq> Inl (Fail (ServerWrite e))"
  by (rule nfw_apply [OF nfw_bind])

lemma nfw_fill_payload: "never_fails_writing (fill_payload bs :: ('g, 's, 're, 'we, unit) handler)"
  by (auto simp: never_fails_writing_def fill_payload_def write_front_def split: prod.splits option.splits)

lemma nfw_send_payload:
  assumes "\<forall>bs w. fst (write_all bs w) = Inr ()"
  shows "never_fails_writing (send_payload write_all oc len :: ('g, 's, 're, 'we, unit) handler)"
  unfolding never_fails_writing_def send_payload_def
  by (auto dest!: nfw_apply [OF nfw_on_world [OF nfw_responses(1) [OF assms]], THEN notE])

lemma nfw_send_filled:
  assumes "\<forall>bs w. fst (write_all bs w) = Inr ()"
  shows "fst (act_bind (fill_payload bs) (\<lambda>_. send_payload write_all oc len) r
      :: (('re, 'we) server_error fault + unit) \<times> ('g, 's) serving) \<noteq> Inl (Fail (ServerWrite e))"
  by (rule nfw_bind_apply [OF nfw_fill_payload nfw_send_payload [OF assms]])

lemma nfw_handle_request:
  fixes r :: "('g, 's) serving"
  assumes w: "\<forall>bs w. fst (write_all bs w) = Inr ()"
  shows "fst (handle_request lib write_all node_id q r :: (('re, 'we) server_error fault + unit) \<times> _) \<noteq> Inl (Fail (ServerWrite e))"
proof -
  have world: "fst (on_world m r :: (('re, 'we) server_error fault + unit) \<times> ('g, 's) serving) \<noteq> Inl (Fail (ServerWrite e))"
    if "never_fails_writing m" for m :: "(('g, 's) world, 're, 'we, unit) srv_action" and r
    by (rule nfw_apply [OF nfw_on_world [OF that]])
  note sends = nfw_responses [OF w] 
  have err: "never_fails_writing (send_error write_all code :: (('g, 's) world, 're, 'we, unit) srv_action)"
    "never_fails_writing (send_void_key_response write_all :: (('g, 's) world, 're, 'we, unit) srv_action)" for code
    by (simp_all add: send_error_def send_void_key_response_def sends)
  note payload = nfw_apply [OF nfw_send_payload [OF w]]
  note rules = world sends err payload
  show ?thesis
  proof (cases q)
    case InGetKeytabLen
    then show ?thesis
      by (simp add: handle_request_def nfw_send_filled [OF w])
  next
    case (InWrite k v)
    then show ?thesis
      by (auto simp: handle_request_def answer_write_def rules
          split: option.split prod.split sum.split fault.split wire_value_error.split)
  qed (auto simp: handle_request_def answer_get_key_def answer_get_def answer_observe_def answer_unobserve_def Let_def rules
      split: option.split prod.split sum.split fault.split)
qed

lemma nfw_flush:
  fixes r :: "('g, 's) serving"
  assumes w: "\<forall>bs w. fst (write_all bs w) = Inr ()"
  shows "fst (flush_notifications write_all r :: (('re, 'we) server_error fault + unit) \<times> _) \<noteq> Inl (Fail (ServerWrite e))"
proof -
  have key: "never_fails_writing (flush_key write_all i :: ('g, 's, 're, 'we, unit) handler)" for i
    unfolding never_fails_writing_def flush_key_def Let_def
    by (simp add: nfw_send_filled [OF w])
  have keys: "never_fails_writing (flush_keys write_all js :: ('g, 's, 're, 'we, unit) handler)" for js
    by (induction js) (auto simp only: flush_keys.simps intro!: nfw key)
  show ?thesis using nfw_apply [OF keys] by (simp add: flush_notifications_def)
qed

context embassy_env
begin

lemma flush_steps:
  assumes ok: "serving_ok valid r" and total: "\<forall>bs w. fst (write_all bs w) = Inr ()"
    and run: "(flush_notifications write_all r :: (('re, 'we) server_error fault + unit) \<times> _) = (res, r')"
  obtains ks where "res = Inr ()" "turn_ends lib valid written r [] ks r'"
    "pending (sv_world r') = pending (sv_world r)" "local_steps lib (sv_server r) (sv_server r')" "sv_observed r' = sv_observed r"
proof -
  have "local_steps lib (sv_server r) (sv_server r')" and res: "res = Inr () \<or> (\<exists>e. res = Inl (Fail (ServerWrite e)))"
    using flush_notifications_flushes [OF ok] run unfolding flushes_def by fastforce+
  moreover have "fst (flush_notifications write_all r :: (('re, 'we) server_error fault + unit) \<times> _) \<noteq> Inl (Fail (ServerWrite e))" for e
    by (rule nfw_flush [OF total])
  then have "res = Inr ()" using run res by auto
  ultimately show thesis using flush_ends [OF ok run] that by blast
qed

end

section \<open>A turn that answers a request\<close>

text \<open>Wake-ups while no request is being read: their notifications are sent and nothing else.\<close>

definition quiet_wakes ::
  "'g embassy_lib \<Rightarrow> (('g, 's) world \<Rightarrow> bytes) \<Rightarrow> (('g, 's) world \<Rightarrow> bool) \<Rightarrow> (('g, 's) world \<Rightarrow> bytes)
     \<Rightarrow> ('g, 's) select_outcome list \<Rightarrow> bool" where
  "quiet_wakes lib pending valid written sels \<longleftrightarrow>
     (\<forall>sel \<in> set sels. outcome_ok lib pending valid written sel \<and> lossless pending sel \<and> (\<forall>w. valid w \<longrightarrow> sel w \<noteq> None))"

context embassy_env
begin

lemma observed_of_watch: "fst (embassy_watch srv q (obs, seen)) = fst (embassy_watch srv q (obs, seen'))"
  by (cases q) (simp_all add: watch_def split: slot.split)

lemma serve_request_turn:
  assumes ok: "serving_ok valid r" and id: "node_id_ok node_id" and total: "\<forall>bs w. fst (write_all bs w) = Inr ()"
    and m: "wire_message ClientToNode m" "incoming_of max_str m = Some q" and p: "pending (sv_world r) = message_bytes m"
  obtains r' srv ks where
    "(serve_request lib read_exact write_all max_str node_id r :: (('re, 'we) server_error fault + unit) \<times> _) = (Inr (), r')"
    "turn_ends lib valid written r (message_bytes (embassy_response lib node_id srv q)) ks r'"
    "pending (sv_world r') = []" "local_steps lib (sv_server r) srv"
    "local_steps lib (embassy_store lib srv q) (sv_server r')" "wire_message NodeToClient (embassy_response lib node_id srv q)"
    "server_ok (length (sv_payload r)) srv" "sv_observed r' = fst (embassy_watch srv q (sv_watching r))"
proof -
  have v: "valid (sv_world r)" using ok by (simp add: serving_ok_def)
  obtain w' where read: "(read_request read_exact max_str (sv_world r) :: (('re, 'we) server_error fault + _) \<times> _) = (Inr q, w')"
    and w': "pending w' = []" "valid w'"
    using read_request_message [OF v m, of "[]"] p by auto
  let ?r1 = "r\<lparr>sv_world := w'\<rparr>"
  have rel: "written w' = written (sv_world r)" "local_steps lib (sv_server r) (w_server w')"
    using reads.read_request_rel [OF v read] by simp_all
  have ok1: "serving_ok valid ?r1" by (rule serving_ok_after [OF ok]) (use rel w' in simp_all)
  have wf: "wf_incoming q" using m
    by (cases "(max_str, m)" rule: incoming_of.cases) (auto simp: wire_message_def intro: wf_wire_in)
  have id': "wf_str node_id" "length node_id \<le> 65533" using id by (simp_all add: node_id_ok_def)
  have okw: "server_ok (length (sv_payload r)) (w_server w')" using ok1 by (simp add: serving_ok_def)
  obtain res2 r2 where run2: "(handle_request lib write_all node_id q ?r1 :: (('re, 'we) server_error fault + unit) \<times> _) = (res2, r2)"
    by fastforce
  have r2: "pending (sv_world r2) = []" "local_steps lib (embassy_store lib (w_server w') q) (sv_server r2)"
      "sv_watching r2 = embassy_watch (w_server w') q (sv_watching r)"
    and res2: "res2 = Inr () \<and> written (sv_world r2) =
        written w' @ message_bytes (embassy_response lib node_id (w_server w') q) \<or> (\<exists>e. res2 = Inl (Fail (ServerWrite e)))"
    using handle_request_refines [OF ok1 wf id'(2)] run2 w' unfolding replies_def by fastforce+
  moreover have "fst (handle_request lib write_all node_id q ?r1 :: (('re, 'we) server_error fault + unit) \<times> _)
      \<noteq> Inl (Fail (ServerWrite e))" for e by (rule nfw_handle_request [OF total])
  ultimately have done2: "res2 = Inr ()"
    "written (sv_world r2) = written (sv_world r) @ message_bytes (embassy_response lib node_id (w_server w') q)"
    using run2 rel by auto
  have ok2: "serving_ok valid r2 \<and> srv_static (sv_server r2) = srv_static (w_server w') \<and> length (sv_payload r2) = length (sv_payload r)"
    by (cases rule: handle_request_result [OF ok1 m id run2]) (use done2(1) in simp_all)
  have obs2: "sv_observed r2 = fst (embassy_watch (w_server w') q (sv_watching r))" using r2(3) by (metis fst_conv)
  obtain res3 r3 where run3: "(flush_notifications write_all r2 :: (('re, 'we) server_error fault + unit) \<times> _) = (res3, r3)"
    by fastforce
  have nofail: "fst (flush_notifications write_all r2 :: (('re, 'we) server_error fault + unit) \<times> _) \<noteq> Inl (Fail (ServerWrite e))" for e
    by (rule nfw_flush [OF total])
  obtain ks where ends: "turn_ends lib valid written r2 [] ks r3" and r3: "pending (sv_world r3) = []" "res3 = Inr ()"
    "local_steps lib (sv_server r2) (sv_server r3)" "sv_observed r3 = sv_observed r2"
    using flush_steps [OF _ total run3] ok2 r2(1) by auto
  show thesis
  proof (rule that [of r3 "w_server w'" ks])
    show "(serve_request lib read_exact write_all max_str node_id r :: (('re, 'we) server_error fault + unit) \<times> _) = (Inr (), r3)"
      using read run2 run3 done2(1) r3(2)
      by (auto simp: serve_request_def act_bind_def read_server_request_def on_world_def flush_notifications_def)
    show "turn_ends lib valid written r (message_bytes (embassy_response lib node_id (w_server w') q)) ks r3"
      using ends ok2 done2(2) local_steps_static [OF rel(2)] by (simp add: turn_ends_def)
  qed (use r3 r2(1,2) obs2 rel okw embassy_response_wire [OF okw wf id'] in \<open>auto intro: rtranclp_trans\<close>)
qed

lemma serve_notified_turn:
  assumes ok: "serving_ok valid r" and ann: "announced lib r" and total: "\<forall>bs w. fst (write_all bs w) = Inr ()"
    and w: "valid w" "written w = written (sv_world r)" "pending w = pending (sv_world r)" "local_steps lib (sv_server r) (w_server w)"
  obtains r' ks where
    "(serve_notified lib write_all w r :: (('re, 'we) server_error fault + unit) \<times> _) = (Inr (), r')"
    "turn_ends lib valid written r [] ks r'" "pending (sv_world r') = pending (sv_world r)" "sv_observed r' = sv_observed r"
    "link_steps lib (sv_server r) (sv_server r')"
proof (cases "lib_wait lib (srv_notifier (w_server w))")
  case None
  then show thesis using that [of r "[]"] ok ann by (simp add: serve_notified_def turn_ends_def frames_of_def)
next
  case (Some g)
  let ?r1 = "r\<lparr>sv_world := w\<lparr>w_server := (w_server w)\<lparr>srv_notifier := g\<rparr>\<rparr>\<rparr>"
  obtain res r' where run: "(serve_notified lib write_all w r :: (('re, 'we) server_error fault + unit) \<times> _) = (res, r')"
    by fastforce
  then have flush: "(flush_notifications write_all ?r1 :: (('re, 'we) server_error fault + unit) \<times> _) = (res, r')"
    using Some by (simp add: serve_notified_def)
  note st = local_steps_static [OF w(4)]
  have "length (srv_keys (w_server w)) = length (srv_keys (sv_server r))"
    using arg_cong [OF static_keyrefs [OF st], of length] by simp
  moreover have "server_ok (length (sv_payload r)) (w_server w)"
    using ok local_steps_ok [OF w(4)] by (simp add: serving_ok_def)
  ultimately have ok1: "serving_ok valid ?r1"
    using ok world_server [OF w(1)] by (simp add: serving_ok_def server_ok_def)
  obtain ks' where ks': "res = Inr ()" "pending (sv_world r') = pending (sv_world ?r1)"
    "local_steps lib (sv_server ?r1) (sv_server r')" by (rule flush_steps [OF ok1 total flush])
  have "link_steps lib (sv_server r) (sv_server ?r1)"
    using local_link_steps [OF w(4)] link_step.taken [of lib "w_server w" g] Some by (simp add: rtranclp.rtrancl_into_rtrancl)
  then have steps: "link_steps lib (sv_server r) (sv_server r')"
    using local_link_steps [OF ks'(3)] by (rule rtranclp_trans)
  show thesis
  proof (cases rule: serve_notified_result [OF ok ann w(1,2,4) run, case_names failed turn])
    case (turn ks)
    show thesis by (rule that [OF _ turn(2) _ turn(3) steps]) (use run turn(1,4) w(3) in auto)
  qed (use ks'(1) in simp)
qed

lemma wakes_turns:
  assumes "quiet_wakes lib pending valid written sels" and "srv_has_observable (sv_server r)"
    and "serving_ok valid r" and "announced lib r" and total: "\<forall>bs w. fst (write_all bs w) = Inr ()"
  shows "\<exists>r' ks. (serve_loop lib read_exact write_all max_str node_id sels r :: (('re, 'we) server_error fault + unit) \<times> _) = (Inr (), r')
     \<and> serving_ok valid r' \<and> announced lib r' \<and> length (sv_payload r') = length (sv_payload r)
     \<and> written (sv_world r') = written (sv_world r) @ frames_of ks
     \<and> pending (sv_world r') = pending (sv_world r) \<and> sv_observed r' = sv_observed r
     \<and> link_steps lib (sv_server r) (sv_server r')"
  using assms(1-4)
proof (induction sels arbitrary: r)
  case Nil
  then show ?case by (auto intro!: exI [of _ r] exI [of _ "[]"] simp: frames_of_def)
next
  case (Cons sel sels)
  have v: "valid (sv_world r)" using Cons.prems(3) by (simp add: serving_ok_def)
  then obtain w where w: "sel (sv_world r) = Some w" using Cons.prems(1) by (auto simp: quiet_wakes_def)
  have "outcome_ok lib pending valid written sel" "lossless pending sel" using Cons.prems(1) by (auto simp: quiet_wakes_def)
  then have w_ok: "valid w" "written w = written (sv_world r)" "pending w = pending (sv_world r)" "local_steps lib (sv_server r) (w_server w)"
    using w v unfolding outcome_ok_def lossless_def by blast+
  obtain r1 ks1 where 1: "(serve_notified lib write_all w r :: (('re, 'we) server_error fault + unit) \<times> _) = (Inr (), r1)"
    "turn_ends lib valid written r [] ks1 r1" "pending (sv_world r1) = pending (sv_world r)" "sv_observed r1 = sv_observed r"
    "link_steps lib (sv_server r) (sv_server r1)"
    by (rule serve_notified_turn [OF Cons.prems(3,4) total w_ok])
  have r1: "srv_has_observable (sv_server r1)" "serving_ok valid r1" "announced lib r1"
    using 1(2) Cons.prems(2) by (simp_all add: turn_ends_def srv_static_def)
  have "quiet_wakes lib pending valid written sels" using Cons.prems(1) by (simp add: quiet_wakes_def)
  from Cons.IH [OF this r1] obtain r2 ks2 where 2:
    "(serve_loop lib read_exact write_all max_str node_id sels r1 :: (('re, 'we) server_error fault + unit) \<times> _) = (Inr (), r2)"
    "serving_ok valid r2" "announced lib r2" "length (sv_payload r2) = length (sv_payload r1)"
    "written (sv_world r2) = written (sv_world r1) @ frames_of ks2"
    "pending (sv_world r2) = pending (sv_world r1)" "sv_observed r2 = sv_observed r1"
    "link_steps lib (sv_server r1) (sv_server r2)" by blast
  have "written (sv_world r2) = written (sv_world r) @ frames_of (ks1 @ ks2)"
    using 1(2) 2(5) by (simp add: turn_ends_def frames_of_def)
  then show ?case
    using 1 2 Cons.prems(2) w rtranclp_trans [OF 1(5) 2(8)]
    by (intro exI [of _ r2] exI [of _ "ks1 @ ks2"]) (simp add: act_bind_def turn_ends_def)
qed

end

lemma serve_loop_append:
  "serve_loop lib read_exact write_all max_str node_id (xs @ ys) r =
     act_bind (serve_loop lib read_exact write_all max_str node_id xs)
       (\<lambda>_. serve_loop lib read_exact write_all max_str node_id ys) r"
  by (induction xs arbitrary: r) (auto simp: act_bind_def split: prod.split sum.split)

section \<open>The connection\<close>

text \<open>
  The server at work and the client's position in the bytes it has written. Writing delivers the
  bytes and lets the loop run: the wake-ups scheduled for the turn, then the request.
\<close>

record ('g, 's) link =
  link_serving :: "('g, 's) serving"
  link_taken :: nat
  link_turns :: nat
  link_up :: bool

definition link_turn ::
  "'g embassy_lib \<Rightarrow> (('g, 's) world, 're) reader \<Rightarrow> (('g, 's) world, 'we) writer \<Rightarrow> (bytes \<Rightarrow> ('g, 's) world \<Rightarrow> ('g, 's) world)
     \<Rightarrow> nat \<Rightarrow> rstr \<Rightarrow> ('g, 's) select_outcome list \<Rightarrow> bytes \<Rightarrow> ('g, 's, 're, 'we, unit) handler" where
  "link_turn lib read_exact write_all deliver max_str node_id wakes bs r =
     serve_loop lib read_exact write_all max_str node_id
       ((if srv_has_observable (sv_server r) then wakes else []) @ [\<lambda>_. None])
       (r\<lparr>sv_world := deliver bs (sv_world r)\<rparr>)"

definition link_write ::
  "'g embassy_lib \<Rightarrow> (('g, 's) world, 're) reader \<Rightarrow> (('g, 's) world, 'we) writer \<Rightarrow> (bytes \<Rightarrow> ('g, 's) world \<Rightarrow> ('g, 's) world)
     \<Rightarrow> nat \<Rightarrow> rstr \<Rightarrow> (nat \<Rightarrow> ('g, 's) select_outcome list) \<Rightarrow> (('g, 's) link, unit) writer" where
  "link_write lib read_exact write_all deliver max_str node_id wakes bs L =
     (if \<not> link_up L then (Inr (), L)
      else case link_turn lib read_exact write_all deliver max_str node_id (wakes (link_turns L)) bs (link_serving L) of
        (Inr _, r) \<Rightarrow> (Inr (), L\<lparr>link_serving := r, link_turns := Suc (link_turns L)\<rparr>)
      | (Inl _, r) \<Rightarrow> (Inr (), L\<lparr>link_serving := r, link_up := False\<rparr>))"

definition link_pending :: "(('g, 's) world \<Rightarrow> bytes) \<Rightarrow> ('g, 's) link \<Rightarrow> bytes" where
  "link_pending written L = drop (link_taken L) (written (sv_world (link_serving L)))"

definition link_read :: "(('g, 's) world \<Rightarrow> bytes) \<Rightarrow> (('g, 's) link, unit) reader" where
  "link_read written n L =
     (if n \<le> length (link_pending written L)
      then (Inr (take n (link_pending written L)), L\<lparr>link_taken := link_taken L + n\<rparr>)
      else (Inl (), L))"

text \<open>The server waits for the next request.\<close>

definition server_waits ::
  "'g embassy_lib \<Rightarrow> (('g, 's) world \<Rightarrow> bytes) \<Rightarrow> (('g, 's) world \<Rightarrow> bool) \<Rightarrow> ('g, 's) serving \<Rightarrow> bool" where
  "server_waits lib pending valid r \<longleftrightarrow> serving_ok valid r \<and> announced lib r \<and> pending (sv_world r) = []"

definition link_at :: "(('g, 's) world \<Rightarrow> bytes) \<Rightarrow> ('g, 's) serving \<Rightarrow> nat \<Rightarrow> ('g, 's) link \<Rightarrow> bool" where
  "link_at written r n L \<longleftrightarrow> link_up L \<and> link_serving L = r \<and> link_turns L = n
     \<and> link_taken L \<le> length (written (sv_world r))"

definition link_idle where
  "link_idle lib pending valid written L \<longleftrightarrow> server_waits lib pending valid (link_serving L)
     \<and> link_at written (link_serving L) (link_turns L) L"

text \<open>The notifications the client has not read yet.\<close>

definition link_unread :: "(('g, 's) world \<Rightarrow> bytes) \<Rightarrow> ('g, 's) link \<Rightarrow> u16 list \<Rightarrow> bool" where
  "link_unread written L ks \<longleftrightarrow> link_pending written L = frames_of ks"

text \<open>The contract of the environment that carries the client's bytes to the server.\<close>

locale embassy_link = embassy_env lib read_exact pending valid write_all written
  for lib :: "'g embassy_lib" and read_exact :: "(('g, 's) world, 're) reader"
    and pending :: "('g, 's) world \<Rightarrow> bytes" and valid :: "('g, 's) world \<Rightarrow> bool"
    and write_all :: "(('g, 's) world, 'we) writer" and written :: "('g, 's) world \<Rightarrow> bytes" +
  fixes deliver :: "bytes \<Rightarrow> ('g, 's) world \<Rightarrow> ('g, 's) world"
  assumes deliver: "valid w \<Longrightarrow> valid (deliver bs w) \<and> pending (deliver bs w) = pending w @ bs
      \<and> written (deliver bs w) = written w \<and> w_server (deliver bs w) = w_server w"
    and write_total: "fst (write_all bs w) = Inr ()"
begin

lemma link_turn_answers:
  assumes waits: "server_waits lib pending valid r" and id: "node_id_ok node_id"
    and wakes: "quiet_wakes lib pending valid written wakes"
    and m: "wire_message ClientToNode m" "incoming_of max_str m = Some q"
  obtains r' srv ks ks' where
    "(link_turn lib read_exact write_all deliver max_str node_id wakes (message_bytes m) r
        :: (('re, 'we) server_error fault + unit) \<times> _) = (Inr (), r')"
    "server_waits lib pending valid r'" "link_steps lib (sv_server r) srv"
    "local_steps lib (embassy_store lib srv q) (sv_server r')" "server_ok (length (sv_payload r)) srv"
    "wire_message NodeToClient (embassy_response lib node_id srv q)"
    "written (sv_world r') = written (sv_world r) @ frames_of ks @ message_bytes (embassy_response lib node_id srv q) @ frames_of ks'"
    "sv_observed r' = fst (embassy_watch srv q (sv_watching r))"
proof -
  let ?r0 = "r\<lparr>sv_world := deliver (message_bytes m) (sv_world r)\<rparr>"
  let ?wakes = "if srv_has_observable (sv_server r) then wakes else []"
  have total: "\<forall>bs w. fst (write_all bs w) = Inr ()" using write_total by blast
  have ok: "serving_ok valid r" "announced lib r" "pending (sv_world r) = []" using waits by (simp_all add: server_waits_def)
  then have d: "valid (deliver (message_bytes m) (sv_world r))" "pending (deliver (message_bytes m) (sv_world r)) = message_bytes m"
    "written (deliver (message_bytes m) (sv_world r)) = written (sv_world r)" "w_server (deliver (message_bytes m) (sv_world r)) = sv_server r"
    using deliver [of "sv_world r" "message_bytes m"] by (simp_all add: serving_ok_def)
  then have ok0: "serving_ok valid ?r0" "announced lib ?r0"
    using ok by (simp_all add: serving_ok_def announced_def unannounced_def sv_key_def)
  obtain r1 ks where 1: "(serve_loop lib read_exact write_all max_str node_id ?wakes ?r0 :: (('re, 'we) server_error fault + unit) \<times> _) = (Inr (), r1)"
    "serving_ok valid r1" "announced lib r1" "length (sv_payload r1) = length (sv_payload r)"
    "written (sv_world r1) = written (sv_world r) @ frames_of ks" "pending (sv_world r1) = message_bytes m"
    "sv_observed r1 = sv_observed r" "link_steps lib (sv_server r) (sv_server r1)"
  proof (cases "srv_has_observable (sv_server r)")
    case True
    with wakes_turns [OF wakes _ ok0 total, of max_str node_id] d that show thesis by auto
  next
    case False
    then show thesis using that [of ?r0 "[]"] ok0 d by (simp add: frames_of_def)
  qed
  obtain r' srv ks' where 2:
    "(serve_request lib read_exact write_all max_str node_id r1 :: (('re, 'we) server_error fault + unit) \<times> _) = (Inr (), r')"
    "turn_ends lib valid written r1 (message_bytes (embassy_response lib node_id srv q)) ks' r'"
    "pending (sv_world r') = []" "local_steps lib (sv_server r1) srv"
    "local_steps lib (embassy_store lib srv q) (sv_server r')" "wire_message NodeToClient (embassy_response lib node_id srv q)"
    "server_ok (length (sv_payload r1)) srv" "sv_observed r' = fst (embassy_watch srv q (sv_watching r1))"
    by (rule serve_request_turn [OF 1(2) id total m 1(6)])
  show thesis
  proof (rule that [of r' srv ks ks'])
    show "(link_turn lib read_exact write_all deliver max_str node_id wakes (message_bytes m) r
        :: (('re, 'we) server_error fault + unit) \<times> _) = (Inr (), r')"
      using 1(1) 2(1) by (simp add: link_turn_def serve_loop_append act_bind_def)
    show "sv_observed r' = fst (embassy_watch srv q (sv_watching r))"
      using 2(8) 1(7) observed_of_watch [of srv q "sv_observed r" "sv_seen r1" "sv_seen r"] by simp
    show "link_steps lib (sv_server r) srv" using 1(8) local_link_steps [OF 2(4)] by (rule rtranclp_trans)
  qed (use 1 2 in \<open>simp_all add: turn_ends_def server_waits_def\<close>)
qed

end

section \<open>A wake-up that announces a change\<close>

text \<open>No other task runs while the loop writes.\<close>

definition keeps_server :: "(('g, 's) world, 're, 'we, 'a) srv_action \<Rightarrow> bool" where
  "keeps_server m \<longleftrightarrow> (\<forall>w. w_server (snd (m w)) = w_server w)"

lemma keeps_server_bind:
  assumes "keeps_server m" and "\<And>a. keeps_server (f a)"
  shows "keeps_server (act_bind m f)"
  unfolding keeps_server_def
proof
  fix w
  have "w_server (snd (m w)) = w_server w" "\<And>a w. w_server (snd (f a w)) = w_server w"
    using assms by (simp_all add: keeps_server_def)
  then show "w_server (snd (act_bind m f w)) = w_server w"
    by (auto simp: act_bind_def split: prod.split sum.split)
qed

lemma keeps_server_frame:
  assumes "\<forall>bs w. w_server (snd (write_all bs w)) = w_server w"
  shows "keeps_server (send_frame_to write_all oc p)"
proof -
  have "keeps_server (send_bytes write_all bs)" for bs
    using assms by (auto simp: keeps_server_def send_bytes_def act_map_err_def split: prod.split) (metis snd_conv)
  then show ?thesis
    unfolding send_frame_to_def Let_def
    by (auto intro!: keeps_server_bind split: option.split) (simp add: keeps_server_def)
qed

lemma on_world_keeps:
  assumes "keeps_server m"
  shows "sv_server (snd (on_world m r)) = sv_server r"
proof -
  have "w_server (snd (m (sv_world r))) = sv_server r" using assms by (simp add: keeps_server_def)
  then show ?thesis by (cases "m (sv_world r)") (simp add: on_world_def)
qed

lemma flush_key_keeps:
  assumes "\<forall>bs w. w_server (snd (write_all bs w)) = w_server w"
    and run: "(flush_key write_all i r :: (('re, 'we) server_error fault + unit) \<times> _) = (res, r')"
  shows "sv_server r' = sv_server r"
proof -
  note world = on_world_keeps [OF keeps_server_frame [OF assms(1)]]
  have "sv_server (snd (flush_key write_all i r :: (('re, 'we) server_error fault + unit) \<times> _)) = sv_server r"
    by (auto simp: flush_key_def Let_def act_bind_def fill_payload_def send_payload_def world split: prod.split sum.split)
  then show ?thesis using run by simp
qed

context embassy_link
begin

lemma flush_keys_now:
  assumes still: "\<forall>bs w. w_server (snd (write_all bs w)) = w_server w"
  shows "serving_ok valid r \<Longrightarrow> set js \<subseteq> {..<length (srv_keys (sv_server r))} \<Longrightarrow>
     (flush_keys write_all js r :: (('re, 'we) server_error fault + unit) \<times> _) = (Inr (), r') \<Longrightarrow>
     \<exists>ix. written (sv_world r') = written (sv_world r) @ concat (map (changed_frame (sv_server r)) ix)
       \<and> {i \<in> set js. unannounced r i} \<subseteq> set ix \<and> sv_server r' = sv_server r"
proof (induction js arbitrary: r)
  case (Cons j js)
  obtain res1 r1 where 1: "(flush_key write_all j :: ('g, 's, 're, 'we, unit) handler) r = (res1, r1)" by fastforce
  have j: "j < length (srv_keys (sv_server r))" using Cons.prems(2) by simp
  have r1: "valid (sv_world r1)" "sv_observed r1 = sv_observed r" "length (sv_payload r1) = length (sv_payload r)"
    "sv_seen r1 = (if unannounced r j then (sv_seen r)[j := key_generation (sv_key r j)] else sv_seen r)"
    and res1: "res1 = Inr () \<and> written (sv_world r1) = written (sv_world r) @
        (if unannounced r j then changed_frame (sv_server r) j else []) \<or> (\<exists>e. res1 = Inl (Fail (ServerWrite e)))"
    using flush_key_replies [OF Cons.prems(1) j] 1 unfolding replies_def by auto
  have res: "res1 = Inr ()" using Cons.prems(3) 1 res1 by (auto simp: act_bind_def)
  have srv: "sv_server r1 = sv_server r" by (rule flush_key_keeps [OF still 1])
  have ok1: "serving_ok valid r1" by (rule serving_ok_after [OF Cons.prems(1)]) (use r1 srv in simp_all)
  have run: "(flush_keys write_all js r1 :: (('re, 'we) server_error fault + unit) \<times> _) = (Inr (), r')"
    using Cons.prems(3) 1 res by (simp add: act_bind_def)
  obtain ix where ix: "written (sv_world r') = written (sv_world r1) @ concat (map (changed_frame (sv_server r1)) ix)"
    "{i \<in> set js. unannounced r1 i} \<subseteq> set ix" "sv_server r' = sv_server r1"
    using Cons.IH [OF ok1 _ run] Cons.prems(2) srv by auto
  have "unannounced r1 i" if "i \<noteq> j" "unannounced r i" for i
    using that r1(2,4) srv by (simp add: unannounced_def sv_key_def)
  then have "i \<in> set ((if unannounced r j then [j] else []) @ ix)" if "i \<in> set (j # js)" "unannounced r i" for i
    using that ix(2) by (cases "i = j") auto
  then have "{i \<in> set (j # js). unannounced r i} \<subseteq> set ((if unannounced r j then [j] else []) @ ix)" by blast
  moreover have "written (sv_world r') = written (sv_world r)
      @ concat (map (changed_frame (sv_server r)) ((if unannounced r j then [j] else []) @ ix))"
    using ix(1) res1 res srv by simp
  moreover have "sv_server r' = sv_server r" using ix(3) srv by simp
  ultimately show ?case by blast
qed (auto intro!: exI [of _ "[]"])

text \<open>The wait completes when an observed key has changed, and the turn announces the key.\<close>

lemma wake_announces:
  assumes waits: "server_waits lib pending valid r" and sel: "sel (sv_world r) = Some w"
    and outcome: "outcome_ok lib pending valid written sel" "lossless pending sel"
    and still: "\<forall>bs w. w_server (snd (write_all bs w)) = w_server w"
    and i: "i < length (srv_keys (sv_server r))" "sv_observed r ! i" "key_observable (sv_key r i)"
    and changed: "key_generation (srv_keys (w_server w) ! i) \<noteq> sv_seen r ! i"
  obtains r' ks where
    "(serve_loop lib read_exact write_all max_str node_id [sel] r :: (('re, 'we) server_error fault + unit) \<times> _) = (Inr (), r')"
    "server_waits lib pending valid r'" "written (sv_world r') = written (sv_world r) @ frames_of ks"
    "key_keyref (sv_key r i) \<in> set ks"
proof -
  have ok: "serving_ok valid r" "announced lib r" "pending (sv_world r) = []" and okr: "server_ok (length (sv_payload r)) (sv_server r)"
    using waits by (simp_all add: server_waits_def serving_ok_def)
  have v: "valid (sv_world r)" using ok by (simp add: serving_ok_def)
  have w: "valid w" "written w = written (sv_world r)" "pending w = pending (sv_world r)" "local_steps lib (sv_server r) (w_server w)"
    using sel v outcome unfolding outcome_ok_def lossless_def by blast+
  note st = local_steps_static [OF w(4)]
  have len: "length (srv_keys (w_server w)) = length (srv_keys (sv_server r))" by (rule static_nth(2) [OF st i(1)])
  have keyw: "key_observable (srv_keys (w_server w) ! i)" "key_keyref (srv_keys (w_server w) ! i) = key_keyref (sv_key r i)"
    using static_key(1,2) [OF st i(1)] i(3) by (simp_all add: sv_key_def)
  have ready: "srv_ready lib (w_server w)"
  proof (cases "key_generation (srv_keys (w_server w) ! i) = key_generation (sv_key r i)")
    case True
    then have "srv_ready lib (sv_server r)" using ok(2) i changed by (simp add: announced_def unannounced_def)
    then show ?thesis by (rule local_steps_ready(1) [OF w(4) okr])
  next
    case False
    then show ?thesis using local_steps_ready(2) [OF w(4) okr i(1)] i(3) by (simp add: sv_key_def)
  qed
  then obtain g where g: "lib_wait lib (srv_notifier (w_server w)) = Some g" by (auto simp: srv_ready_def)
  let ?r1 = "r\<lparr>sv_world := w\<lparr>w_server := (w_server w)\<lparr>srv_notifier := g\<rparr>\<rparr>\<rparr>"
  have obs: "srv_has_observable (w_server w)" "srv_has_observable (sv_server r)"
    using okr i st by (auto simp: server_ok_def sv_key_def srv_static_def)
  have total: "\<forall>bs w. fst (write_all bs w) = Inr ()" using write_total by blast
  obtain r' ks' where t: "(serve_notified lib write_all w r :: (('re, 'we) server_error fault + unit) \<times> _) = (Inr (), r')"
    "turn_ends lib valid written r [] ks' r'" "pending (sv_world r') = pending (sv_world r)"
    by (rule serve_notified_turn [OF ok(1,2) total w])
  have flush: "(flush_keys write_all [0..<length (srv_keys (w_server w))] ?r1 :: (('re, 'we) server_error fault + unit) \<times> _) = (Inr (), r')"
    using t(1) g obs by (simp add: serve_notified_def flush_notifications_def)
  have "server_ok (length (sv_payload r)) (w_server w)" using local_steps_ok [OF w(4) okr] .
  then have ok1: "serving_ok valid ?r1"
    using ok(1) world_server [OF w(1)] len by (simp add: serving_ok_def server_ok_def)
  obtain js where js: "written (sv_world r') = written (sv_world ?r1) @ concat (map (changed_frame (sv_server ?r1)) js)"
    "{j \<in> set [0..<length (srv_keys (w_server w))]. unannounced ?r1 j} \<subseteq> set js"
    using flush_keys_now [OF still ok1 _ flush] by (auto simp: atLeast0LessThan)
  have un: "unannounced ?r1 i" using i(2) keyw(1) changed by (simp add: unannounced_def sv_key_def)
  then have "i \<in> set js" using js(2) i(1) len by auto
  show thesis
  proof (rule that [of r' "map (\<lambda>j. key_keyref (srv_keys (w_server w) ! j)) js"])
    show "(serve_loop lib read_exact write_all max_str node_id [sel] r :: (('re, 'we) server_error fault + unit) \<times> _) = (Inr (), r')"
      using t(1) sel obs by (simp add: act_bind_def)
    show "written (sv_world r') = written (sv_world r) @ frames_of (map (\<lambda>j. key_keyref (srv_keys (w_server w) ! j)) js)"
      using js(1) w(2) world_server [OF w(1)] by (simp add: frames_of_def comp_def changed_frame_def [abs_def])
    show "key_keyref (sv_key r i) \<in> set (map (\<lambda>j. key_keyref (srv_keys (w_server w) ! j)) js)"
      using \<open>i \<in> set js\<close> keyw(2) by (auto simp: image_iff intro!: bexI [of _ i])
  qed (use t ok(3) in \<open>simp add: server_waits_def turn_ends_def\<close>)
qed

end

text \<open>The concrete stream carries the client's bytes.\<close>

definition ls_deliver :: "bytes \<Rightarrow> ('g, list_stream) world \<Rightarrow> ('g, list_stream) world" where
  "ls_deliver bs w = w\<lparr>w_stream := (w_stream w)\<lparr>ls_in := ls_in (w_stream w) @ bs\<rparr>\<rparr>"

interpretation lsl: embassy_link flag_lib ls_read ls_pending "\<lambda>_. True" ls_write ls_written ls_deliver
  by unfold_locales (auto simp: ls_deliver_def ls_pending_def ls_written_def ls_write_def)

end
