(* ===== verification/Embassy_Props.thy ===== *)
theory Embassy_Props
  imports Embassy_Run
begin

text \<open>
  The properties of whole runs of the embassy server: it fails only through the wire, its
  transcript is a sequence of answered requests and of notifications for observed keys, no
  notification is lost; and the finding that a wake-up in the middle of a request loses the
  bytes already read.
\<close>

section \<open>Safety\<close>

lemma default_node_id_ok: "node_id_ok DEFAULT_NODE_ID"
  by (simp add: node_id_ok_def DEFAULT_NODE_ID_def ascii_def ascii_wf_str)

text \<open>
  C19: a server that \<open>run!\<close> builds over valid keys stays well formed and never panics nor
  reports an internal error, whatever the peer sends and whatever other tasks set: a run ends
  early only with an error of the stream or because the bytes received violate the protocol.
\<close>

theorem embassy_run_safe:
  assumes "embassy_env lib (read_exact :: (('g, 's) world, 're) reader) pending valid write_all written"
    and "registry_ok keys" and "unique_keyrefs keys" and "\<forall>given \<in> set_option node_id. node_id_ok given"
    and "valid w" and "\<forall>sel \<in> set sels. outcome_ok lib pending valid written sel"
    and "(qup_run debug_assertions lib read_exact write_all node_id keys sels w
        :: (('re, 'we) server_error fault + unit) \<times> _) = (res, r')"
  shows "(\<exists>e. res = Inl (Fail (ServerRead e))) \<or> (\<exists>e. res = Inl (Fail (ServerWrite e)))
     \<or> (\<exists>e. res = Inl (Fail (ServerProtocol e))) \<or> res = Inr () \<and> serving_ok valid r'"
proof -
  have id: "node_id_ok (case node_id of None \<Rightarrow> DEFAULT_NODE_ID | Some given \<Rightarrow> given)"
    using assms(4) default_node_id_ok by (simp split: option.split)
  have w: "valid (w\<lparr>w_server := run_server lib keys\<rparr>)" using embassy_env.world_server [OF assms(1,5)] by blast
  show ?thesis
    using embassy_env.run_result [OF assms(1-3) id w _ assms(6) assms(7) [unfolded qup_run_def]]
    by (auto simp: wire_failure_def)
qed

text \<open>The concrete environment of the witnesses: an OBSERVE request, then a local update.\<close>

lemma sample_ok: "registry_ok [sample_key]" "unique_keyrefs [sample_key]" "node_id_ok (ascii ''n'')"
proof -
  have "serving_ok (\<lambda>_. True) (sample_serving [])" by (rule sample_serving_ok)
  then have "key_fits 10 sample_key"
    by (simp add: serving_ok_def sample_serving_def serving_start_def server_ok_def sample_server_def Let_def)
  then show "registry_ok [sample_key]" by (simp add: registry_ok_def key_fits_def)
qed (simp_all add: node_id_ok_def ascii_def ascii_wf_str)

lemma sample_select: "\<forall>sel \<in> set [\<lambda>_. None]. outcome_ok flag_lib ls_pending (\<lambda>_. True) ls_written sel \<and> lossless ls_pending sel"
  by (simp add: outcome_ok_def lossless_def)

lemma sample_run_observe:
  "(run_embassy_server True flag_lib ls_read ls_write (run_max_str [sample_key]) (run_max_response [sample_key])
      (ascii ''n'') [\<lambda>_. None] (sample_world observe_bytes)
      :: ((unit, unit) server_error fault + unit) \<times> _) = (Inr (), sample_observing [])"
  using sample_run [OF sample_ok(3), of True "[]" "[]"] by simp

lemma sample_server_world: "w_server (sample_world input) = run_server flag_lib [sample_key]"
  by (simp add: sample_world_def)

lemma sample_qup_run:
  "(qup_run True flag_lib ls_read ls_write (Some (ascii ''n'')) [sample_key] [\<lambda>_. None] (sample_world observe_bytes)
      :: ((unit, unit) server_error fault + unit) \<times> _) = (Inr (), sample_observing [])"
proof -
  have "sample_world observe_bytes\<lparr>w_server := run_server flag_lib [sample_key]\<rparr> = sample_world observe_bytes"
    by (simp add: sample_world_def)
  then show ?thesis using sample_run_observe by (simp add: qup_run_def)
qed

lemma embassy_run_safe_witness:
  "\<exists>res r'. (qup_run True flag_lib ls_read ls_write (Some (ascii ''n'')) [sample_key] [\<lambda>_. None] (sample_world observe_bytes)
        :: ((unit, unit) server_error fault + unit) \<times> _) = (res, r')
     \<and> ((\<exists>e. res = Inl (Fail (ServerRead e))) \<or> (\<exists>e. res = Inl (Fail (ServerWrite e)))
        \<or> (\<exists>e. res = Inl (Fail (ServerProtocol e))) \<or> res = Inr () \<and> serving_ok (\<lambda>_. True) r')"
  by (intro exI conjI, rule sample_qup_run,
      rule embassy_run_safe [OF ls.embassy_env_axioms sample_ok(1,2) _ TrueI _ sample_qup_run])
    (use sample_ok(3) sample_select in auto)

section \<open>The transcript\<close>

text \<open>
  C5: unless a wake-up interrupts a request that has begun to arrive, a run serves the stream
  in order: the bytes received are the frames of well-formed requests, each answered by one
  frame that conforms to the protocol before the next one is read, and CHANGED frames appear
  only between responses and only for keys the peer observes at that point.
\<close>

theorem embassy_run_transcript:
  assumes "embassy_env lib (read_exact :: (('g, 's) world, 're) reader) pending valid write_all written"
    and "registry_ok keys" and "unique_keyrefs keys" and "node_id_ok node_id"
    and "valid w" and "w_server w = run_server lib keys"
    and "\<forall>sel \<in> set sels. outcome_ok lib pending valid written sel \<and> lossless pending sel"
    and "(run_embassy_server debug_assertions lib read_exact write_all (run_max_str keys) (run_max_response keys)
        node_id sels w :: (('re, 'we) server_error fault + unit) \<times> _) = (Inr (), r')"
  shows "\<exists>ts. length ts = length sels \<and> turns_ok {} ts
     \<and> pending w = concat (map turn_in ts) @ pending (sv_world r')
     \<and> written (sv_world r') = written w @ concat (map turn_out ts)"
  using embassy_env.run_result [OF assms(1-6) _ assms(8)] assms(7) by simp

lemma embassy_run_transcript_witness:
  "\<exists>r' ts. (run_embassy_server True flag_lib ls_read ls_write (run_max_str [sample_key]) (run_max_response [sample_key])
        (ascii ''n'') [\<lambda>_. None] (sample_world observe_bytes) :: ((unit, unit) server_error fault + unit) \<times> _) = (Inr (), r')
     \<and> length ts = length [\<lambda>_ :: (bool, list_stream) world. None :: (bool, list_stream) world option] \<and> turns_ok {} ts
     \<and> ls_pending (sample_world observe_bytes) = concat (map turn_in ts) @ ls_pending (sv_world r')
     \<and> ls_written (sv_world r') = ls_written (sample_world observe_bytes) @ concat (map turn_out ts)"
  using embassy_run_transcript [OF ls.embassy_env_axioms sample_ok TrueI sample_server_world sample_select sample_run_observe]
    sample_run_observe by blast

section \<open>No lost notification\<close>

text \<open>
  C3: whenever the serving loop waits, the generation of an observed key differs from the one
  last announced on the connection only while the notifier is signalled, also after any
  further updates by other tasks: the wait completes and the loop flushes the notification.
\<close>

theorem embassy_no_lost_notification:
  assumes "embassy_env lib (read_exact :: (('g, 's) world, 're) reader) pending valid write_all written"
    and "registry_ok keys" and "unique_keyrefs keys" and "node_id_ok node_id"
    and "valid w" and "w_server w = run_server lib keys"
    and "\<forall>sel \<in> set sels. outcome_ok lib pending valid written sel"
    and "(run_embassy_server debug_assertions lib read_exact write_all (run_max_str keys) (run_max_response keys)
        node_id sels w :: (('re, 'we) server_error fault + unit) \<times> _) = (Inr (), r')"
    and "local_steps lib (sv_server r') srv" and "i < length (srv_keys srv)"
    and "sv_observed r' ! i" and "key_observable (srv_keys srv ! i)"
    and "key_generation (srv_keys srv ! i) \<noteq> sv_seen r' ! i"
  shows "lib_wait lib (srv_notifier srv) \<noteq> None"
proof -
  have lib: "embassy_library lib" using assms(1) by (simp add: embassy_env_def)
  have r': "serving_ok valid r'" "announced lib r'"
    using embassy_env.run_result [OF assms(1-8)] by simp_all
  then have ok: "server_ok (length (sv_payload r')) (sv_server r')" by (simp add: serving_ok_def)
  have st: "srv_static srv = srv_static (sv_server r')" by (rule embassy_library.local_steps_static [OF lib assms(9)])
  have "length (srv_keys srv) = length (srv_keys (sv_server r'))"
    using arg_cong [OF static_keyrefs [OF st], of length] by simp
  then have i: "i < length (srv_keys (sv_server r'))" using assms(10) by simp
  then have obs: "key_observable (srv_keys (sv_server r') ! i)" using static_key(1) [OF st i] assms(12) by simp
  have "srv_ready lib srv"
  proof (cases "key_generation (srv_keys srv ! i) = key_generation (srv_keys (sv_server r') ! i)")
    case True
    then have "unannounced r' i" using assms(11,13) obs by (simp add: unannounced_def sv_key_def)
    then have "srv_ready lib (sv_server r')" using r'(2) i by (simp add: announced_def)
    then show ?thesis by (rule embassy_library.local_steps_ready(1) [OF lib assms(9) ok])
  next
    case False
    then show ?thesis by (rule embassy_library.local_steps_ready(2) [OF lib assms(9) ok i obs])
  qed
  then show ?thesis by (simp add: srv_ready_def)
qed

text \<open>Another task stores \<open>partial\<close> in the observed key.\<close>

definition sample_updated :: "bool server" where
  "sample_updated = set_local flag_lib 0 (VariantV 1) sample_server"

lemma sample_updated_step: "local_steps flag_lib sample_server sample_updated"
  unfolding sample_updated_def
  by (intro r_into_rtranclp local_step.intros) (simp_all add: sample_server_def sample_key_def)

lemma sample_updated_eq: "sample_updated = \<lparr>srv_has_observable = True,
    srv_keys = [sample_key\<lparr>key_slot := VariantV 1, key_change_signal := True, key_generation := 1\<rparr>],
    srv_notifier = True\<rparr>"
  by (simp add: sample_updated_def set_local_eq srv_store_def sample_server_def sample_key_def key_store_def
      notifier_after_def key_observable_def perm_tests flag_lib_def default_validate_def)

lemma embassy_no_lost_notification_witness:
  "key_generation (srv_keys sample_updated ! 0) \<noteq> sv_seen (sample_observing []) ! 0
     \<and> lib_wait flag_lib (srv_notifier sample_updated) \<noteq> None"
proof
  show gen: "key_generation (srv_keys sample_updated ! 0) \<noteq> sv_seen (sample_observing []) ! 0"
    by (simp add: sample_updated_eq sample_observing_def)
  show "lib_wait flag_lib (srv_notifier sample_updated) \<noteq> None"
    by (rule embassy_no_lost_notification [OF ls.embassy_env_axioms sample_ok TrueI sample_server_world _ sample_run_observe _ _ _ _ gen])
      (use sample_select sample_updated_step in \<open>simp_all add: sample_observing_def sample_updated_eq sample_key_def
        key_observable_def perm_tests\<close>)
qed

section \<open>What a flush announces\<close>

text \<open>
  C23: a flush sends, in the order of the registry, one CHANGED frame for exactly those observed
  keys whose generation, read when the flush comes to the key, differs from the one announced
  last, and records the generations it has read; nothing else is sent or recorded, even while
  other tasks keep setting keys during the flush.
\<close>

theorem flush_notifications_correct:
  assumes "embassy_env lib (read_exact :: (('g, 's) world, 're) reader) pending valid write_all written"
    and "serving_ok valid r"
    and "(flush_notifications write_all :: ('g, 's, 're, 'we, unit) handler) r = (Inr (), r')"
  shows "\<exists>gens. (\<forall>i < length (srv_keys (sv_server r)). read_between lib (sv_server r) (sv_server r') i (gens i))
     \<and> written (sv_world r') = written (sv_world r) @
          concat (map (changed_frame (sv_server r)) (filter (due r gens) [0..<length (srv_keys (sv_server r))]))
     \<and> sv_seen r' = seen_after r gens {..<length (srv_keys (sv_server r))}
     \<and> sv_observed r' = sv_observed r"
  using embassy_env.flush_notifications_flushes [OF assms(1,2)] assms(3)
  unfolding flushes_def by (auto simp: atLeast0LessThan)

text \<open>The observing connection after the update.\<close>

definition sample_changed :: "(bool, list_stream) serving" where
  "sample_changed = sample_observing []
     \<lparr>sv_world := \<lparr>w_server = sample_updated, w_stream = \<lparr>ls_in = [], ls_out = []\<rparr>\<rparr>\<rparr>"

lemma sample_changed_ok: "serving_ok (\<lambda>_. True) sample_changed"
proof -
  have start: "server_ok 10 sample_server" using sample_serving_ok [of "[]"]
    by (simp add: serving_ok_def sample_serving_def serving_start_def Let_def)
  have "server_ok 10 sample_updated"
    by (rule flag.local_steps_ok [OF sample_updated_step start])
  then show ?thesis
    by (simp add: serving_ok_def sample_changed_def sample_observing_def) (simp add: sample_updated_eq)
qed

lemma sample_flush:
  "(flush_notifications ls_write :: (bool, list_stream, unit, unit, unit) handler) sample_changed =
     (Inr (), sample_changed\<lparr>sv_world := \<lparr>w_server = sample_updated, w_stream = \<lparr>ls_in = [], ls_out = frame_bytes CHANGED (to_be 2 (0 :: u16))\<rparr>\<rparr>,
        sv_seen := [1], sv_payload := to_be 2 (0 :: u16) @ replicate 8 0\<rparr>)"
  by (simp add: sample_changed_def sample_observing_def sample_updated_eq flush_notifications_def flush_key_def sv_key_def
      sample_key_def key_observable_def perm_tests act_bind_def Let_def fill_payload_def write_front_fits send_payload_def
      on_world_def ls_send_frame)

lemma flush_notifications_correct_witness:
  "\<exists>r' gens. (flush_notifications ls_write :: (bool, list_stream, unit, unit, unit) handler) sample_changed = (Inr (), r')
     \<and> (\<forall>i < length (srv_keys (sv_server sample_changed)).
          read_between flag_lib (sv_server sample_changed) (sv_server r') i (gens i))
     \<and> ls_written (sv_world r') = ls_written (sv_world sample_changed) @
          concat (map (changed_frame (sv_server sample_changed)) (filter (due sample_changed gens)
            [0..<length (srv_keys (sv_server sample_changed))]))
     \<and> sv_seen r' = seen_after sample_changed gens {..<length (srv_keys (sv_server sample_changed))}
     \<and> sv_observed r' = sv_observed sample_changed"
  using flush_notifications_correct [OF ls.embassy_env_axioms sample_changed_ok sample_flush] sample_flush by blast

section \<open>A wake-up drops a partly read request\<close>

text \<open>
  The outcome of \<open>select\<close> in which the header of a request has arrived and been read, the rest
  has not, and another task sets the observed key: the wait wins and the read is dropped.
\<close>

definition interrupted :: "(bool, list_stream) select_outcome" where
  "interrupted w =
     (case (ls_read 3 w :: (unit + bytes) \<times> _) of
        (Inl _, _) \<Rightarrow> None
      | (Inr _, w') \<Rightarrow>
          if w_server w' = sample_server then Some (w'\<lparr>w_server := sample_updated\<rparr>) else None)"

lemma sample_wake:
  "(serve_notified flag_lib ls_write \<lparr>w_server = sample_updated, w_stream = st\<rparr> (sample_observing input)
      :: ((unit, unit) server_error fault + unit) \<times> _) =
   (Inr (), (sample_observing input)\<lparr>sv_world := \<lparr>w_server = sample_updated\<lparr>srv_notifier := False\<rparr>,
        w_stream = st\<lparr>ls_out := ls_out st @ frame_bytes CHANGED (to_be 2 (0 :: u16))\<rparr>\<rparr>,
      sv_seen := [1], sv_payload := to_be 2 (0 :: u16) @ replicate 8 0\<rparr>)"
  by (simp add: serve_notified_def flag_lib_def sample_observing_def sample_updated_eq flush_notifications_def flush_key_def
      sv_key_def sample_key_def key_observable_def perm_tests act_bind_def Let_def fill_payload_def write_front_fits
      send_payload_def on_world_def ls_send_frame)

lemma sample_desync:
  "(read_request ls_read n \<lparr>w_server = srv, w_stream = \<lparr>ls_in = 0xB0 # ping_bytes, ls_out = out\<rparr>\<rparr>
      :: ((unit, unit) server_error fault + _) \<times> _) =
     (Inl (frame_error_of (ReservedOpcode (Opcode 0xB0))),
      \<lparr>w_server = srv, w_stream = \<lparr>ls_in = [0, 0xB0], ls_out = out\<rparr>\<rparr>)"
  by (simp add: read_request_def ls_read_def ping_bytes_def validate_def is_reserved_def opcode_class_def)

lemma interrupted_outcome:
  "outcome_ok flag_lib ls_pending (\<lambda>_. True) ls_written interrupted"
  unfolding outcome_ok_def
proof (intro allI impI, elim conjE)
  fix w w' assume "interrupted w = Some w'"
  then have w': "w' = \<lparr>w_server = sample_updated, w_stream = (w_stream w)\<lparr>ls_in := drop 3 (ls_in (w_stream w))\<rparr>\<rparr>"
    and w: "w_server w = sample_server"
    by (auto simp: interrupted_def ls_read_def split: if_splits)
  have "ls_pending w = take 3 (ls_in (w_stream w)) @ ls_pending w'" by (simp add: w' ls_pending_def)
  then show "True \<and> ls_written w' = ls_written w \<and> local_steps flag_lib (w_server w) (w_server w')
      \<and> (\<exists>bs. ls_pending w = bs @ ls_pending w')"
    using sample_updated_step w by (auto simp: w' ls_written_def)
qed

lemma interrupted_loses: "\<not> lossless ls_pending interrupted"
  by (auto simp: lossless_def ls_pending_def interrupted_def ls_read_def
      intro!: exI [of _ "\<lparr>w_server = sample_server, w_stream = \<lparr>ls_in = [0, 0, 0], ls_out = []\<rparr>\<rparr>"] split: if_splits)

lemma sample_interrupted_loop:
  "fst (serve_loop flag_lib ls_read ls_write 7 DEFAULT_NODE_ID [interrupted, \<lambda>_. None]
      (sample_observing (ping_bytes @ ping_bytes)) :: ((unit, unit) server_error fault + unit) \<times> _) =
    Inl (Fail (ServerProtocol (FrameViolation (ReservedOpcode (Opcode 0xB0)))))"
proof -
  have "interrupted (sv_world (sample_observing (ping_bytes @ ping_bytes))) =
      Some \<lparr>w_server = sample_updated, w_stream = \<lparr>ls_in = 0xB0 # ping_bytes, ls_out = frame_bytes OK []\<rparr>\<rparr>"
    by (simp add: interrupted_def sample_observing_def ls_read_def ping_bytes_def)
  moreover have "srv_has_observable (sv_server (sample_observing input))" "srv_has_observable sample_updated" for input
    by (simp_all add: sample_observing_def sample_server_def sample_updated_eq)
  ultimately show ?thesis
    by (simp add: act_bind_def sample_wake serve_request_def read_server_request_def on_world_def sample_desync frame_error_of_def)
qed


end
