(* ===== verification/Client.thy ===== *)
theory Client
  imports Transport
begin

text \<open>
  The host-side client (\<open>crates/qup/src/client.rs\<close>): owned values and messages, the frame
  builder and payload writers, the \<open>Client\<close> over an async byte stream and its request
  operations. The stream is a parameter: \<open>read_exact\<close> and \<open>write_all\<close> as actions. The trace
  callback is the log of its calls; the message text of a protocol error is represented by
  the error it is formatted from.
\<close>

section \<open>Data\<close>

datatype frame_direction = Tx | Rx

datatype client_value = Value_Bool bool | Value_I64 i64 | Value_Str rstr

datatype message =
    Message_Ok
  | Message_Caps rstr
  | Message_Identified rstr
  | Message_KeytabLen u16
  | Message_Key key_flags rstr
  | Message_Value client_value
  | Message_Written client_value
  | Message_Error u8
  | Message_Changed u16

record key_info =
  info_keyref :: u16
  info_keyflags :: key_flags
  info_name :: rstr

datatype protocol_cause =
    Frame_Validation frame_error
  | Payload_Validation payload_error
  | Client_Direction_Message

datatype 'io io_error = Stream_Error 'io | InvalidInput string

datatype 'io client_error =
    Io "'io io_error"
  | Protocol protocol_cause
  | RequestError opcode u8
  | UnexpectedMessage string message
  | KeyNotFound rstr
  | AmbiguousKey rstr

record 's client =
  client_stream :: 's
  client_frame_buf :: bytes
  client_payload_buf :: bytes
  client_trace :: "(frame_direction \<times> bytes) list option"

definition client_new :: "'s \<Rightarrow> 's client" where
  "client_new s = \<lparr>client_stream = s, client_frame_buf = [], client_payload_buf = [], client_trace = None\<rparr>"

text \<open>\<open>Client::connect\<close>, with \<open>TcpStream::connect\<close> as a parameter.\<close>

definition client_connect :: "('a \<Rightarrow> 'e + 's) \<Rightarrow> 'a \<Rightarrow> 'e + 's client" where
  "client_connect tcp_connect addr = res_map client_new (tcp_connect addr)"

text \<open>\<open>Error::source\<close>.\<close>

fun client_error_source :: "'io client_error \<Rightarrow> 'io io_error option" where
  "client_error_source (Io e) = Some e"
| "client_error_source _ = None"

definition set_frame_trace :: "'s client \<Rightarrow> 's client" where
  "set_frame_trace c = c\<lparr>client_trace := Some []\<rparr>"

definition clear_frame_trace :: "'s client \<Rightarrow> 's client" where
  "clear_frame_trace c = c\<lparr>client_trace := None\<rparr>"

section \<open>Encoding requests and owning messages\<close>

definition build_frame :: "opcode \<Rightarrow> bytes \<Rightarrow> 'io io_error + bytes" where
  "build_frame oc payload =
     (case u16_try_from (length payload) of
        None \<Rightarrow> Inl (InvalidInput ''payload exceeds u16 wire length'')
      | Some payload_len \<Rightarrow>
          Inr ([as_u8 oc] @ to_be 2 payload_len @ payload @ [compute_checksum oc payload]))"

definition push_str16 :: "bytes \<Rightarrow> rstr \<Rightarrow> 'io io_error + bytes" where
  "push_str16 payload s =
     (if 0 \<in> set s then Inl (InvalidInput ''strings must not contain NUL bytes'')
      else case u16_try_from (length s) of
        None \<Rightarrow> Inl (InvalidInput ''string exceeds u16 wire length'')
      | Some len \<Rightarrow> Inr (payload @ to_be 2 len @ s))"

definition push_value :: "bytes \<Rightarrow> client_value \<Rightarrow> 'io io_error + bytes" where
  "push_value payload value =
     (case value of
        Value_Bool b \<Rightarrow> Inr (payload @ [kind_as_byte Bool_Kind] @ [if b then 1 else 0])
      | Value_I64 i \<Rightarrow> Inr (payload @ [kind_as_byte I64_Kind] @ to_be 8 i)
      | Value_Str s \<Rightarrow> push_str16 (payload @ [kind_as_byte Str_Kind]) s)"

fun owned_value :: "value_ref \<Rightarrow> client_value" where
  "owned_value (Bool b) = Value_Bool b"
| "owned_value (I64 i) = Value_I64 i"
| "owned_value (Str s) = Value_Str s"

fun owned_ordinary_message :: "ordinary_response_ref \<Rightarrow> message" where
  "owned_ordinary_message Ok = Message_Ok"
| "owned_ordinary_message (Identified nodeid) = Message_Identified nodeid"
| "owned_ordinary_message (KeytabLen count) = Message_KeytabLen count"
| "owned_ordinary_message (Key keyflags name) = Message_Key keyflags name"
| "owned_ordinary_message (Value v) = Message_Value (owned_value v)"
| "owned_ordinary_message (Written v) = Message_Written (owned_value v)"

fun owned_message :: "message_ref \<Rightarrow> 'io client_error + message" where
  "owned_message (OrdinaryResponse r) = Inr (owned_ordinary_message r)"
| "owned_message (CompatibilityResponse c) = Inr (Message_Caps (caps_raw c))"
| "owned_message (Error e) = Inr (Message_Error (error_code e))"
| "owned_message (Changed k) = Inr (Message_Changed k)"
| "owned_message (Request _) = Inl (Protocol Client_Direction_Message)"
| "owned_message CompatibilityRequest = Inl (Protocol Client_Direction_Message)"

definition unexpected_message :: "opcode \<Rightarrow> string \<Rightarrow> message \<Rightarrow> 'io client_error" where
  "unexpected_message request expected actual =
     (case actual of
        Message_Error code \<Rightarrow> RequestError request code
      | _ \<Rightarrow> UnexpectedMessage expected actual)"

section \<open>Operations of the client\<close>

definition trace_frame :: "frame_direction \<Rightarrow> bytes \<Rightarrow> 's client \<Rightarrow> 's client" where
  "trace_frame direction frame c =
     c\<lparr>client_trace := map_option (\<lambda>log. log @ [(direction, frame)]) (client_trace c)\<rparr>"

definition on_stream :: "('s, 'io, 'a) action \<Rightarrow> ('s client, 'io io_error, 'a) action" where
  "on_stream m c = (case m (client_stream c) of
     (r, s) \<Rightarrow> (res_map_err Stream_Error r, c\<lparr>client_stream := s\<rparr>))"

definition send_frame ::
  "('s, 'io) writer \<Rightarrow> opcode \<Rightarrow> bytes \<Rightarrow> ('s client, 'io io_error, unit) action" where
  "send_frame write_all oc payload =
     act_bind (act_lift (build_frame oc payload)) (\<lambda>frame.
       act_bind (act_modify (trace_frame Tx frame)) (\<lambda>_. on_stream (write_all frame)))"

definition client_send_request ::
  "('s, 'io) writer \<Rightarrow> opcode \<Rightarrow> bytes \<Rightarrow> ('s client, 'io io_error, unit) action" where
  "client_send_request write_all oc payload = send_frame write_all oc payload"

definition send_empty_request :: "('s, 'io) writer \<Rightarrow> opcode \<Rightarrow> ('s client, 'io io_error, unit) action" where
  "send_empty_request write_all oc = send_frame write_all oc []"

definition send_keyref_request ::
  "('s, 'io) writer \<Rightarrow> opcode \<Rightarrow> u16 \<Rightarrow> ('s client, 'io io_error, unit) action" where
  "send_keyref_request write_all oc keyref = send_frame write_all oc (to_be 2 keyref)"

definition send_write_request ::
  "('s, 'io) writer \<Rightarrow> u16 \<Rightarrow> client_value \<Rightarrow> ('s client, 'io io_error, unit) action" where
  "send_write_request write_all keyref value =
     act_bind (act_lift (push_value (to_be 2 keyref) value)) (\<lambda>payload.
       send_frame write_all WRITE payload)"

definition next_message ::
  "('s, 'io) reader \<Rightarrow> ('s client, 'io client_error, message) action" where
  "next_message read_exact =
     act_bind (act_map_err Io (on_stream (read_exact 3))) (\<lambda>header.
       let payload_len = unat (from_be [header ! 1, header ! 2] :: u16) in
       act_bind (act_modify (\<lambda>c. c\<lparr>client_payload_buf :=
           take payload_len (client_payload_buf c @ replicate payload_len 0)\<rparr>)) (\<lambda>_.
       act_bind (act_map_err Io (on_stream (read_exact payload_len))) (\<lambda>payload.
       act_bind (act_modify (\<lambda>c. c\<lparr>client_payload_buf := payload\<rparr>)) (\<lambda>_.
       act_bind (act_map_err Io (on_stream (read_exact 1))) (\<lambda>checksum.
         let frame_buf = header @ payload @ checksum in
         act_bind (act_modify (\<lambda>c. c\<lparr>client_frame_buf := frame_buf\<rparr>)) (\<lambda>_.
         act_bind (act_modify (trace_frame Rx frame_buf)) (\<lambda>_.
           act_lift (res_bind (res_map_err (\<lambda>e. Protocol (Frame_Validation e))
               (parse_frame NodeToClient frame_buf)) (\<lambda>frame.
             res_bind (res_map_err (\<lambda>e. Protocol (Payload_Validation e)) (decode_message frame))
               owned_message)))))))))"

fun is_changed :: "message \<Rightarrow> bool" where
  "is_changed (Message_Changed _) = True"
| "is_changed _ = False"

partial_function (option) read_request_response ::
  "('s, 'io) reader \<Rightarrow> ('s client, 'io client_error, message) proc" where
  "read_request_response read_exact c =
     (case next_message read_exact c of
        (Inl e, c') \<Rightarrow> Some (Inl e, c')
      | (Inr m, c') \<Rightarrow>
          if is_changed m then read_request_response read_exact c' else Some (Inr m, c'))"

text \<open>
  The common shape of the request operations: send, then match the response. \<open>select\<close> is the
  arm of the \<open>match\<close> that returns \<open>Ok\<close>.
\<close>

definition request_response ::
  "('s, 'io) reader \<Rightarrow> ('s client, 'io io_error, unit) action \<Rightarrow> opcode \<Rightarrow> string \<Rightarrow>
     (message \<Rightarrow> 'a option) \<Rightarrow> ('s client, 'io client_error, 'a) proc" where
  "request_response read_exact send request expected select =
     proc_bind (proc_of (act_map_err Io send)) (\<lambda>_.
       proc_bind (read_request_response read_exact) (\<lambda>actual.
         case select actual of
           Some a \<Rightarrow> proc_of (act_ok a)
         | None \<Rightarrow> proc_of (act_err (unexpected_message request expected actual))))"

definition select_ok :: "message \<Rightarrow> unit option" where
  "select_ok m = (case m of Message_Ok \<Rightarrow> Some () | _ \<Rightarrow> None)"

definition select_caps :: "message \<Rightarrow> rstr option" where
  "select_caps m = (case m of Message_Caps s \<Rightarrow> Some s | _ \<Rightarrow> None)"

definition select_identified :: "message \<Rightarrow> rstr option" where
  "select_identified m = (case m of Message_Identified s \<Rightarrow> Some s | _ \<Rightarrow> None)"

definition select_keytablen :: "message \<Rightarrow> u16 option" where
  "select_keytablen m = (case m of Message_KeytabLen n \<Rightarrow> Some n | _ \<Rightarrow> None)"

definition select_key :: "u16 \<Rightarrow> message \<Rightarrow> key_info option" where
  "select_key keyref m = (case m of
     Message_Key keyflags name \<Rightarrow>
       Some \<lparr>info_keyref = keyref, info_keyflags = keyflags, info_name = name\<rparr>
   | _ \<Rightarrow> None)"

definition select_value :: "message \<Rightarrow> client_value option" where
  "select_value m = (case m of Message_Value v \<Rightarrow> Some v | _ \<Rightarrow> None)"

definition select_written :: "message \<Rightarrow> client_value option" where
  "select_written m = (case m of Message_Written v \<Rightarrow> Some v | _ \<Rightarrow> None)"

lemmas select_defs = select_ok_def select_caps_def select_identified_def select_keytablen_def
  select_key_def select_value_def select_written_def

definition client_ping ::
  "('s, 'io) reader \<Rightarrow> ('s, 'io) writer \<Rightarrow> ('s client, 'io client_error, unit) proc" where
  "client_ping rd wr = request_response rd (send_empty_request wr PING) PING ''OK'' select_ok"

definition client_caps ::
  "('s, 'io) reader \<Rightarrow> ('s, 'io) writer \<Rightarrow> ('s client, 'io client_error, rstr) proc" where
  "client_caps rd wr = request_response rd (send_empty_request wr GETCAPS) GETCAPS ''CAPS'' select_caps"

definition client_identify ::
  "('s, 'io) reader \<Rightarrow> ('s, 'io) writer \<Rightarrow> ('s client, 'io client_error, rstr) proc" where
  "client_identify rd wr =
     request_response rd (send_empty_request wr IDENTIFY) IDENTIFY ''IDENTIFIED'' select_identified"

definition client_key_count ::
  "('s, 'io) reader \<Rightarrow> ('s, 'io) writer \<Rightarrow> ('s client, 'io client_error, u16) proc" where
  "client_key_count rd wr =
     request_response rd (send_empty_request wr GETKEYTABLEN) GETKEYTABLEN ''KEYTABLEN'' select_keytablen"

definition client_key ::
  "('s, 'io) reader \<Rightarrow> ('s, 'io) writer \<Rightarrow> u16 \<Rightarrow> ('s client, 'io client_error, key_info) proc" where
  "client_key rd wr keyref =
     request_response rd (send_keyref_request wr GETKEY keyref) GETKEY ''KEY'' (select_key keyref)"

definition client_get ::
  "('s, 'io) reader \<Rightarrow> ('s, 'io) writer \<Rightarrow> u16 \<Rightarrow> ('s client, 'io client_error, client_value) proc" where
  "client_get rd wr keyref =
     request_response rd (send_keyref_request wr GET keyref) GET ''VALUE'' select_value"

definition client_write ::
  "('s, 'io) reader \<Rightarrow> ('s, 'io) writer \<Rightarrow> u16 \<Rightarrow> client_value \<Rightarrow>
     ('s client, 'io client_error, client_value) proc" where
  "client_write rd wr keyref value =
     request_response rd (send_write_request wr keyref value) WRITE ''WRITTEN'' select_written"

definition client_observe ::
  "('s, 'io) reader \<Rightarrow> ('s, 'io) writer \<Rightarrow> u16 \<Rightarrow> ('s client, 'io client_error, unit) proc" where
  "client_observe rd wr keyref =
     request_response rd (send_keyref_request wr OBSERVE keyref) OBSERVE ''OK'' select_ok"

definition client_unobserve ::
  "('s, 'io) reader \<Rightarrow> ('s, 'io) writer \<Rightarrow> u16 \<Rightarrow> ('s client, 'io client_error, unit) proc" where
  "client_unobserve rd wr keyref =
     request_response rd (send_keyref_request wr UNOBSERVE keyref) UNOBSERVE ''OK'' select_ok"

text \<open>The loop \<open>for keyref in 0..count\<close> of \<open>list_keys\<close>.\<close>

fun list_keys_loop ::
  "('s, 'io) reader \<Rightarrow> ('s, 'io) writer \<Rightarrow> u16 list \<Rightarrow> key_info list \<Rightarrow>
     ('s client, 'io client_error, key_info list) proc" where
  "list_keys_loop rd wr [] keys = proc_of (act_ok keys)"
| "list_keys_loop rd wr (keyref # keyrefs) keys =
     proc_bind (client_key rd wr keyref) (\<lambda>k. list_keys_loop rd wr keyrefs (keys @ [k]))"

definition keyrefs_below :: "u16 \<Rightarrow> u16 list" where
  "keyrefs_below count = map word_of_nat [0..<unat count]"

definition client_list_keys ::
  "('s, 'io) reader \<Rightarrow> ('s, 'io) writer \<Rightarrow> ('s client, 'io client_error, key_info list) proc" where
  "client_list_keys rd wr =
     proc_bind (client_key_count rd wr) (\<lambda>count. list_keys_loop rd wr (keyrefs_below count) [])"

definition resolve_matches :: "rstr \<Rightarrow> key_info list \<Rightarrow> 'io client_error + u16" where
  "resolve_matches name keys =
     (case filter (\<lambda>k. info_name k = name) keys of
        [] \<Rightarrow> Inl (KeyNotFound name)
      | [first] \<Rightarrow> Inr (info_keyref first)
      | _ \<Rightarrow> Inl (AmbiguousKey name))"

definition client_resolve_keyref_by_name ::
  "('s, 'io) reader \<Rightarrow> ('s, 'io) writer \<Rightarrow> rstr \<Rightarrow> ('s client, 'io client_error, u16) proc" where
  "client_resolve_keyref_by_name rd wr name =
     proc_bind (client_list_keys rd wr) (\<lambda>keys. proc_of (act_lift (resolve_matches name keys)))"

text \<open>The \<open>*_by_name\<close> operations resolve the name and then run the operation on the key.\<close>

definition by_name ::
  "('s, 'io) reader \<Rightarrow> ('s, 'io) writer \<Rightarrow> (u16 \<Rightarrow> ('s client, 'io client_error, 'a) proc) \<Rightarrow> rstr \<Rightarrow>
     ('s client, 'io client_error, 'a) proc" where
  "by_name rd wr op name = proc_bind (client_resolve_keyref_by_name rd wr name) op"

definition client_key_by_name where
  "client_key_by_name rd wr = by_name rd wr (client_key rd wr)"

definition client_get_by_name where
  "client_get_by_name rd wr = by_name rd wr (client_get rd wr)"

definition client_write_by_name where
  "client_write_by_name rd wr name value = by_name rd wr (\<lambda>k. client_write rd wr k value) name"

definition client_observe_by_name where
  "client_observe_by_name rd wr = by_name rd wr (client_observe rd wr)"

definition client_unobserve_by_name where
  "client_unobserve_by_name rd wr = by_name rd wr (client_unobserve rd wr)"

section \<open>The writers produce the protocol's frames\<close>

fun value_ref_of :: "client_value \<Rightarrow> value_ref" where
  "value_ref_of (Value_Bool b) = Bool b"
| "value_ref_of (Value_I64 i) = I64 i"
| "value_ref_of (Value_Str s) = Str s"

text \<open>A \<open>String\<close> of the program is valid UTF-8.\<close>

fun value_utf8 :: "client_value \<Rightarrow> bool" where
  "value_utf8 (Value_Str s) = is_utf8 s"
| "value_utf8 _ = True"

lemma owned_value_ref_of [simp]: "owned_value (value_ref_of v) = v"
  by (cases v) simp_all

lemma build_frame_eq:
  "build_frame oc p = (if length p \<le> 65535 then Inr (frame_bytes oc p)
     else Inl (InvalidInput ''payload exceeds u16 wire length''))"
  by (simp add: build_frame_def u16_try_from_def frame_bytes_def)

lemma push_str16_Inr: "push_str16 p s = Inr q \<longleftrightarrow> 0 \<notin> set s \<and> length s \<le> 65535 \<and> q = p @ encode_str16 s"
  by (auto simp: push_str16_def u16_try_from_def encode_str16_def)

lemma push_value_Inr:
  "value_utf8 v \<Longrightarrow> push_value p v = Inr q \<longleftrightarrow> wf_value (value_ref_of v) \<and> q = p @ encode_value (value_ref_of v)"
  by (cases v) (auto simp: push_value_def push_str16_Inr kind_as_byte_def wf_str_def)

lemma push_value_Inl: "push_value p v = Inl e \<Longrightarrow> \<exists>msg. e = InvalidInput msg"
  by (auto simp: push_value_def push_str16_def split: client_value.splits if_splits option.splits)

lemma send_frame_eq:
  "send_frame wr oc p c =
     (if length p \<le> 65535 then on_stream (wr (frame_bytes oc p)) (trace_frame Tx (frame_bytes oc p) c)
      else (Inl (InvalidInput ''payload exceeds u16 wire length''), c))"
  by (simp add: send_frame_def build_frame_eq act_bind_def act_modify_def)

text \<open>
  \<open>send_write_request\<close> writes exactly the frame of the \<open>WRITE\<close> message for the key and
  value, in one \<open>write_all\<close> and after tracing it, whenever that message is valid and fits a
  frame; otherwise it fails with \<open>InvalidInput\<close> and nothing is traced or sent.
\<close>

lemma send_write_request_correct:
  assumes "value_utf8 v"
  shows "if wire_message ClientToNode (Request (Write k (value_ref_of v)))
     then send_write_request wr k v c =
       on_stream (wr (message_bytes (Request (Write k (value_ref_of v)))))
         (trace_frame Tx (message_bytes (Request (Write k (value_ref_of v)))) c)
     else \<exists>msg. send_write_request wr k v c = (Inl (InvalidInput msg), c)"
proof (cases "push_value (to_be 2 k) v :: 'a io_error + bytes")
  case (Inl e)
  then have "\<not> wf_value (value_ref_of v)"
    using push_value_Inr [OF assms] by (metis Inl_Inr_False)
  with Inl push_value_Inl [OF Inl] show ?thesis
    by (auto simp: wire_message_def send_write_request_def act_bind_def)
next
  case (Inr q)
  then have q: "wf_value (value_ref_of v)" "q = to_be 2 k @ encode_value (value_ref_of v)"
    using push_value_Inr [OF assms] by blast+
  then have "send_write_request wr k v c = send_frame wr WRITE q c"
    using Inr by (simp add: send_write_request_def act_bind_def)
  with q show ?thesis
    by (simp add: send_frame_eq wire_message_def message_bytes_def opcodes_of_def client_opcodes_def)
qed

lemma send_write_request_correct_witness:
  "send_write_request (\<lambda>bs s. (Inr (), s @ bs)) 1 (Value_Bool True) (client_new []) =
     (Inr () :: unit io_error + unit, client_new (message_bytes (Request (Write 1 (Bool True)))))"
proof -
  have "wire_message ClientToNode (Request (Write 1 (value_ref_of (Value_Bool True))))"
    by (simp add: wire_message_def opcodes_of_def client_opcodes_def BOOL_TAG_def)
  then show ?thesis
    using send_write_request_correct [of "Value_Bool True" 1 "\<lambda>bs s. (Inr (), s @ bs)" "client_new []"]
    by (simp add: on_stream_def trace_frame_def client_new_def)
qed

section \<open>Receiving messages\<close>

lemma owned_message_node:
  "wire_message NodeToClient m \<Longrightarrow> \<exists>x. owned_message m = Inr x"
proof (cases m)
  case (Request q)
  then show "wire_message NodeToClient m \<Longrightarrow> ?thesis"
    by (cases q) (auto simp: wire_message_def opcodes_of_def node_opcodes_def opcode_defs)
qed (auto simp: wire_message_def opcodes_of_def node_opcodes_def opcode_defs)

lemma owned_message_changed: "owned_message m = Inr x \<Longrightarrow> is_changed x \<longleftrightarrow> (\<exists>k. m = Changed k)"
proof (cases m)
  case (OrdinaryResponse r)
  then show "owned_message m = Inr x \<Longrightarrow> ?thesis" by (cases r) auto
qed auto

lemma owned_message_value:
  "owned_message m = Inr (Message_Value v) \<Longrightarrow> \<exists>w. m = OrdinaryResponse (Value w) \<and> v = owned_value w"
proof (cases m)
  case (OrdinaryResponse r)
  then show "owned_message m = Inr (Message_Value v) \<Longrightarrow> ?thesis" by (cases r) auto
qed auto

lemma owned_message_error: "owned_message m = Inr (Message_Error code) \<Longrightarrow> \<exists>e. m = Error e \<and> code = error_code e"
proof (cases m)
  case (OrdinaryResponse r)
  then show "owned_message m = Inr (Message_Error code) \<Longrightarrow> ?thesis" by (cases r) auto
qed auto

text \<open>The writes of the request operations.\<close>

lemma send_keyref_frame:
  "send_keyref_request wr GET k c = on_stream (wr (message_bytes (Request (Get k)))) (trace_frame Tx (message_bytes (Request (Get k))) c)"
  "send_keyref_request wr GETKEY k c = on_stream (wr (message_bytes (Request (GetKey k)))) (trace_frame Tx (message_bytes (Request (GetKey k))) c)"
  "send_keyref_request wr OBSERVE k c = on_stream (wr (message_bytes (Request (Observe k)))) (trace_frame Tx (message_bytes (Request (Observe k))) c)"
  "send_keyref_request wr UNOBSERVE k c = on_stream (wr (message_bytes (Request (Unobserve k)))) (trace_frame Tx (message_bytes (Request (Unobserve k))) c)"
  "send_empty_request wr GETKEYTABLEN c = on_stream (wr (message_bytes (Request GetKeytabLen))) (trace_frame Tx (message_bytes (Request GetKeytabLen)) c)"
  by (simp_all add: send_keyref_request_def send_empty_request_def send_frame_eq message_bytes_def)

lemma send_write_frame:
  "wf_value v \<Longrightarrow> length (encode_value v) \<le> 65533 \<Longrightarrow>
     send_write_request wr k (owned_value v) c =
       on_stream (wr (message_bytes (Request (Write k v)))) (trace_frame Tx (message_bytes (Request (Write k v))) c)"
  for wr :: "('s, 'io) writer"
proof -
  assume v: "wf_value v" "length (encode_value v) \<le> 65533"
  have ref: "value_ref_of (owned_value v) = v" by (cases v) simp_all
  have "value_utf8 (owned_value v)" using v by (cases v) (simp_all add: wf_str_def)
  then have "(push_value (to_be 2 k) (owned_value v) :: 'io io_error + bytes) = Inr (to_be 2 k @ encode_value v)"
    by (subst push_value_Inr) (simp_all add: ref v)
  then show ?thesis
    using v by (simp add: send_write_request_def act_bind_def send_frame_eq message_bytes_def)
qed

text \<open>What a call returns for a response message.\<close>

definition call_result :: "opcode \<Rightarrow> string \<Rightarrow> (message \<Rightarrow> 'a option) \<Rightarrow> message_ref \<Rightarrow> 'io client_error + 'a" where
  "call_result request expected select resp =
     res_bind (owned_message resp) (\<lambda>x. case select x of
        Some a \<Rightarrow> Inr a | None \<Rightarrow> Inl (unexpected_message request expected x))"

lemma wire_changed: "wire_message NodeToClient (Changed k)"
  by (simp add: wire_message_def opcodes_of_def node_opcodes_def)

context byte_source
begin

lemma next_message_whole:
  assumes "valid (client_stream c)" and pend: "pending (client_stream c) = o1 # hi # lo # p @ [k] @ rest"
    and len: "length p = unat (from_be [hi, lo] :: u16)"
  shows "\<exists>c'. next_message read_exact c =
      (res_bind (res_map_err (\<lambda>e. Protocol (Frame_Validation e))
               (parse_frame NodeToClient (o1 # hi # lo # p @ [k]))) (\<lambda>frame.
             res_bind (res_map_err (\<lambda>e. Protocol (Payload_Validation e)) (decode_message frame))
               owned_message), c') \<and> pending (client_stream c') = rest \<and> valid (client_stream c') \<and>
      client_trace c' = client_trace (trace_frame Rx (o1 # hi # lo # p @ [k]) c)"
proof -
  obtain r1 where r1: "read_exact 3 (client_stream c) = (Inr [o1, hi, lo], r1)" "pending r1 = p @ [k] @ rest" "valid r1"
    using read_append [of "client_stream c" "[o1, hi, lo]" "p @ [k] @ rest"] assms by (auto simp: eval_nat_numeral)
  obtain r2 where r2: "read_exact (length p) r1 = (Inr p, r2)" "pending r2 = [k] @ rest" "valid r2"
    using read_append [OF r1(3,2)] by auto
  obtain r3 where r3: "read_exact 1 r2 = (Inr [k], r3)" "pending r3 = rest" "valid r3"
    using read_append [OF r2(3,2)] by auto
  show ?thesis
    using r1 r2 r3 len
    by (simp add: next_message_def act_bind_def act_map_err_def on_stream_def act_modify_def
        trace_frame_def Let_def)
qed

lemma next_message_short:
  assumes "valid (client_stream c)"
    and short: "length (pending (client_stream c)) < 3 \<or>
      length (pending (client_stream c)) < 4 + unat (from_be (take 2 (drop 1 (pending (client_stream c)))) :: u16)"
  shows "\<exists>e c'. next_message read_exact c = (Inl (Io e), c')"
proof (cases "length (pending (client_stream c)) < 3")
  case True
  then obtain t r' where "read_exact 3 (client_stream c) = (Inl t, r')" using read_short [OF assms(1)] by blast
  then show ?thesis by (simp add: next_message_def act_bind_def act_map_err_def on_stream_def)
next
  case False
  then obtain o1 hi lo q where pend: "pending (client_stream c) = [o1, hi, lo] @ q"
    by (auto simp: not_less Suc_le_length_iff eval_nat_numeral)
  let ?n = "unat (from_be [hi, lo] :: u16)"
  from short False pend have q: "length q < 1 + ?n" by simp
  obtain r1 where r1: "read_exact 3 (client_stream c) = (Inr [o1, hi, lo], r1)" "pending r1 = q" "valid r1"
    using read_append [OF assms(1) pend] by (auto simp: eval_nat_numeral)
  show ?thesis
  proof (cases "length q = ?n")
    case True
    then obtain r2 where r2: "read_exact ?n r1 = (Inr q, r2)" "pending r2 = []" "valid r2"
      using read_enough [of r1 ?n] r1 by auto
    obtain t r3 where "read_exact 1 r2 = (Inl t, r3)" using read_short [of r2 1] r2 by auto
    with r1 r2 True show ?thesis
      by (simp add: next_message_def act_bind_def act_map_err_def on_stream_def act_modify_def Let_def)
  next
    case False
    then obtain t r2 where "read_exact ?n r1 = (Inl t, r2)" using read_short [of r1 ?n] r1 q by auto
    with r1 show ?thesis
      by (simp add: next_message_def act_bind_def act_map_err_def on_stream_def act_modify_def Let_def)
  qed
qed

text \<open>A message is received exactly when its frame is next on the stream.\<close>

lemma next_message_wire:
  assumes "valid (client_stream c)" and pend: "pending (client_stream c) = message_bytes m @ rest"
    and m: "wire_message NodeToClient m"
  shows "\<exists>c'. next_message read_exact c = (owned_message m, c') \<and> pending (client_stream c') = rest \<and>
      valid (client_stream c') \<and> client_trace c' = client_trace (trace_frame Rx (message_bytes m) c)"
proof -
  let ?p = "encode_payload m"
  obtain hi lo where hl: "to_be 2 (word_of_nat (length ?p) :: u16) = [hi, lo]" by (simp add: to_be_2_eq)
  have len: "length ?p = unat (from_be [hi, lo] :: u16)"
    using m hl be_2_length by (metis wire_message_def)
  have parts: "message_bytes m = as_u8 (message_opcode m) # hi # lo # ?p @ [compute_checksum (message_opcode m) ?p]"
    by (simp add: message_bytes_def frame_bytes_def hl)
  moreover have "parse_frame NodeToClient (message_bytes m) = Inr (view_of (message_opcode m) ?p)"
    unfolding parse_frame_layout using m by (auto simp: wire_message_def message_bytes_def)
  moreover have "message_decode (message_opcode m) ?p = Inr m"
    using m by (simp add: wire_message_def message_decode_encode)
  ultimately show ?thesis
    using next_message_whole [OF assms(1) _ len, of "as_u8 (message_opcode m)" "compute_checksum (message_opcode m) ?p" rest] pend
    by (auto simp: decode_view_of)
qed

lemma next_message_received:
  assumes "valid (client_stream c)" and ok: "next_message read_exact c = (Inr x, c')"
  shows "\<exists>m. wire_message NodeToClient m \<and> owned_message m = (Inr x :: 'e client_error + message) \<and>
     pending (client_stream c) = message_bytes m @ pending (client_stream c') \<and> valid (client_stream c')"
proof (cases rule: stream_frame_cases [of "pending (client_stream c)"])
  case short
  then show ?thesis using next_message_short [OF assms(1)] ok by auto
next
  case (whole o1 hi lo p k rest)
  let ?frame = "o1 # hi # lo # p @ [k]"
  from next_message_whole [OF assms(1) whole] ok
  have res: "res_bind (res_map_err (\<lambda>e. Protocol (Frame_Validation e)) (parse_frame NodeToClient ?frame)) (\<lambda>frame.
             res_bind (res_map_err (\<lambda>e. Protocol (Payload_Validation e)) (decode_message frame))
               owned_message) = (Inr x :: 'e client_error + message)"
    and c': "pending (client_stream c') = rest" "valid (client_stream c')" by auto
  from res obtain f m where f: "parse_frame NodeToClient ?frame = Inr f" and m: "decode_message f = Inr m"
    and x: "owned_message m = (Inr x :: 'e client_error + message)"
    by (auto simp: res_bind_eq_Inr)
  from f obtain oc q where oc: "oc \<in> set (opcodes_of NodeToClient)" "length q \<le> 65535"
    "?frame = frame_bytes oc q" "f = view_of oc q"
    by (auto simp: parse_frame_layout)
  with m have "wf_message m" "message_opcode m = oc" "encode_payload m = q"
    by (simp_all add: decode_view_of message_decode_layout)
  with oc have "wire_message NodeToClient m" "?frame = message_bytes m"
    by (auto simp: wire_message_def message_bytes_def)
  with x c' whole(1) show ?thesis by (intro exI [of _ m]) (simp flip: append_Cons)
qed

lemma read_request_response_skips:
  assumes "wire_message NodeToClient m" and "owned_message m = (Inr x :: 'e client_error + message)"
    and "\<not> is_changed x"
  shows "valid (client_stream c) \<Longrightarrow>
     pending (client_stream c) = concat (map (\<lambda>k. message_bytes (Changed k)) ks) @ message_bytes m @ rest \<Longrightarrow>
     \<exists>c'. read_request_response read_exact c = Some (Inr x, c') \<and> pending (client_stream c') = rest \<and>
       valid (client_stream c')"
proof (induction ks arbitrary: c)
  case Nil
  then show ?case
    using next_message_wire [of c m rest] assms by (auto simp: read_request_response.simps)
next
  case (Cons k ks)
  then obtain c1 where "next_message read_exact c = (Inr (Message_Changed k), c1)" "valid (client_stream c1)"
    "pending (client_stream c1) = concat (map (\<lambda>k. message_bytes (Changed k)) ks) @ message_bytes m @ rest"
    using next_message_wire [OF _ _ wire_changed, of c k] by auto
  then show ?case using Cons.IH [of c1] by (subst read_request_response.simps) auto
qed

text \<open>A request operation returns what the response on the stream says.\<close>

lemma request_response_answered:
  assumes "send c = (Inr (), c1)" and "wire_message NodeToClient m"
    and "owned_message m = (Inr x :: 'e client_error + message)" and "\<not> is_changed x"
    and "valid (client_stream c1)"
    and "pending (client_stream c1) = concat (map (\<lambda>k. message_bytes (Changed k)) ks) @ message_bytes m @ rest"
  shows "\<exists>c'. request_response read_exact send request expected select c =
       Some (call_result request expected select m, c') \<and> pending (client_stream c') = rest \<and> valid (client_stream c')"
proof -
  obtain c' where c': "read_request_response read_exact c1 = Some (Inr x, c')"
    "pending (client_stream c') = rest" "valid (client_stream c')"
    using read_request_response_skips [OF assms(2-6)] by blast
  then have "request_response read_exact send request expected select c =
      Some (call_result request expected select m, c')"
    using assms(1) by (simp add: request_response_def proc_bind_def proc_of_def call_result_def assms(3)
        act_map_err_def act_ok_def act_err_def split: option.split)
  with c' show ?thesis by blast
qed

lemma read_request_response_total:
  "valid (client_stream c) \<Longrightarrow> \<exists>res c'. read_request_response read_exact c = Some (res, c') \<and>
     (\<forall>x. res = Inr x \<longrightarrow> valid (client_stream c') \<and> \<not> is_changed x \<and>
        (\<exists>ks m. wire_message NodeToClient m \<and> owned_message m = (Inr x :: 'e client_error + message) \<and>
          pending (client_stream c) = concat (map (\<lambda>k. message_bytes (Changed k)) ks) @ message_bytes m
            @ pending (client_stream c')))"
proof (induction "length (pending (client_stream c))" arbitrary: c rule: less_induct)
  case less
  obtain r c1 where next_eq: "next_message read_exact c = (r, c1)" by (cases "next_message read_exact c")
  show ?case
  proof (cases r)
    case (Inl e)
    with next_eq show ?thesis by (simp add: read_request_response.simps)
  next
    case (Inr x)
    from next_message_received [OF less.prems next_eq [unfolded Inr]] obtain m
      where m: "wire_message NodeToClient m" "owned_message m = (Inr x :: 'e client_error + message)"
      "pending (client_stream c) = message_bytes m @ pending (client_stream c1)" "valid (client_stream c1)"
      by blast
    show ?thesis
    proof (cases "is_changed x")
      case False
      with next_eq Inr have "read_request_response read_exact c = Some (Inr x, c1)"
        by (simp add: read_request_response.simps)
      moreover from m have "pending (client_stream c) =
          concat (map (\<lambda>k. message_bytes (Changed k)) []) @ message_bytes m @ pending (client_stream c1)"
        by simp
      ultimately show ?thesis using m False by blast
    next
      case True
      then obtain k where k: "m = Changed k" using m owned_message_changed by blast
      have "length (pending (client_stream c1)) < length (pending (client_stream c))"
        using m by (simp add: message_bytes_def)
      from less.hyps [OF this m(4)] obtain res c' where rest: "read_request_response read_exact c1 = Some (res, c')"
        "\<forall>x. res = Inr x \<longrightarrow> valid (client_stream c') \<and> \<not> is_changed x \<and>
        (\<exists>ks m. wire_message NodeToClient m \<and> owned_message m = (Inr x :: 'e client_error + message) \<and>
          pending (client_stream c1) = concat (map (\<lambda>k. message_bytes (Changed k)) ks) @ message_bytes m
            @ pending (client_stream c'))" by blast
      moreover have "read_request_response read_exact c = Some (res, c')"
        using next_eq Inr True rest by (simp add: read_request_response.simps [of _ c])
      moreover have "pending (client_stream c) = concat (map (\<lambda>k. message_bytes (Changed k)) (k # ks)) @ message_bytes m'
            @ pending (client_stream c')"
        if "pending (client_stream c1) = concat (map (\<lambda>k. message_bytes (Changed k)) ks) @ message_bytes m'
            @ pending (client_stream c')" for ks m'
        using that m k by simp
      ultimately show ?thesis by blast
    qed
  qed
qed

end

section \<open>Properties\<close>

text \<open>
  Over a transport with the contract of the stream traits, \<open>next_message\<close> returns a
  message exactly when the frame of a well-formed node-to-client message is next on the
  stream; it returns that message and consumes that frame and nothing more.
\<close>

lemma next_message_iff:
  assumes "byte_source (read_exact :: ('s, 'io) reader) pending valid" and "valid (client_stream c)"
  shows "(\<exists>c'. next_message read_exact c = (Inr x, c') \<and> pending (client_stream c') = rest) \<longleftrightarrow>
     (\<exists>m. wire_message NodeToClient m \<and> owned_message m = (Inr x :: 'io client_error + message) \<and>
        pending (client_stream c) = message_bytes m @ rest)"
proof
  assume "\<exists>c'. next_message read_exact c = (Inr x, c') \<and> pending (client_stream c') = rest"
  then show "\<exists>m. wire_message NodeToClient m \<and> owned_message m = (Inr x :: 'io client_error + message) \<and>
        pending (client_stream c) = message_bytes m @ rest"
    using byte_source.next_message_received [OF assms] by blast
next
  assume "\<exists>m. wire_message NodeToClient m \<and> owned_message m = (Inr x :: 'io client_error + message) \<and>
        pending (client_stream c) = message_bytes m @ rest"
  then obtain m where m: "wire_message NodeToClient m" "owned_message m = (Inr x :: 'io client_error + message)"
    "pending (client_stream c) = message_bytes m @ rest" by blast
  from byte_source.next_message_wire [OF assms m(3,1)] m(2)
  show "\<exists>c'. next_message read_exact c = (Inr x, c') \<and> pending (client_stream c') = rest" by auto
qed

lemma next_message_iff_witness:
  "\<exists>c'. next_message slice_read_exact
      (client_new \<lparr>slice_bytes = message_bytes (Changed 7) @ [1, 2], slice_cursor = 0, slice_max_chunk = 1\<rparr>)
      = (Inr (Message_Changed 7), c') \<and> slice_pending (client_stream c') = [1, 2]"
  by (subst next_message_iff [OF slice.byte_source_axioms])
    (auto simp: client_new_def slice_valid_def slice_pending_def wire_changed intro!: exI [of _ "Changed 7"])

text \<open>
  C17: waiting for a response ends on every finite stream, and it returns a message exactly
  when the stream starts with any number of \<open>CHANGED\<close> notifications followed by that
  message: notifications are skipped, nothing else is, and what follows the response stays
  on the stream.
\<close>

theorem read_request_response_iff:
  assumes "byte_source (read_exact :: ('s, 'io) reader) pending valid" and "valid (client_stream c)"
  shows "((\<exists>c'. read_request_response read_exact c = Some (Inr x, c') \<and> pending (client_stream c') = rest) \<longleftrightarrow>
     (\<exists>ks m. wire_message NodeToClient m \<and> owned_message m = (Inr x :: 'io client_error + message) \<and>
        \<not> is_changed x \<and>
        pending (client_stream c) = concat (map (\<lambda>k. message_bytes (Changed k)) ks) @ message_bytes m @ rest))
     \<and> read_request_response read_exact c \<noteq> None"
proof
  show "(\<exists>c'. read_request_response read_exact c = Some (Inr x, c') \<and> pending (client_stream c') = rest) \<longleftrightarrow>
     (\<exists>ks m. wire_message NodeToClient m \<and> owned_message m = (Inr x :: 'io client_error + message) \<and>
        \<not> is_changed x \<and>
        pending (client_stream c) = concat (map (\<lambda>k. message_bytes (Changed k)) ks) @ message_bytes m @ rest)"
    (is "?returns \<longleftrightarrow> ?next")
  proof
    assume ?returns
    with byte_source.read_request_response_total [OF assms] show ?next by auto
  next
    assume ?next
    then show ?returns
      using byte_source.read_request_response_skips [OF assms(1) _ _ _ assms(2)] by blast
  qed
  show "read_request_response read_exact c \<noteq> None"
    using byte_source.read_request_response_total [OF assms] by auto
qed

lemma read_request_response_iff_witness:
  "\<exists>c'. read_request_response slice_read_exact
      (client_new \<lparr>slice_bytes = message_bytes (Changed 7) @ message_bytes (OrdinaryResponse Ok) @ [1],
                   slice_cursor = 0, slice_max_chunk = 1\<rparr>)
      = Some (Inr Message_Ok, c') \<and> slice_pending (client_stream c') = [1]"
proof -
  let ?c = "client_new \<lparr>slice_bytes = message_bytes (Changed 7) @ message_bytes (OrdinaryResponse Ok) @ [1],
                   slice_cursor = 0, slice_max_chunk = 1\<rparr>"
  have "slice_valid (client_stream ?c)" by (simp add: client_new_def slice_valid_def)
  moreover have "slice_pending (client_stream ?c) =
      concat (map (\<lambda>k. message_bytes (Changed k)) [7]) @ message_bytes (OrdinaryResponse Ok) @ [1]"
    by (simp add: client_new_def slice_pending_def)
  moreover have "wire_message NodeToClient (OrdinaryResponse Ok)"
    by (simp add: wire_message_def opcodes_of_def node_opcodes_def)
  moreover have "owned_message (OrdinaryResponse Ok) = Inr Message_Ok" "\<not> is_changed Message_Ok" by simp_all
  ultimately show ?thesis
    using read_request_response_iff [OF slice.byte_source_axioms, of ?c Message_Ok "[1]"] by blast
qed

end
