(* ===== verification/Embassy_Client.thy ===== *)
theory Embassy_Client
  imports Embassy_Link Embassy_Props Client
begin

text \<open>
  The client talking to an embassy server over one connection, while other tasks set keys at
  every await of the server and wake-ups come at any time between requests: every operation of
  the client takes effect at one instant between its call and its return.
\<close>

section \<open>One call over the connection\<close>

abbreviation link_server :: "('g, 's) link client \<Rightarrow> 'g server" where
  "link_server c \<equiv> sv_server (link_serving (client_stream c))"

text \<open>The client reads \<open>n\<close> messages.\<close>

fun receive :: "('s, 'io) reader \<Rightarrow> nat \<Rightarrow> ('s client, 'io client_error, message list) action" where
  "receive rd 0 = act_ok []"
| "receive rd (Suc n) = act_bind (next_message rd) (\<lambda>m. act_bind (receive rd n) (\<lambda>ms. act_ok (m # ms)))"

context byte_source
begin

lemma receive_changed:
  "valid (client_stream c) \<Longrightarrow> pending (client_stream c) = concat (map (\<lambda>k. message_bytes (Changed k)) ks) \<Longrightarrow>
     \<exists>c'. receive read_exact (length ks) c = (Inr (map Message_Changed ks), c')"
proof (induction ks arbitrary: c)
  case (Cons k ks)
  then obtain c1 where c1: "next_message read_exact c = (Inr (Message_Changed k), c1)" "valid (client_stream c1)"
    "pending (client_stream c1) = concat (map (\<lambda>k. message_bytes (Changed k)) ks)"
    using next_message_wire [OF _ _ wire_changed, of c k] by auto
  then show ?case using Cons.IH [OF c1(2,3)] by (auto simp: act_bind_def)
qed simp

end

interpretation link: byte_source "link_read written" "link_pending written" "link_at written r n" for written r n
  by unfold_locales (auto simp: link_read_def link_pending_def link_at_def add.commute)

context embassy_link
begin

lemma link_write_answers:
  assumes idle: "link_idle lib pending valid written L" and id: "node_id_ok nodeid"
    and wakes: "\<forall>n. quiet_wakes lib pending valid written (wakes n)"
    and m: "wire_message ClientToNode m" "incoming_of max_str m = Some q"
  obtains L' srv ks ks' where
    "link_write lib read_exact write_all deliver max_str nodeid wakes (message_bytes m) L = (Inr (), L')"
    "link_idle lib pending valid written L'" "link_steps lib (sv_server (link_serving L)) srv"
    "local_steps lib (embassy_store lib srv q) (sv_server (link_serving L'))"
    "answers m (embassy_response lib nodeid srv q)" "wire_message NodeToClient (embassy_response lib nodeid srv q)"
    "link_pending written L' = link_pending written L @ frames_of ks
       @ message_bytes (embassy_response lib nodeid srv q) @ frames_of ks'"
    "sv_observed (link_serving L') = fst (embassy_watch srv q (sv_watching (link_serving L)))"
proof -
  have w: "server_waits lib pending valid (link_serving L)" and at: "link_at written (link_serving L) (link_turns L) L"
    using idle by (simp_all add: link_idle_def)
  have wk: "quiet_wakes lib pending valid written (wakes (link_turns L))" using wakes by blast
  obtain r' srv ks ks' where t:
    "(link_turn lib read_exact write_all deliver max_str nodeid (wakes (link_turns L)) (message_bytes m) (link_serving L)
        :: (('re, 'we) server_error fault + unit) \<times> _) = (Inr (), r')"
    "server_waits lib pending valid r'" "link_steps lib (sv_server (link_serving L)) srv"
    "local_steps lib (embassy_store lib srv q) (sv_server r')" "server_ok (length (sv_payload (link_serving L))) srv"
    "wire_message NodeToClient (embassy_response lib nodeid srv q)"
    "written (sv_world r') = written (sv_world (link_serving L)) @ frames_of ks
       @ message_bytes (embassy_response lib nodeid srv q) @ frames_of ks'"
    "sv_observed r' = fst (embassy_watch srv q (sv_watching (link_serving L)))"
    by (rule link_turn_answers [OF w id wk m])
  let ?L' = "L\<lparr>link_serving := r', link_turns := Suc (link_turns L)\<rparr>"
  show thesis
  proof (rule that [of ?L' srv ks ks'])
    show "link_write lib read_exact write_all deliver max_str nodeid wakes (message_bytes m) L = (Inr (), ?L')"
      using t(1) at by (simp add: link_write_def link_at_def)
    show "link_idle lib pending valid written ?L'" using t(2,7) at by (simp add: link_idle_def link_at_def)
    show "link_pending written ?L' = link_pending written L @ frames_of ks
        @ message_bytes (embassy_response lib nodeid srv q) @ frames_of ks'"
      using t(7) at by (simp add: link_pending_def link_at_def)
    show "answers m (embassy_response lib nodeid srv q)" by (rule embassy_response_answers [OF t(5) m(2)])
  qed (use t in simp_all)
qed

text \<open>
  A request operation skips the notifications on the way and returns what the specified response
  says, computed from a state of the registry during the call.
\<close>

lemma link_call:
  assumes idle: "link_idle lib pending valid written (client_stream c)" and unread: "link_unread written (client_stream c) ks0"
    and id: "node_id_ok nodeid" and wakes: "\<forall>n. quiet_wakes lib pending valid written (wakes n)"
    and m: "wire_message ClientToNode m" "incoming_of max_str m = Some q"
    and send: "send c = on_stream (link_write lib read_exact write_all deliver max_str nodeid wakes (message_bytes m))
      (trace_frame Tx (message_bytes m) c)"
  obtains c' srv ks where
    "request_response (link_read written) send request expected select c =
       Some (call_result request expected select (embassy_response lib nodeid srv q), c')"
    "link_steps lib (link_server c) srv" "local_steps lib (embassy_store lib srv q) (link_server c')"
    "link_idle lib pending valid written (client_stream c')" "link_unread written (client_stream c') ks"
    "sv_observed (link_serving (client_stream c')) = fst (embassy_watch srv q (sv_watching (link_serving (client_stream c))))"
proof -
  obtain L' srv ks1 ks where L':
    "link_write lib read_exact write_all deliver max_str nodeid wakes (message_bytes m) (client_stream c) = (Inr (), L')"
    "link_idle lib pending valid written L'" "link_steps lib (link_server c) srv"
    "local_steps lib (embassy_store lib srv q) (sv_server (link_serving L'))"
    "answers m (embassy_response lib nodeid srv q)" "wire_message NodeToClient (embassy_response lib nodeid srv q)"
    "link_pending written L' = link_pending written (client_stream c) @ frames_of ks1
       @ message_bytes (embassy_response lib nodeid srv q) @ frames_of ks"
    "sv_observed (link_serving L') = fst (embassy_watch srv q (sv_watching (link_serving (client_stream c))))"
    by (rule link_write_answers [OF idle id wakes m])
  obtain x where x: "(owned_message (embassy_response lib nodeid srv q) :: unit client_error + message) = Inr x"
    using owned_message_node [OF L'(6)] by blast
  have nc: "\<not> is_changed x" using owned_message_changed [OF x] answers_not_changed [OF L'(5)] by blast
  let ?c1 = "(trace_frame Tx (message_bytes m) c)\<lparr>client_stream := L'\<rparr>"
  have "send c = (Inr (), ?c1)" using L'(1) by (simp add: send on_stream_def trace_frame_def)
  moreover have "link_at written (link_serving L') (link_turns L') (client_stream ?c1)" using L'(2) by (simp add: link_idle_def)
  moreover have "link_pending written (client_stream ?c1) = concat (map (\<lambda>k. message_bytes (Changed k)) (ks0 @ ks1))
      @ message_bytes (embassy_response lib nodeid srv q) @ frames_of ks"
    using L'(7) unread by (simp add: link_unread_def frames_of_def)
  ultimately obtain c' where c': "request_response (link_read written) send request expected select c =
       Some (call_result request expected select (embassy_response lib nodeid srv q), c')"
    "link_pending written (client_stream c') = frames_of ks" "link_at written (link_serving L') (link_turns L') (client_stream c')"
    using link.request_response_answered [where send = send and c = c and request = request and expected = expected
        and select = select, OF _ L'(6) x nc] by blast
  show thesis
    by (rule that [OF c'(1) L'(3), of ks]) (use L' c' in \<open>auto simp: link_at_def link_idle_def link_unread_def\<close>)
qed

end

section \<open>Values\<close>

text \<open>What \<open>get\<close> and \<open>write\<close> return for a state of the registry.\<close>

definition get_outcome :: "'g server \<Rightarrow> u16 \<Rightarrow> unit client_error + client_value" where
  "get_outcome srv k =
     (case slot_of_keyref srv k of
        UnknownKeyref \<Rightarrow> Inl (RequestError GET ERROR_UNKNOWN_KEYREF)
      | VoidKey \<Rightarrow> Inl (RequestError GET ERROR_NOT_ALLOWED)
      | SlotOf i \<Rightarrow>
          if key_readable (srv_keys srv ! i) then Inr (owned_value (key_wire (srv_keys srv ! i)))
          else Inl (RequestError GET ERROR_NOT_ALLOWED))"

definition write_outcome :: "'g embassy_lib \<Rightarrow> nat \<Rightarrow> 'g server \<Rightarrow> u16 \<Rightarrow> value_ref \<Rightarrow> unit client_error + client_value" where
  "write_outcome lib max_str srv k v =
     (case slot_of_keyref srv k of
        UnknownKeyref \<Rightarrow> Inl (RequestError WRITE ERROR_UNKNOWN_KEYREF)
      | VoidKey \<Rightarrow> Inl (RequestError WRITE ERROR_NOT_ALLOWED)
      | SlotOf i \<Rightarrow>
          if \<not> key_writable (srv_keys srv ! i) then Inl (RequestError WRITE ERROR_NOT_ALLOWED)
          else (case stored_by_write lib srv k (wire_in max_str v) of
              Some (i, stored) \<Rightarrow> Inr (owned_value (value_repr (key_type (srv_keys srv ! i)) stored))
            | None \<Rightarrow> Inl (RequestError WRITE ERROR_TYPE_MISMATCH)))"

lemma call_outcomes:
  "call_result GET ''VALUE'' select_value (embassy_response lib nodeid srv (InGet k)) = get_outcome srv k"
  "call_result WRITE ''WRITTEN'' select_written (embassy_response lib nodeid srv (InWrite k (wire_in max_str v))) =
     write_outcome lib max_str srv k v"
  by (auto simp: call_result_def get_outcome_def write_outcome_def select_value_def select_written_def unexpected_message_def
      split: slot.split option.split)

context embassy_link
begin

lemma link_get:
  assumes "link_idle lib pending valid written (client_stream c)" and "link_unread written (client_stream c) ks"
    and "node_id_ok nodeid" and "\<forall>n. quiet_wakes lib pending valid written (wakes n)"
  obtains c' srv ks' where
    "client_get (link_read written) (link_write lib read_exact write_all deliver max_str nodeid wakes) k c =
       Some (get_outcome srv k, c')"
    "link_steps lib (link_server c) srv" "local_steps lib srv (link_server c')"
    "link_idle lib pending valid written (client_stream c')" "link_unread written (client_stream c') ks'"
proof -
  obtain c' srv ks' where c': "request_response (link_read written)
        (send_keyref_request (link_write lib read_exact write_all deliver max_str nodeid wakes) GET k) GET ''VALUE'' select_value c =
      Some (call_result GET ''VALUE'' select_value (embassy_response lib nodeid srv (InGet k)), c')"
    "link_steps lib (link_server c) srv" "local_steps lib (embassy_store lib srv (InGet k)) (link_server c')"
    "link_idle lib pending valid written (client_stream c')" "link_unread written (client_stream c') ks'"
    by (rule link_call [where m = "Request (Get k)" and max_str = max_str and c = c
          and send = "send_keyref_request (link_write lib read_exact write_all deliver max_str nodeid wakes) GET k"
          and request = GET and expected = "''VALUE''" and select = select_value,
          OF assms wire_requests(2) _ send_keyref_frame(1)], simp, erule (4) that)
  then show thesis by (intro that [of srv c' ks']) (simp_all add: client_get_def call_outcomes del: embassy_response.simps)
qed

lemma link_write_value:
  assumes "link_idle lib pending valid written (client_stream c)" and "link_unread written (client_stream c) ks"
    and "node_id_ok nodeid" and "\<forall>n. quiet_wakes lib pending valid written (wakes n)"
    and v: "wf_value v" "length (encode_value v) \<le> 65533"
  obtains c' srv ks' where
    "client_write (link_read written) (link_write lib read_exact write_all deliver max_str nodeid wakes) k (owned_value v) c =
       Some (write_outcome lib max_str srv k v, c')"
    "link_steps lib (link_server c) srv"
    "local_steps lib (embassy_store lib srv (InWrite k (wire_in max_str v))) (link_server c')"
    "link_idle lib pending valid written (client_stream c')" "link_unread written (client_stream c') ks'"
proof -
  have wire: "wire_message ClientToNode (Request (Write k v))"
    using v by (simp add: wire_message_def opcodes_of_def client_opcodes_def)
  obtain c' srv ks' where c': "request_response (link_read written)
        (send_write_request (link_write lib read_exact write_all deliver max_str nodeid wakes) k (owned_value v))
        WRITE ''WRITTEN'' select_written c =
      Some (call_result WRITE ''WRITTEN'' select_written (embassy_response lib nodeid srv (InWrite k (wire_in max_str v))), c')"
    "link_steps lib (link_server c) srv" "local_steps lib (embassy_store lib srv (InWrite k (wire_in max_str v))) (link_server c')"
    "link_idle lib pending valid written (client_stream c')" "link_unread written (client_stream c') ks'"
    by (rule link_call [where m = "Request (Write k v)" and max_str = max_str and c = c
          and send = "send_write_request (link_write lib read_exact write_all deliver max_str nodeid wakes) k (owned_value v)"
          and request = WRITE and expected = "''WRITTEN''" and select = select_written,
          OF assms(1-4) wire _ send_write_frame [OF v]], simp, erule (4) that)
  then show thesis by (intro that [of srv c' ks']) (simp_all only: client_write_def call_outcomes)
qed

end

section \<open>The key table\<close>

text \<open>The entry that \<open>GETKEY\<close> yields for a key reference: a gap is a key without name and flags.\<close>

definition table_entry :: "'g server \<Rightarrow> u16 \<Rightarrow> key_info" where
  "table_entry srv k =
     (case find_slot srv k of
        Some i \<Rightarrow> \<lparr>info_keyref = k, info_keyflags = KeyFlags (keyflags (srv_keys srv ! i)), info_name = key_name (srv_keys srv ! i)\<rparr>
      | None \<Rightarrow> \<lparr>info_keyref = k, info_keyflags = KeyFlags 0, info_name = []\<rparr>)"

definition server_table :: "'g server \<Rightarrow> key_info list" where
  "server_table srv = map (table_entry srv) (keyrefs_below (key_count srv))"

lemma key_count_keyrefs:
  "key_count srv = foldl (\<lambda>m k. max m (u16_saturating_add k 1)) 0 (map key_keyref (srv_keys srv))"
  by (simp add: key_count_def foldl_map)

lemma table_static:
  assumes "srv_static srv' = srv_static srv"
  shows "key_count srv' = key_count srv" and "table_entry srv' k = table_entry srv k"
proof -
  show "key_count srv' = key_count srv" by (simp add: key_count_keyrefs static_keyrefs [OF assms])
  show "table_entry srv' k = table_entry srv k"
  proof (cases "find_slot srv k")
    case (Some i)
    then have i: "i < length (srv_keys srv)" by (simp add: find_slot_def position_Some)
    have "length (srv_keys srv') = length (srv_keys srv)"
      using arg_cong [OF static_keyrefs [OF assms], of length] by simp
    moreover have "map key_static (srv_keys srv') = map key_static (srv_keys srv)" using assms by (simp add: srv_static_def)
    ultimately have "key_static (srv_keys srv' ! i) = key_static (srv_keys srv ! i)"
      using i by (metis nth_map)
    then show ?thesis
      using Some find_slot_static [OF assms, of k] by (simp add: table_entry_def key_static_def keyflags_def)
  qed (simp add: table_entry_def find_slot_static [OF assms])
qed

lemma call_table:
  "k < key_count srv \<Longrightarrow>
     call_result GETKEY ''KEY'' (select_key k) (embassy_response lib nodeid srv (InGetKey k)) = Inr (table_entry srv k)"
  "call_result GETKEYTABLEN ''KEYTABLEN'' select_keytablen (embassy_response lib nodeid srv InGetKeytabLen) = Inr (key_count srv)"
  by (auto simp: call_result_def select_key_def select_keytablen_def table_entry_def slot_of_keyref_def split: option.split)

lemma keyrefs_below_iff: "k \<in> set (keyrefs_below n) \<longleftrightarrow> k < n"
proof -
  have "k < n \<Longrightarrow> k = word_of_nat (unat k) \<and> unat k < unat n" by (simp add: word_less_nat_alt)
  moreover have "unat (word_of_nat i :: u16) = i" if "i < unat n" for i
    using that unat_u16_le [of n] by (simp add: unat_of_nat)
  ultimately show ?thesis
    by (auto simp: keyrefs_below_def image_iff word_less_nat_alt intro!: bexI [of _ "unat k"])
qed

context embassy_link
begin

lemma link_key:
  assumes "link_idle lib pending valid written (client_stream c)" and "link_unread written (client_stream c) ks"
    and "node_id_ok nodeid" and "\<forall>n. quiet_wakes lib pending valid written (wakes n)"
    and k: "k < key_count (link_server c)"
  obtains c' ks' where
    "client_key (link_read written) (link_write lib read_exact write_all deliver max_str nodeid wakes) k c =
       Some (Inr (table_entry (link_server c) k), c')"
    "srv_static (link_server c') = srv_static (link_server c)"
    "link_idle lib pending valid written (client_stream c')" "link_unread written (client_stream c') ks'"
proof -
  obtain c' srv ks' where c': "request_response (link_read written)
        (send_keyref_request (link_write lib read_exact write_all deliver max_str nodeid wakes) GETKEY k) GETKEY ''KEY'' (select_key k) c =
      Some (call_result GETKEY ''KEY'' (select_key k) (embassy_response lib nodeid srv (InGetKey k)), c')"
    "link_steps lib (link_server c) srv" "local_steps lib (embassy_store lib srv (InGetKey k)) (link_server c')"
    "link_idle lib pending valid written (client_stream c')" "link_unread written (client_stream c') ks'"
    by (rule link_call [where m = "Request (GetKey k)" and max_str = max_str and c = c
          and send = "send_keyref_request (link_write lib read_exact write_all deliver max_str nodeid wakes) GETKEY k"
          and request = GETKEY and expected = "''KEY''" and select = "select_key k",
          OF assms(1-4) wire_requests(3) _ send_keyref_frame(2)], simp, erule (4) that)
  note st = link_steps_static [OF embassy_library_axioms c'(2)]
  have "srv_static (link_server c') = srv_static (link_server c)" using st local_steps_static [OF c'(3)] by simp
  then show thesis
    using that [of c' ks'] c' st k by (simp add: client_key_def call_table table_static [OF st] del: embassy_response.simps)
qed

lemma link_list_keys_loop:
  assumes id: "node_id_ok nodeid" and wakes: "\<forall>n. quiet_wakes lib pending valid written (wakes n)"
  shows "link_idle lib pending valid written (client_stream c) \<Longrightarrow> link_unread written (client_stream c) ks \<Longrightarrow>
     \<forall>k \<in> set refs. k < key_count (link_server c) \<Longrightarrow>
     \<exists>c' ks'. list_keys_loop (link_read written) (link_write lib read_exact write_all deliver max_str nodeid wakes) refs keys c =
         Some (Inr (keys @ map (table_entry (link_server c)) refs), c')
       \<and> srv_static (link_server c') = srv_static (link_server c)
       \<and> link_idle lib pending valid written (client_stream c') \<and> link_unread written (client_stream c') ks'"
proof (induction refs arbitrary: keys c ks)
  case Nil
  then show ?case by (auto simp: proc_of_def)
next
  case (Cons k refs)
  have k: "k < key_count (link_server c)" using Cons.prems(3) by simp
  obtain c1 ks1 where 1:
    "client_key (link_read written) (link_write lib read_exact write_all deliver max_str nodeid wakes) k c =
       Some (Inr (table_entry (link_server c) k), c1)"
    "srv_static (link_server c1) = srv_static (link_server c)"
    "link_idle lib pending valid written (client_stream c1)" "link_unread written (client_stream c1) ks1"
    by (rule link_key [OF Cons.prems(1,2) id wakes k])
  note static = table_static [OF 1(2)]
  obtain c2 ks2 where 2:
    "list_keys_loop (link_read written) (link_write lib read_exact write_all deliver max_str nodeid wakes) refs
         (keys @ [table_entry (link_server c) k]) c1 =
       Some (Inr ((keys @ [table_entry (link_server c) k]) @ map (table_entry (link_server c1)) refs), c2)"
    "srv_static (link_server c2) = srv_static (link_server c1)"
    "link_idle lib pending valid written (client_stream c2)" "link_unread written (client_stream c2) ks2"
    using Cons.IH [OF 1(3,4), of "keys @ [table_entry (link_server c) k]"] Cons.prems(3) static(1) by auto
  have "map (table_entry (link_server c1)) refs = map (table_entry (link_server c)) refs" by (simp add: static(2))
  then show ?case using 1 2 by (auto simp: proc_bind_def)
qed

lemma link_list_keys:
  assumes idle: "link_idle lib pending valid written (client_stream c)" and unread: "link_unread written (client_stream c) ks"
    and id: "node_id_ok nodeid" and wakes: "\<forall>n. quiet_wakes lib pending valid written (wakes n)"
  shows "\<exists>c' ks'. client_list_keys (link_read written) (link_write lib read_exact write_all deliver max_str nodeid wakes) c =
       Some (Inr (server_table (link_server c)), c')
     \<and> srv_static (link_server c') = srv_static (link_server c)
     \<and> link_idle lib pending valid written (client_stream c') \<and> link_unread written (client_stream c') ks'"
proof -
  obtain c1 srv ks1 where 1: "request_response (link_read written)
        (send_empty_request (link_write lib read_exact write_all deliver max_str nodeid wakes) GETKEYTABLEN)
        GETKEYTABLEN ''KEYTABLEN'' select_keytablen c =
      Some (call_result GETKEYTABLEN ''KEYTABLEN'' select_keytablen (embassy_response lib nodeid srv InGetKeytabLen), c1)"
    "link_steps lib (link_server c) srv" "local_steps lib (embassy_store lib srv InGetKeytabLen) (link_server c1)"
    "link_idle lib pending valid written (client_stream c1)" "link_unread written (client_stream c1) ks1"
    by (rule link_call [where m = "Request GetKeytabLen" and max_str = max_str and c = c
          and send = "send_empty_request (link_write lib read_exact write_all deliver max_str nodeid wakes) GETKEYTABLEN"
          and request = GETKEYTABLEN and expected = "''KEYTABLEN''" and select = select_keytablen,
          OF assms wire_requests(7) _ send_keyref_frame(5)], simp, erule (4) that)
  note st = link_steps_static [OF embassy_library_axioms 1(2)]
  have st1: "srv_static (link_server c1) = srv_static (link_server c)" using st local_steps_static [OF 1(3)] by simp
  have count: "client_key_count (link_read written) (link_write lib read_exact write_all deliver max_str nodeid wakes) c =
      Some (Inr (key_count (link_server c)), c1)"
    using 1(1) by (simp add: client_key_count_def call_table table_static [OF st] del: embassy_response.simps)
  have refs: "\<forall>k \<in> set (keyrefs_below (key_count (link_server c))). k < key_count (link_server c1)"
    by (simp add: keyrefs_below_iff table_static [OF st1])
  have "map (table_entry (link_server c1)) ks = map (table_entry (link_server c)) ks" for ks
    by (simp add: table_static [OF st1])
  then show ?thesis
    using link_list_keys_loop [OF id wakes 1(4,5) refs, of max_str "[]"] count st1
    by (auto simp: client_list_keys_def proc_bind_def server_table_def)
qed

end

text \<open>The table lists every registered key at its reference, but for the reference 0xFFFF.\<close>

lemma key_count_bounds:
  "key_count srv \<le> 0xFFFF"
  "k \<in> set (srv_keys srv) \<Longrightarrow> key_keyref k \<noteq> 0xFFFF \<Longrightarrow> key_keyref k < key_count srv"
proof -
  let ?refs = "map (\<lambda>k. u16_saturating_add (key_keyref k) 1) (srv_keys srv)"
  have count: "key_count srv = foldl max 0 ?refs" by (simp add: key_count_def foldl_map)
  show "key_count srv \<le> 0xFFFF" using unat_u16_le [of "key_count srv"] by (simp add: word_le_nat_alt)
  assume k: "k \<in> set (srv_keys srv)" "key_keyref k \<noteq> 0xFFFF"
  have "u16_saturating_add (key_keyref k) 1 \<le> key_count srv" unfolding count by (rule foldl_max_bounds(2)) (use k in auto)
  moreover have "key_keyref k < u16_saturating_add (key_keyref k) 1"
  proof -
    have "unat (key_keyref k) \<noteq> 65535"
    proof
      assume "unat (key_keyref k) = 65535"
      then have "key_keyref k = 0xFFFF" by (intro word_unat_eq_iff [THEN iffD2]) simp
      with k(2) show False by simp
    qed
    moreover have "unat (key_keyref k) \<le> 65535" by (rule unat_u16_le)
    ultimately show ?thesis by (simp add: u16_saturating_add_def word_less_nat_alt unat_word_ariths)
  qed
  ultimately show "key_keyref k < key_count srv" by simp
qed

lemma find_slot_unique:
  assumes "unique_keyrefs (srv_keys srv)" and "i < length (srv_keys srv)"
  shows "find_slot srv (key_keyref (srv_keys srv ! i)) = Some i"
proof -
  have "key_keyref (srv_keys srv ! j) \<noteq> key_keyref (srv_keys srv ! i)" if "j < i" for j
    using assms that
  proof (induction "srv_keys srv" arbitrary: i j srv)
    case (Cons k ks)
    let ?tail = "srv\<lparr>srv_keys := ks\<rparr>"
    have u: "unique_keyrefs (srv_keys ?tail)" "list_all (\<lambda>other. key_keyref k \<noteq> key_keyref other) ks"
      using Cons.prems(1) Cons.hyps(2) [symmetric] by auto
    show ?case
    proof (cases j)
      case 0
      then have "key_keyref k \<noteq> key_keyref (ks ! (i - 1))"
        using u(2) Cons.prems(2,3) Cons.hyps(2) [symmetric] by (auto simp: list_all_length)
      then show ?thesis using 0 Cons.prems(3) Cons.hyps(2) [symmetric] by (simp add: nth_Cons')
    next
      case (Suc j')
      then show ?thesis
        using Cons.hyps(1) [of ?tail "i - 1" j'] u(1) Cons.prems(2,3) Cons.hyps(2) [symmetric] by (auto simp: nth_Cons')
    qed
  qed simp
  then show ?thesis using assms(2) by (auto simp: find_slot_def position_Some)
qed

definition listed :: "'g ekey \<Rightarrow> key_info" where
  "listed k = \<lparr>info_keyref = key_keyref k, info_keyflags = KeyFlags (keyflags k), info_name = key_name k\<rparr>"

lemma server_table_lists:
  assumes "unique_keyrefs (srv_keys srv)" and "k \<in> set (srv_keys srv)" and "key_keyref k \<noteq> 0xFFFF"
  shows "listed k \<in> set (server_table srv)"
proof -
  obtain i where i: "i < length (srv_keys srv)" "srv_keys srv ! i = k" using assms(2) by (auto simp: in_set_conv_nth)
  then have "table_entry srv (key_keyref k) = listed k"
    using find_slot_unique [OF assms(1) i(1)] by (simp add: table_entry_def listed_def)
  moreover have "key_keyref k < key_count srv" by (rule key_count_bounds(2) [OF assms(2,3)])
  ultimately show ?thesis by (force simp: server_table_def keyrefs_below_iff)
qed

lemma server_table_only:
  assumes "info \<in> set (server_table srv)" and "info_name info \<noteq> []"
  shows "\<exists>k \<in> set (srv_keys srv). info = listed k"
proof -
  obtain k where k: "info = table_entry srv k" using assms(1) by (auto simp: server_table_def)
  then obtain i where i: "find_slot srv k = Some i" using assms(2) by (cases "find_slot srv k") (simp_all add: table_entry_def)
  then have "i < length (srv_keys srv)" "key_keyref (srv_keys srv ! i) = k" by (auto simp: find_slot_def position_Some)
  then show ?thesis
    using k i by (intro bexI [of _ "srv_keys srv ! i"]) (simp_all add: table_entry_def listed_def)
qed

lemma info_keyref_table: "map info_keyref (server_table srv) = keyrefs_below (key_count srv)"
proof -
  have "info_keyref (table_entry srv k) = k" for k by (simp add: table_entry_def split: option.split)
  then show ?thesis by (simp add: server_table_def comp_def)
qed

section \<open>Notifications\<close>

text \<open>The connection after the loop has run.\<close>

definition link_now :: "('g, 's) serving \<Rightarrow> ('g, 's) link client \<Rightarrow> ('g, 's) link client" where
  "link_now r c = c\<lparr>client_stream := (client_stream c)\<lparr>link_serving := r\<rparr>\<rparr>"

lemma observe_outcome:
  assumes "call_result OBSERVE ''OK'' select_ok (embassy_response lib nodeid srv (InObserve k)) = Inr ()"
  obtains i where "slot_of_keyref srv k = SlotOf i" "key_observable (srv_keys srv ! i)"
  using assms by (auto simp: call_result_def select_ok_def unexpected_message_def split: slot.splits if_splits)

context embassy_link
begin

lemma link_observe:
  assumes "link_idle lib pending valid written (client_stream c)" and "link_unread written (client_stream c) ks"
    and "node_id_ok nodeid" and "\<forall>n. quiet_wakes lib pending valid written (wakes n)"
    and run: "client_observe (link_read written) (link_write lib read_exact write_all deliver max_str nodeid wakes) k c =
       Some (Inr (), c1)"
  obtains i ks' where "find_slot (link_server c1) k = Some i" "i < length (srv_keys (link_server c1))"
    "key_observable (srv_keys (link_server c1) ! i)" "key_keyref (srv_keys (link_server c1) ! i) = k"
    "sv_observed (link_serving (client_stream c1)) ! i"
    "link_idle lib pending valid written (client_stream c1)" "link_unread written (client_stream c1) ks'"
proof -
  obtain c' srv ks' where c': "request_response (link_read written)
        (send_keyref_request (link_write lib read_exact write_all deliver max_str nodeid wakes) OBSERVE k) OBSERVE ''OK'' select_ok c =
      Some (call_result OBSERVE ''OK'' select_ok (embassy_response lib nodeid srv (InObserve k)), c')"
    "link_steps lib (link_server c) srv" "local_steps lib (embassy_store lib srv (InObserve k)) (link_server c')"
    "link_idle lib pending valid written (client_stream c')" "link_unread written (client_stream c') ks'"
    "sv_observed (link_serving (client_stream c')) = fst (embassy_watch srv (InObserve k) (sv_watching (link_serving (client_stream c))))"
    by (rule link_call [where m = "Request (Observe k)" and max_str = max_str and c = c
          and send = "send_keyref_request (link_write lib read_exact write_all deliver max_str nodeid wakes) OBSERVE k"
          and request = OBSERVE and expected = "''OK''" and select = select_ok,
          OF assms(1-4) wire_requests(4) _ send_keyref_frame(3)], simp, erule (5) that)
  have eq: "c' = c1" and ok: "(call_result OBSERVE ''OK'' select_ok (embassy_response lib nodeid srv (InObserve k)) :: unit client_error + unit) = Inr ()"
    using run c'(1) by (auto simp: client_observe_def)
  obtain i where i: "slot_of_keyref srv k = SlotOf i" "key_observable (srv_keys srv ! i)" by (rule observe_outcome [OF ok])
  have st: "srv_static (link_server c1) = srv_static srv" using local_steps_static [OF c'(3)] eq by simp
  note slot = slot_of_keyref_SlotOf [OF i(1)]
  have len: "length (srv_keys srv) = length (srv_keys (link_server c))"
    using arg_cong [OF static_keyrefs [OF link_steps_static [OF embassy_library_axioms c'(2)]], of length] by simp
  have "length (sv_observed (link_serving (client_stream c))) = length (srv_keys (link_server c))"
    using assms(1) by (simp add: link_idle_def server_waits_def serving_ok_def)
  then have "sv_observed (link_serving (client_stream c1)) ! i"
    using c'(6) eq i slot len by (simp add: watch_def)
  moreover have "find_slot srv k = Some i" using i(1) by (auto simp: slot_of_keyref_def split: if_splits option.splits)
  ultimately show thesis
    using that [of i ks'] slot i(2) static_key(1,2) [OF st, of i] find_slot_static [OF st, of k] static_nth(2) [OF st, of i] c'(4,5) eq
    by simp
qed

end

section \<open>A connection, for the witnesses\<close>

text \<open>The server of the sample key, with nothing sent yet and a wake-up before every request.\<close>

definition sample_link :: "(bool, list_stream) link" where
  "sample_link = \<lparr>link_serving = sample_serving [], link_taken = 0, link_turns = 0, link_up = True\<rparr>"

lemma sample_link_server: "sv_server (link_serving sample_link) = sample_server"
  by (simp add: sample_link_def sample_serving_def serving_start_def Let_def)

lemma sample_link_idle:
  "link_idle flag_lib ls_pending (\<lambda>_. True) ls_written (client_stream (client_new sample_link))"
  "link_unread ls_written (client_stream (client_new sample_link)) []"
proof -
  have "announced flag_lib (sample_serving [])"
    by (simp add: announced_def unannounced_def sample_serving_def serving_start_def Let_def)
  then show "link_idle flag_lib ls_pending (\<lambda>_. True) ls_written (client_stream (client_new sample_link))"
    using sample_serving_ok [of "[]"]
    by (simp add: link_idle_def server_waits_def link_at_def client_new_def sample_link_def sample_serving_def
        serving_start_def ls_pending_def Let_def)
  show "link_unread ls_written (client_stream (client_new sample_link)) []"
    by (simp add: link_unread_def link_pending_def frames_of_def client_new_def sample_link_def sample_serving_def
        serving_start_def ls_written_def Let_def)
qed

definition wake_once :: "nat \<Rightarrow> (bool, list_stream) select_outcome list" where
  "wake_once n = [Some]"

lemma sample_wakes: "\<forall>n. quiet_wakes flag_lib ls_pending (\<lambda>_. True) ls_written (wake_once n)"
  by (auto simp: wake_once_def quiet_wakes_def outcome_ok_def lossless_def)

text \<open>The sample connection after OBSERVE, and a wake-up with which another task sets the key.\<close>

definition no_wakes :: "nat \<Rightarrow> (bool, list_stream) select_outcome list" where
  "no_wakes n = []"

lemma quiet_no_wakes: "\<forall>n. quiet_wakes flag_lib ls_pending (\<lambda>_. True) ls_written (no_wakes n)"
  by (simp add: quiet_wakes_def no_wakes_def)

definition key_set_meanwhile :: "(bool, list_stream) select_outcome" where
  "key_set_meanwhile w = (if w_server w = sample_server then Some (w\<lparr>w_server := sample_updated\<rparr>) else None)"

lemma key_set_meanwhile_ok:
  "outcome_ok flag_lib ls_pending (\<lambda>_. True) ls_written key_set_meanwhile" "lossless ls_pending key_set_meanwhile"
  using sample_updated_step
  by (auto simp: outcome_ok_def lossless_def key_set_meanwhile_def ls_written_def ls_pending_def split: if_splits)

lemma sample_observe:
  obtains c1 where "client_observe (link_read ls_written) (link_write flag_lib ls_read ls_write ls_deliver 7 (ascii ''n'') no_wakes) 0
      (client_new sample_link) = Some (Inr (), c1)" "link_serving (client_stream c1) = sample_observing []"
proof -
  let ?wr = "link_write flag_lib ls_read ls_write ls_deliver 7 (ascii ''n'') no_wakes"
  let ?L = "sample_link\<lparr>link_serving := sample_observing [], link_turns := 1\<rparr>"
  let ?c = "client_new sample_link"
  let ?c1 = "(trace_frame Tx observe_bytes ?c)\<lparr>client_stream := ?L\<rparr>"
  have deliver: "(sample_serving [])\<lparr>sv_world := ls_deliver observe_bytes (sv_world (sample_serving []))\<rparr> = sample_serving observe_bytes"
    by (simp add: sample_serving_def serving_start_def ls_deliver_def Let_def)
  have "srv_has_observable (sv_server (sample_serving observe_bytes))"
    by (simp add: sample_serving_def serving_start_def sample_server_def Let_def)
  then have "(link_turn flag_lib ls_read ls_write ls_deliver 7 (ascii ''n'') [] observe_bytes (sample_serving [])
      :: ((unit, unit) server_error fault + unit) \<times> _) = (Inr (), sample_observing [])"
    using sample_turn_observe [OF sample_ok(3), of 7 "[]"] by (simp add: link_turn_def deliver act_bind_def)
  then have "?wr observe_bytes sample_link = (Inr (), ?L)"
    by (simp add: link_write_def sample_link_def no_wakes_def)
  then have send: "send_keyref_request ?wr OBSERVE 0 ?c = (Inr (), ?c1)"
    by (simp add: send_keyref_frame sample_frames on_stream_def trace_frame_def client_new_def)
  have at: "link_at ls_written (sample_observing []) 1 (client_stream ?c1)"
    by (simp add: link_at_def sample_link_def)
  have pend: "link_pending ls_written (client_stream ?c1) =
      concat (map (\<lambda>k. message_bytes (Changed k)) []) @ message_bytes (OrdinaryResponse Ok) @ []"
    by (simp add: link_pending_def sample_link_def sample_observing_def ls_written_def message_bytes_def)
  have wire: "wire_message NodeToClient (OrdinaryResponse Ok)" by (simp add: wire_message_def opcodes_of_def node_opcodes_def)
  obtain c' where c': "request_response (link_read ls_written) (send_keyref_request ?wr OBSERVE 0) OBSERVE ''OK'' select_ok ?c =
      Some (call_result OBSERVE ''OK'' select_ok (OrdinaryResponse Ok), c')"
    "link_at ls_written (sample_observing []) 1 (client_stream c')"
    using link.request_response_answered [where send = "send_keyref_request ?wr OBSERVE 0" and c = ?c and request = OBSERVE
        and expected = "''OK''" and select = select_ok, OF send wire _ _ at pend, of Message_Ok] by auto
  moreover have "(call_result OBSERVE ''OK'' select_ok (OrdinaryResponse Ok) :: unit client_error + unit) = Inr ()"
    by (simp add: call_result_def select_ok_def)
  ultimately show thesis by (intro that [of c']) (simp_all add: client_observe_def link_at_def)
qed

section \<open>Properties\<close>



text \<open>
  C14: \<open>list_keys\<close> of the client over a connection to an embassy server with distinct key
  references returns one entry per reference below the key count, in order: exactly the
  registered keys with their flags and names at their references, and nameless entries in the
  gaps. A key at reference 0xFFFF is never listed, for the key count saturates.
\<close>

theorem embassy_list_keys:
  assumes "embassy_link lib (read_exact :: (('g, 's) world, 're) reader) pending valid
      (write_all :: (('g, 's) world, 'we) writer) written deliver"
    and "link_idle lib pending valid written (client_stream c)" and "link_unread written (client_stream c) ks"
    and "node_id_ok nodeid" and "\<forall>n. quiet_wakes lib pending valid written (wakes n)"
    and "unique_keyrefs (srv_keys (link_server c))"
  shows "\<exists>infos c'. client_list_keys (link_read written) (link_write lib read_exact write_all deliver max_str nodeid wakes) c =
       Some (Inr infos, c') \<and> link_idle lib pending valid written (client_stream c')
     \<and> map info_keyref infos = keyrefs_below (key_count (link_server c))
     \<and> (\<forall>k \<in> set (srv_keys (link_server c)). key_keyref k \<noteq> 0xFFFF \<longrightarrow> listed k \<in> set infos)
     \<and> (\<forall>info \<in> set infos. info_name info \<noteq> [] \<longrightarrow> (\<exists>k \<in> set (srv_keys (link_server c)). info = listed k))
     \<and> 0xFFFF \<notin> info_keyref ` set infos"
proof -
  let ?srv = "link_server c"
  have "0xFFFF \<notin> set (map info_keyref (server_table ?srv))"
    using key_count_bounds(1) [of ?srv] by (auto simp: info_keyref_table keyrefs_below_iff)
  then have last: "0xFFFF \<notin> info_keyref ` set (server_table ?srv)" by simp
  obtain c' where "client_list_keys (link_read written) (link_write lib read_exact write_all deliver max_str nodeid wakes) c =
      Some (Inr (server_table ?srv), c')" "link_idle lib pending valid written (client_stream c')"
    using embassy_link.link_list_keys [OF assms(1-5), of max_str] by blast
  then show ?thesis
    using server_table_lists [OF assms(6)] server_table_only info_keyref_table last by blast
qed

lemma embassy_list_keys_witness:
  "\<exists>infos c'. client_list_keys (link_read ls_written)
         (link_write flag_lib ls_read ls_write ls_deliver 7 (ascii ''n'') wake_once) (client_new sample_link) =
       Some (Inr infos, c') \<and> listed sample_key \<in> set infos \<and> map info_keyref infos = [0]"
proof -
  have srv: "link_server (client_new sample_link) = sample_server" by (simp add: client_new_def sample_link_server)
  have keys: "srv_keys sample_server = [sample_key]" "key_keyref sample_key = 0" by (simp_all add: sample_server_def sample_key_def)
  have "keyrefs_below (key_count sample_server) = [0]"
    by (simp add: key_count_def keys u16_saturating_add_def keyrefs_below_def)
  with embassy_list_keys [where wakes = wake_once and c = "client_new sample_link" and max_str = 7,
      OF lsl.embassy_link_axioms sample_link_idle sample_ok(3) sample_wakes]
  show ?thesis unfolding srv keys by (auto simp: keys)
qed

text \<open>
  C9: after a successful \<open>observe\<close>, a change of the key by another task reaches the client: when
  the value differs in generation from the one last announced, the wait of the loop completes,
  the turn sends nothing but \<open>CHANGED\<close> frames, one of them for the key, and the client reads
  them; provided that no other task runs while the frames are written.
\<close>

theorem observed_change_reaches_client:
  assumes "embassy_link lib (read_exact :: (('g, 's) world, 're) reader) pending valid
      (write_all :: (('g, 's) world, 'we) writer) written deliver"
    and "link_idle lib pending valid written (client_stream c)" and "link_unread written (client_stream c) ks"
    and "node_id_ok nodeid" and "\<forall>n. quiet_wakes lib pending valid written (wakes n)"
    and "client_observe (link_read written) (link_write lib read_exact write_all deliver max_str nodeid wakes) k c =
       Some (Inr (), c1)"
    and "\<forall>bs w. w_server (snd (write_all bs w)) = w_server w"
    and "outcome_ok lib pending valid written sel" and "lossless pending sel"
    and "sel (sv_world (link_serving (client_stream c1))) = Some w" and "find_slot (link_server c1) k = Some i"
    and "key_generation (srv_keys (w_server w) ! i) \<noteq> sv_seen (link_serving (client_stream c1)) ! i"
  shows "\<exists>r' ks'. (serve_loop lib read_exact write_all max_str nodeid [sel] (link_serving (client_stream c1))
        :: (('re, 'we) server_error fault + unit) \<times> _) = (Inr (), r')
     \<and> link_unread written (client_stream (link_now r' c1)) ks' \<and> k \<in> set ks'
     \<and> (\<exists>c2. receive (link_read written) (length ks') (link_now r' c1) = (Inr (map Message_Changed ks'), c2))"
proof -
  obtain ks1 where c1: "i < length (srv_keys (link_server c1))" "key_observable (srv_keys (link_server c1) ! i)"
    "key_keyref (srv_keys (link_server c1) ! i) = k" "sv_observed (link_serving (client_stream c1)) ! i"
    "link_idle lib pending valid written (client_stream c1)" "link_unread written (client_stream c1) ks1"
    using embassy_link.link_observe [OF assms(1-6)] assms(11) by (metis option.inject)
  have waits: "server_waits lib pending valid (link_serving (client_stream c1))"
    and at: "link_at written (link_serving (client_stream c1)) (link_turns (client_stream c1)) (client_stream c1)"
    using c1(5) by (simp_all add: link_idle_def)
  have obs: "key_observable (sv_key (link_serving (client_stream c1)) i)" using c1(2) by (simp add: sv_key_def)
  obtain r' ks2 where r': "(serve_loop lib read_exact write_all max_str nodeid [sel] (link_serving (client_stream c1))
        :: (('re, 'we) server_error fault + unit) \<times> _) = (Inr (), r')" "server_waits lib pending valid r'"
    "written (sv_world r') = written (sv_world (link_serving (client_stream c1))) @ frames_of ks2"
    "key_keyref (sv_key (link_serving (client_stream c1)) i) \<in> set ks2"
    by (rule embassy_link.wake_announces [OF assms(1) waits assms(10,8,9,7) c1(1,4) obs assms(12)])
  have at': "link_at written r' (link_turns (client_stream c1)) (client_stream (link_now r' c1))"
    and unread: "link_unread written (client_stream (link_now r' c1)) (ks1 @ ks2)"
    using at c1(6) r'(3) by (simp_all add: link_now_def link_at_def link_unread_def link_pending_def frames_of_def)
  have "\<exists>c2. receive (link_read written) (length (ks1 @ ks2)) (link_now r' c1) = (Inr (map Message_Changed (ks1 @ ks2)), c2)"
    by (rule link.receive_changed [OF at']) (use unread in \<open>simp add: link_unread_def frames_of_def\<close>)
  then show ?thesis using r'(1,4) c1(3) unread by (intro exI [of _ r'] exI [of _ "ks1 @ ks2"]) (simp add: sv_key_def)
qed

lemma observed_change_reaches_client_witness:
  "\<exists>c1 r' ks'. client_observe (link_read ls_written)
         (link_write flag_lib ls_read ls_write ls_deliver 7 (ascii ''n'') no_wakes) 0 (client_new sample_link) = Some (Inr (), c1)
     \<and> (serve_loop flag_lib ls_read ls_write 7 (ascii ''n'') [key_set_meanwhile] (link_serving (client_stream c1))
          :: ((unit, unit) server_error fault + unit) \<times> _) = (Inr (), r')
     \<and> link_unread ls_written (client_stream (link_now r' c1)) ks' \<and> 0 \<in> set ks'
     \<and> (\<exists>c2. receive (link_read ls_written) (length ks') (link_now r' c1) = (Inr (map Message_Changed ks'), c2))"
proof -
  obtain c1 where c1: "client_observe (link_read ls_written)
      (link_write flag_lib ls_read ls_write ls_deliver 7 (ascii ''n'') no_wakes) 0 (client_new sample_link) = Some (Inr (), c1)"
    "link_serving (client_stream c1) = sample_observing []" by (rule sample_observe)
  let ?w = "(sv_world (sample_observing []))\<lparr>w_server := sample_updated\<rparr>"
  have still: "\<forall>bs w. w_server (snd (ls_write bs w)) = w_server w" by (simp add: ls_write_def)
  have sel: "key_set_meanwhile (sv_world (link_serving (client_stream c1))) = Some ?w"
    by (simp add: c1(2) key_set_meanwhile_def sample_observing_def)
  have slot: "find_slot (link_server c1) 0 = Some 0"
    by (simp add: c1(2) sample_observing_def sample_server_def find_slot_def sample_key_def)
  have gen: "key_generation (srv_keys (w_server ?w) ! 0) \<noteq> sv_seen (link_serving (client_stream c1)) ! 0"
    by (simp add: c1(2) sample_updated_eq sample_observing_def)
  have "\<exists>r' ks'. (serve_loop flag_lib ls_read ls_write 7 (ascii ''n'') [key_set_meanwhile] (link_serving (client_stream c1))
        :: ((unit, unit) server_error fault + unit) \<times> _) = (Inr (), r')
     \<and> link_unread ls_written (client_stream (link_now r' c1)) ks' \<and> 0 \<in> set ks'
     \<and> (\<exists>c2. receive (link_read ls_written) (length ks') (link_now r' c1) = (Inr (map Message_Changed ks'), c2))"
    by (rule observed_change_reaches_client [OF lsl.embassy_link_axioms sample_link_idle sample_ok(3) quiet_no_wakes c1(1) still
          key_set_meanwhile_ok sel slot gen])
  then show ?thesis using c1(1) by blast
qed

end
