(* ===== verification/Embassy_Derive.thy ===== *)
theory Embassy_Derive
  imports Embassy_Key
begin

text \<open>
  The derive macro \<open>Value\<close> of \<open>qup-embassy-proc/src/lib.rs\<close>, on the syntax trees \<open>syn\<close> hands to
  it: which enums it accepts, with which error it rejects the others, and the implementation it
  emits, whose operations are the \<open>enum_*\<close> definitions of \<open>Embassy_Value\<close>. \<open>to_snake_case\<close> of
  the crate \<open>heck\<close> is a parameter.
\<close>

section \<open>The input\<close>

text \<open>
  A nested meta item is a path with what follows it; \<open>attr_error\<close> says that \<open>syn\<close> reports an
  error of its own after the items it could parse.
\<close>

datatype meta_tail = NoTail | EqStr rstr | EqOther

datatype nested_meta = Meta rstr meta_tail

record attribute =
  attr_path :: rstr
  attr_metas :: "nested_meta list"
  attr_error :: bool

datatype fields_kind = UnitFields | NamedFields | UnnamedFields

record variant =
  variant_ident :: rstr
  variant_fields :: fields_kind
  variant_attrs :: "attribute list"

datatype derive_data = EnumData "variant list" | StructData | UnionData

datatype derive_error =
    OnlyEnums | NoVariants | MultipleDefaults rstr
  | NotUnit | DuplicateWireName rstr
  | DuplicateNameAttr | DefaultTakesNoValue | DuplicateDefaultAttr | UnsupportedAttr
  | EmptyWireName | NulInWireName | WireNameTooLong
  | SynError

record parsed_attributes =
  pa_wire_name :: rstr
  pa_is_default :: bool

record parsed_variant =
  pv_ident :: rstr
  pv_wire_name :: rstr
  pv_is_default :: bool

text \<open>What the emitted implementation consists of: the default, the length and the match arms.\<close>

record value_impl =
  impl_default :: rstr
  impl_max_str_len :: nat
  impl_arms :: "(rstr \<times> rstr) list"

section \<open>The macro\<close>

definition validate_wire_name :: "rstr \<Rightarrow> derive_error + unit" where
  "validate_wire_name v =
     (if v = [] then Inl EmptyWireName
      else if 0x00 \<in> set v then Inl NulInWireName
      else if 65535 < length v then Inl WireNameTooLong
      else Inr ())"

text \<open>The closure given to \<open>parse_nested_meta\<close>, over \<open>override_name\<close> and \<open>is_default\<close>.\<close>

fun parse_meta :: "nested_meta \<Rightarrow> rstr option \<times> bool \<Rightarrow> derive_error + (rstr option \<times> bool)" where
  "parse_meta (Meta path tail) (override_name, is_default) =
     (if path = ascii ''name'' then
        (case tail of
           EqStr v \<Rightarrow> if override_name \<noteq> None then Inl DuplicateNameAttr else Inr (Some v, is_default)
         | _ \<Rightarrow> Inl SynError)
      else if path = ascii ''default'' then
        (if tail \<noteq> NoTail then Inl DefaultTakesNoValue
         else if is_default then Inl DuplicateDefaultAttr
         else Inr (override_name, True))
      else Inl UnsupportedAttr)"

fun parse_metas :: "nested_meta list \<Rightarrow> rstr option \<times> bool \<Rightarrow> derive_error + (rstr option \<times> bool)" where
  "parse_metas [] s = Inr s"
| "parse_metas (meta # metas) s = res_bind (parse_meta meta s) (parse_metas metas)"

fun parse_attrs :: "attribute list \<Rightarrow> rstr option \<times> bool \<Rightarrow> derive_error + (rstr option \<times> bool)" where
  "parse_attrs [] s = Inr s"
| "parse_attrs (attr # attrs) s =
     (if attr_path attr \<noteq> ascii ''qup'' then parse_attrs attrs s
      else res_bind (parse_metas (attr_metas attr) s)
        (\<lambda>s'. if attr_error attr then Inl SynError else parse_attrs attrs s'))"

definition parse_variant_attributes :: "(rstr \<Rightarrow> rstr) \<Rightarrow> variant \<Rightarrow> derive_error + parsed_attributes" where
  "parse_variant_attributes to_snake_case variant =
     res_bind (parse_attrs (variant_attrs variant) (None, False)) (\<lambda>(override_name, is_default).
       let wire_name = (case override_name of Some v \<Rightarrow> v | None \<Rightarrow> to_snake_case (variant_ident variant))
       in res_bind (validate_wire_name wire_name)
            (\<lambda>_. Inr \<lparr>pa_wire_name = wire_name, pa_is_default = is_default\<rparr>))"

definition parse_variant ::
  "(rstr \<Rightarrow> rstr) \<Rightarrow> variant \<Rightarrow> rstr set \<Rightarrow> derive_error + (parsed_variant \<times> rstr set)" where
  "parse_variant to_snake_case variant seen_wire_names =
     (if variant_fields variant \<noteq> UnitFields then Inl NotUnit
      else res_bind (parse_variant_attributes to_snake_case variant) (\<lambda>attributes.
        let wire_name = pa_wire_name attributes in
        if wire_name \<in> seen_wire_names then Inl (DuplicateWireName wire_name)
        else Inr (\<lparr>pv_ident = variant_ident variant, pv_wire_name = wire_name,
                    pv_is_default = pa_is_default attributes\<rparr>,
                  insert wire_name seen_wire_names)))"

fun parse_variants :: "(rstr \<Rightarrow> rstr) \<Rightarrow> variant list \<Rightarrow> rstr set \<Rightarrow> derive_error + parsed_variant list" where
  "parse_variants to_snake_case [] seen = Inr []"
| "parse_variants to_snake_case (v # vs) seen =
     res_bind (parse_variant to_snake_case v seen) (\<lambda>(pv, seen').
     res_bind (parse_variants to_snake_case vs seen') (\<lambda>pvs. Inr (pv # pvs)))"

text \<open>The loop that looks for \<open>#[qup(default)]\<close>.\<close>

fun select_default :: "parsed_variant list \<Rightarrow> rstr \<times> bool \<Rightarrow> derive_error + rstr" where
  "select_default [] (default_variant, found) = Inr default_variant"
| "select_default (v # vs) (default_variant, found) =
     (if \<not> pv_is_default v then select_default vs (default_variant, found)
      else if found then Inl (MultipleDefaults (pv_ident v))
      else select_default vs (pv_ident v, True))"

definition build_enum_impl :: "(rstr \<Rightarrow> rstr) \<Rightarrow> variant list \<Rightarrow> derive_error + value_impl" where
  "build_enum_impl to_snake_case enum_variants =
     (if enum_variants = [] then Inl NoVariants
      else res_bind (parse_variants to_snake_case enum_variants {}) (\<lambda>variants.
        res_bind (select_default variants (pv_ident (hd variants), False)) (\<lambda>default_variant.
          Inr \<lparr>impl_default = default_variant,
               impl_max_str_len = fold max (map (\<lambda>v. length (pv_wire_name v)) variants) 0,
               impl_arms = map (\<lambda>v. (pv_ident v, pv_wire_name v)) variants\<rparr>)))"

definition expand_value_derive :: "(rstr \<Rightarrow> rstr) \<Rightarrow> derive_data \<Rightarrow> derive_error + value_impl" where
  "expand_value_derive to_snake_case data =
     (case data of EnumData variants \<Rightarrow> build_enum_impl to_snake_case variants | _ \<Rightarrow> Inl OnlyEnums)"

section \<open>Specification\<close>

text \<open>The meta items of the \<open>qup\<close> attributes of a variant, the names and the default marks they give.\<close>

definition qup_attrs :: "attribute list \<Rightarrow> attribute list" where
  "qup_attrs = filter (\<lambda>a. attr_path a = ascii ''qup'')"

definition qup_metas :: "attribute list \<Rightarrow> nested_meta list" where
  "qup_metas attrs = concat (map attr_metas (qup_attrs attrs))"

fun meta_ok :: "nested_meta \<Rightarrow> bool" where
  "meta_ok (Meta path tail) \<longleftrightarrow>
     path = ascii ''name'' \<and> (\<exists>v. tail = EqStr v) \<or> path = ascii ''default'' \<and> tail = NoTail"

fun meta_names :: "nested_meta \<Rightarrow> rstr list" where
  "meta_names (Meta path (EqStr v)) = (if path = ascii ''name'' then [v] else [])"
| "meta_names (Meta path _) = []"

fun meta_marks :: "nested_meta \<Rightarrow> nat" where
  "meta_marks (Meta path tail) = (if path = ascii ''default'' then 1 else 0)"

definition given_names :: "nested_meta list \<Rightarrow> rstr list" where
  "given_names ms = concat (map meta_names ms)"

definition default_marks :: "nested_meta list \<Rightarrow> nat" where
  "default_marks ms = sum_list (map meta_marks ms)"

definition wire_name_of :: "(rstr \<Rightarrow> rstr) \<Rightarrow> variant \<Rightarrow> rstr" where
  "wire_name_of to_snake_case v =
     (case given_names (qup_metas (variant_attrs v)) of [] \<Rightarrow> to_snake_case (variant_ident v) | n # _ \<Rightarrow> n)"

definition marked_default :: "variant \<Rightarrow> bool" where
  "marked_default v \<longleftrightarrow> default_marks (qup_metas (variant_attrs v)) \<noteq> 0"

definition attrs_ok :: "attribute list \<Rightarrow> bool" where
  "attrs_ok attrs \<longleftrightarrow> (\<forall>a \<in> set (qup_attrs attrs). \<not> attr_error a) \<and> (\<forall>m \<in> set (qup_metas attrs). meta_ok m)
     \<and> length (given_names (qup_metas attrs)) \<le> 1 \<and> default_marks (qup_metas attrs) \<le> 1"

definition variant_ok :: "(rstr \<Rightarrow> rstr) \<Rightarrow> variant \<Rightarrow> bool" where
  "variant_ok to_snake_case v \<longleftrightarrow> variant_fields v = UnitFields \<and> attrs_ok (variant_attrs v)
     \<and> wire_name_of to_snake_case v \<noteq> [] \<and> 0 \<notin> set (wire_name_of to_snake_case v)
     \<and> length (wire_name_of to_snake_case v) \<le> 65535"

definition enum_ok :: "(rstr \<Rightarrow> rstr) \<Rightarrow> variant list \<Rightarrow> bool" where
  "enum_ok to_snake_case vs \<longleftrightarrow> vs \<noteq> [] \<and> (\<forall>v \<in> set vs. variant_ok to_snake_case v)
     \<and> distinct (map (wire_name_of to_snake_case) vs) \<and> length (filter marked_default vs) \<le> 1"

definition default_of :: "variant list \<Rightarrow> rstr" where
  "default_of vs = variant_ident (case filter marked_default vs of [] \<Rightarrow> hd vs | v # _ \<Rightarrow> v)"

section \<open>Lemmas\<close>

definition opt_list :: "'a option \<Rightarrow> 'a list" where
  "opt_list o' = (case o' of None \<Rightarrow> [] | Some x \<Rightarrow> [x])"

lemma opt_list_simps [simp]:
  "opt_list None = []" "opt_list (Some x) = [x]" "opt_list o' = [] \<longleftrightarrow> o' = None" "opt_list o' = [x] \<longleftrightarrow> o' = Some x"
  by (auto simp: opt_list_def split: option.splits)

lemma keywords_distinct: "ascii ''name'' \<noteq> ascii ''default''"
  by (simp add: ascii_def)

lemma parse_meta_Inr:
  "parse_meta m (nm, d) = Inr (nm', d') \<longleftrightarrow> meta_ok m \<and> opt_list nm' = opt_list nm @ meta_names m
     \<and> (of_bool d' :: nat) = of_bool d + meta_marks m"
  using keywords_distinct
  by (cases "(m, nm, d)" rule: parse_meta.cases) (auto split: meta_tail.splits if_splits option.splits simp: opt_list_def of_bool_def)

lemma parse_metas_Inr:
  "parse_metas ms (nm, d) = Inr (nm', d') \<longleftrightarrow> (\<forall>m \<in> set ms. meta_ok m) \<and> opt_list nm' = opt_list nm @ given_names ms
     \<and> (of_bool d' :: nat) = of_bool d + default_marks ms"
proof (induction ms arbitrary: nm d)
  case (Cons m ms)
  show ?case
  proof
    assume "parse_metas (m # ms) (nm, d) = Inr (nm', d')"
    then obtain nm1 d1 where "parse_meta m (nm, d) = Inr (nm1, d1)" "parse_metas ms (nm1, d1) = Inr (nm', d')"
      by (auto simp: res_bind_eq_Inr)
    then show "(\<forall>m \<in> set (m # ms). meta_ok m) \<and> opt_list nm' = opt_list nm @ given_names (m # ms)
        \<and> (of_bool d' :: nat) = of_bool d + default_marks (m # ms)"
      unfolding parse_meta_Inr Cons.IH by (simp add: given_names_def default_marks_def)
  next
    assume a: "(\<forall>m \<in> set (m # ms). meta_ok m) \<and> opt_list nm' = opt_list nm @ given_names (m # ms)
        \<and> (of_bool d' :: nat) = of_bool d + default_marks (m # ms)"
    define names where "names = opt_list nm @ meta_names m"
    have "length names \<le> 1" using arg_cong [of _ _ length, OF conjunct1 [OF conjunct2 [OF a]]]
      by (cases nm') (simp_all add: names_def given_names_def opt_list_def)
    then obtain nm1 where nm1: "opt_list nm1 = names"
      by (cases names) (auto intro: that [of None] that [of "Some x" for x])
    have "(of_bool d :: nat) + meta_marks m \<le> 1" using a by (cases d') (auto simp: default_marks_def)
    then obtain d1 where d1: "(of_bool d1 :: nat) = of_bool d + meta_marks m"
      by (cases "of_bool d + meta_marks m = 0") (auto intro: that [of False] that [of True])
    have "parse_meta m (nm, d) = Inr (nm1, d1)" using a nm1 d1 by (simp add: parse_meta_Inr names_def)
    moreover have "parse_metas ms (nm1, d1) = Inr (nm', d')"
      unfolding Cons.IH using a nm1 d1 by (simp add: names_def given_names_def default_marks_def)
    ultimately show "parse_metas (m # ms) (nm, d) = Inr (nm', d')" by simp
  qed
qed (auto simp: given_names_def default_marks_def opt_list_def of_bool_def split: option.splits if_splits)

lemma parse_metas_append: "parse_metas (ms @ ms') s = res_bind (parse_metas ms s) (parse_metas ms')"
proof (induction ms arbitrary: s)
  case (Cons m ms)
  then show ?case by (cases "parse_meta m s") simp_all
qed simp

lemma parse_attrs_Inr:
  "parse_attrs attrs s = Inr s' \<longleftrightarrow> (\<forall>a \<in> set (qup_attrs attrs). \<not> attr_error a) \<and> parse_metas (qup_metas attrs) s = Inr s'"
proof (induction attrs arbitrary: s)
  case (Cons a attrs)
  show ?case
  proof (cases "attr_path a = ascii ''qup''")
    case True
    then show ?thesis using Cons
      by (auto simp: qup_attrs_def qup_metas_def parse_metas_append res_bind_eq_Inr)
  next
    case False
    then show ?thesis using Cons by (simp add: qup_attrs_def qup_metas_def)
  qed
qed (simp add: qup_attrs_def qup_metas_def)

lemma validate_wire_name_Inr: "validate_wire_name v = Inr () \<longleftrightarrow> v \<noteq> [] \<and> 0 \<notin> set v \<and> length v \<le> 65535"
  by (auto simp: validate_wire_name_def)

lemma parse_variant_attributes_Inr:
  "parse_variant_attributes to_snake_case v = Inr pa \<longleftrightarrow> attrs_ok (variant_attrs v)
     \<and> validate_wire_name (wire_name_of to_snake_case v) = Inr ()
     \<and> pa = \<lparr>pa_wire_name = wire_name_of to_snake_case v, pa_is_default = marked_default v\<rparr>"
proof -
  let ?ms = "qup_metas (variant_attrs v)"
  have parse: "parse_attrs (variant_attrs v) (None, False) = Inr (nm, d) \<longleftrightarrow> attrs_ok (variant_attrs v)
      \<and> nm = (case given_names ?ms of [] \<Rightarrow> None | n # _ \<Rightarrow> Some n) \<and> d = marked_default v" for nm d
  proof -
    have "opt_list nm = given_names ?ms \<longleftrightarrow> length (given_names ?ms) \<le> 1
        \<and> nm = (case given_names ?ms of [] \<Rightarrow> None | n # _ \<Rightarrow> Some n)"
      by (cases "given_names ?ms"; cases nm) auto
    moreover have "(of_bool d :: nat) = default_marks ?ms \<longleftrightarrow> default_marks ?ms \<le> 1 \<and> d = marked_default v"
      by (cases d) (auto simp: marked_default_def)
    ultimately show ?thesis unfolding parse_attrs_Inr parse_metas_Inr attrs_ok_def by auto
  qed
  have name: "(case (case given_names ?ms of [] \<Rightarrow> None | n # _ \<Rightarrow> Some n) of Some v \<Rightarrow> v | None \<Rightarrow> to_snake_case (variant_ident v))
      = wire_name_of to_snake_case v"
    by (simp add: wire_name_of_def split: list.split)
  show ?thesis
    unfolding parse_variant_attributes_def res_bind_eq_Inr Let_def
    by (simp add: parse split_paired_Ex name res_bind_eq_Inr) auto
qed

definition parsed_of :: "(rstr \<Rightarrow> rstr) \<Rightarrow> variant \<Rightarrow> parsed_variant" where
  "parsed_of to_snake_case v = \<lparr>pv_ident = variant_ident v, pv_wire_name = wire_name_of to_snake_case v,
     pv_is_default = marked_default v\<rparr>"

lemma parse_variant_Inr:
  "parse_variant to_snake_case v seen = Inr (pv, seen') \<longleftrightarrow> variant_ok to_snake_case v
     \<and> wire_name_of to_snake_case v \<notin> seen \<and> pv = parsed_of to_snake_case v
     \<and> seen' = insert (wire_name_of to_snake_case v) seen"
  unfolding parse_variant_def variant_ok_def parsed_of_def
  by (auto simp: res_bind_eq_Inr parse_variant_attributes_Inr validate_wire_name_Inr Let_def)

lemma parse_variants_Inr:
  "parse_variants to_snake_case vs seen = Inr pvs \<longleftrightarrow> (\<forall>v \<in> set vs. variant_ok to_snake_case v)
     \<and> distinct (map (wire_name_of to_snake_case) vs) \<and> set (map (wire_name_of to_snake_case) vs) \<inter> seen = {}
     \<and> pvs = map (parsed_of to_snake_case) vs"
proof (induction vs arbitrary: seen pvs)
  case (Cons v vs)
  show ?case by (auto simp: res_bind_eq_Inr parse_variant_Inr Cons.IH split_paired_Ex)
qed auto

lemma select_default_Inr:
  "select_default pvs (d, found) = Inr d' \<longleftrightarrow> length (filter pv_is_default pvs) + of_bool found \<le> 1
     \<and> d' = (case filter pv_is_default pvs of [] \<Rightarrow> d | v # _ \<Rightarrow> pv_ident v)"
proof (induction pvs arbitrary: d found)
  case (Cons v pvs)
  then show ?case by (cases "filter pv_is_default pvs") auto
qed auto

lemma build_enum_impl_Inr:
  "build_enum_impl to_snake_case vs = Inr d \<longleftrightarrow> enum_ok to_snake_case vs
     \<and> d = \<lparr>impl_default = default_of vs,
           impl_max_str_len = enum_MAX_STR_LEN (map (wire_name_of to_snake_case) vs),
           impl_arms = map (\<lambda>v. (variant_ident v, wire_name_of to_snake_case v)) vs\<rparr>"
proof (cases "vs = []")
  case False
  let ?pvs = "map (parsed_of to_snake_case) vs"
  have marks: "filter pv_is_default ?pvs = map (parsed_of to_snake_case) (filter marked_default vs)"
    by (simp add: filter_map parsed_of_def comp_def)
  have default: "(case map (parsed_of to_snake_case) (filter marked_default vs) of [] \<Rightarrow> pv_ident (hd ?pvs) | v # _ \<Rightarrow> pv_ident v) = default_of vs"
    using False by (cases "filter marked_default vs") (simp_all add: marks default_of_def hd_map parsed_of_def)
  have fields: "map (\<lambda>v. length (pv_wire_name v)) ?pvs = map length (map (wire_name_of to_snake_case) vs)"
    "map (\<lambda>v. (pv_ident v, pv_wire_name v)) ?pvs = map (\<lambda>v. (variant_ident v, wire_name_of to_snake_case v)) vs"
    by (simp_all add: parsed_of_def)
  show ?thesis
    unfolding build_enum_impl_def enum_ok_def enum_MAX_STR_LEN_def
    by (auto simp: False res_bind_eq_Inr parse_variants_Inr select_default_Inr default fields marks simp del: map_map list.map_comp)
qed (simp add: build_enum_impl_def enum_ok_def)

section \<open>Properties\<close>

text \<open>
  C22: the derive macro accepts exactly the enums with at least one variant, only unit variants,
  well-formed \<open>qup\<close> attributes, distinct wire names that are not empty, contain no NUL and fit a
  \<open>str16\<close>, and at most one default; the implementation it emits maps each variant to its
  explicit name or else to its identifier in snake case, takes the marked or else the first
  variant as the default, and announces the length of the longest name.
\<close>

theorem derive_accepts:
  "expand_value_derive to_snake_case data = Inr d \<longleftrightarrow>
     (\<exists>vs. data = EnumData vs \<and> enum_ok to_snake_case vs
        \<and> d = \<lparr>impl_default = default_of vs,
              impl_max_str_len = enum_MAX_STR_LEN (map (wire_name_of to_snake_case) vs),
              impl_arms = map (\<lambda>v. (variant_ident v, wire_name_of to_snake_case v)) vs\<rparr>)"
  by (cases data) (simp_all add: expand_value_derive_def build_enum_impl_Inr)

text \<open>
  The implementation emitted for an enum whose names are UTF-8, as Rust strings are, is a
  value type of the server: the key type with its wire names and the index of its default
  variant is well formed, so that every value round trips through its encoding.
\<close>

lemma derived_type_ok:
  assumes "expand_value_derive to_snake_case data = Inr d" and "\<forall>(_, name) \<in> set (impl_arms d). is_utf8 name"
  shows "\<exists>i. position (\<lambda>arm. fst arm = impl_default d) (impl_arms d) = Some i
     \<and> type_ok (EnumT (map snd (impl_arms d)) i)
     \<and> type_MAX_STR_LEN (EnumT (map snd (impl_arms d)) i) = impl_max_str_len d"
proof -
  obtain vs where vs: "data = EnumData vs" using assms(1) by (cases data) (simp_all add: expand_value_derive_def)
  with assms(1) have ok: "enum_ok to_snake_case vs"
    and d: "d = \<lparr>impl_default = default_of vs, impl_max_str_len = enum_MAX_STR_LEN (map (wire_name_of to_snake_case) vs),
        impl_arms = map (\<lambda>v. (variant_ident v, wire_name_of to_snake_case v)) vs\<rparr>"
    by (simp_all add: expand_value_derive_def build_enum_impl_Inr)
  have names: "map snd (impl_arms d) = map (wire_name_of to_snake_case) vs" by (simp add: d comp_def)
  have "derived_names_ok (map snd (impl_arms d))"
    using ok assms(2) unfolding names by (auto simp: derived_names_ok_def enum_ok_def variant_ok_def wf_str_def d)
  moreover obtain v where "v \<in> set vs" "default_of vs = variant_ident v"
  proof (cases "filter marked_default vs")
    case Nil
    then show thesis using that [of "hd vs"] ok by (simp add: default_of_def enum_ok_def)
  next
    case (Cons v us)
    then have "v \<in> set vs" by (auto simp: filter_eq_Cons_iff)
    moreover have "default_of vs = variant_ident v" by (simp add: default_of_def Cons)
    ultimately show thesis by (rule that)
  qed
  then obtain i where i: "position (\<lambda>arm. fst arm = impl_default d) (impl_arms d) = Some i"
    by (cases "position (\<lambda>arm. fst arm = impl_default d) (impl_arms d)") (auto simp: position_None d)
  then have "i < length (map snd (impl_arms d))" by (simp add: position_Some)
  moreover have "type_MAX_STR_LEN (EnumT (map snd (impl_arms d)) i) = impl_max_str_len d"
    unfolding names by (simp add: d)
  ultimately show ?thesis using i by auto
qed

definition sample_enum :: derive_data where
  "sample_enum = EnumData
     [\<lparr>variant_ident = ascii ''Off'', variant_fields = UnitFields, variant_attrs = []\<rparr>,
      \<lparr>variant_ident = ascii ''EnablePartial'', variant_fields = UnitFields,
       variant_attrs = [\<lparr>attr_path = ascii ''qup'',
         attr_metas = [Meta (ascii ''default'') NoTail, Meta (ascii ''name'') (EqStr (ascii ''partial''))], attr_error = False\<rparr>]\<rparr>]"

lemma sample_enum_impl:
  "expand_value_derive (\<lambda>_. ascii ''off'') sample_enum =
     Inr \<lparr>impl_default = ascii ''EnablePartial'', impl_max_str_len = 7,
       impl_arms = [(ascii ''Off'', ascii ''off''), (ascii ''EnablePartial'', ascii ''partial'')]\<rparr>"
  by (simp add: sample_enum_def expand_value_derive_def build_enum_impl_def parse_variant_def parse_variant_attributes_def
      validate_wire_name_def ascii_def Let_def)

lemma derived_type_ok_witness:
  "\<exists>i. position (\<lambda>arm. fst arm = ascii ''EnablePartial'') [(ascii ''Off'', ascii ''off''), (ascii ''EnablePartial'', ascii ''partial'')] = Some i
     \<and> type_ok (EnumT [ascii ''off'', ascii ''partial''] i)"
  using derived_type_ok [OF sample_enum_impl] by (auto simp: is_utf8_ascii ascii_def)

end
