(* ===== verification/Std_Text.thy ===== *)
theory Std_Text
  imports Client
begin

text \<open>
  What the tools use of Rust strings: a \<open>String\<close> that is edited as the sequence of its
  characters, each given by its UTF-8 bytes, \<open>str::trim\<close>, and parsing and printing of integers
  in decimal. Printing and then parsing gives the number back.
\<close>

section \<open>Characters and strings\<close>

type_synonym rchar = bytes
type_synonym rtext = "rchar list"

text \<open>The characters of an ASCII string.\<close>

definition ascii_chars :: "rstr \<Rightarrow> rtext" where "ascii_chars s = map (\<lambda>b. [b]) s"

text \<open>\<open>as_bytes\<close>.\<close>

definition text_bytes :: "rtext \<Rightarrow> rstr" where "text_bytes t = concat t"

text \<open>The characters with the Unicode property White_Space.\<close>

definition whitespace :: "rchar list" where
  "whitespace =
     [[0x09], [0x0A], [0x0B], [0x0C], [0x0D], [0x20], [0xC2, 0x85], [0xC2, 0xA0], [0xE1, 0x9A, 0x80]]
     @ map (\<lambda>b. [0xE2, 0x80, b]) [0x80, 0x81, 0x82, 0x83, 0x84, 0x85, 0x86, 0x87, 0x88, 0x89, 0x8A, 0xA8, 0xA9, 0xAF]
     @ [[0xE2, 0x81, 0x9F], [0xE3, 0x80, 0x80]]"

definition is_whitespace :: "rchar \<Rightarrow> bool" where "is_whitespace c \<longleftrightarrow> c \<in> set whitespace"

definition trim :: "rtext \<Rightarrow> rtext" where
  "trim t = rev (dropWhile is_whitespace (rev (dropWhile is_whitespace t)))"

section \<open>Integers in decimal\<close>

definition digit_of :: "u8 \<Rightarrow> nat option" where
  "digit_of b = (if 0x30 \<le> b \<and> b \<le> 0x39 then Some (unat b - 48) else None)"

definition is_ascii_digit :: "rchar \<Rightarrow> bool" where
  "is_ascii_digit c = (case c of [b] \<Rightarrow> digit_of b \<noteq> None | _ \<Rightarrow> False)"

datatype int_error_kind = EmptyInt | InvalidDigit | PosOverflow | NegOverflow

definition int_error_display :: "int_error_kind \<Rightarrow> rstr" where
  "int_error_display e = (case e of
     EmptyInt \<Rightarrow> ascii ''cannot parse integer from empty string''
   | InvalidDigit \<Rightarrow> ascii ''invalid digit found in string''
   | PosOverflow \<Rightarrow> ascii ''number too large to fit in target type''
   | NegOverflow \<Rightarrow> ascii ''number too small to fit in target type'')"

text \<open>
  \<open>from_str_radix\<close> for 10: the digits are accumulated with checked operations in the range
  \<open>lo\<close> to \<open>hi\<close> of the type, downwards after a minus sign.
\<close>

fun parse_digits :: "int \<Rightarrow> int \<Rightarrow> bool \<Rightarrow> rstr \<Rightarrow> int \<Rightarrow> int_error_kind + int" where
  "parse_digits lo hi negative [] acc = Inr acc"
| "parse_digits lo hi negative (c # cs) acc =
     (case digit_of c of
        None \<Rightarrow> Inl InvalidDigit
      | Some d \<Rightarrow>
          let shifted = acc * 10; acc' = (if negative then shifted - int d else shifted + int d) in
          if shifted < lo \<or> acc' < lo then Inl NegOverflow
          else if hi < shifted \<or> hi < acc' then Inl PosOverflow
          else parse_digits lo hi negative cs acc')"

definition parse_int :: "int \<Rightarrow> int \<Rightarrow> rstr \<Rightarrow> int_error_kind + int" where
  "parse_int lo hi t =
     (case t of
        [] \<Rightarrow> Inl EmptyInt
      | c # cs \<Rightarrow>
          if cs = [] \<and> (c = 0x2B \<or> c = 0x2D) then Inl InvalidDigit
          else if c = 0x2B then parse_digits lo hi False cs 0
          else if c = 0x2D \<and> lo < 0 then parse_digits lo hi True cs 0
          else parse_digits lo hi False t 0)"

definition parse_i64 :: "rstr \<Rightarrow> int_error_kind + i64" where
  "parse_i64 t = res_map word_of_int (parse_int (- (2 ^ 63)) (2 ^ 63 - 1) t)"

definition parse_u16 :: "rstr \<Rightarrow> int_error_kind + u16" where
  "parse_u16 t = res_map word_of_int (parse_int 0 65535 t)"

definition digit_char :: "nat \<Rightarrow> u8" where "digit_char d = word_of_nat (48 + d)"

fun text_of_nat :: "nat \<Rightarrow> rstr" where
  "text_of_nat n = (if n < 10 then [digit_char n] else text_of_nat (n div 10) @ [digit_char (n mod 10)])"

declare text_of_nat.simps [simp del]

definition text_of_int :: "int \<Rightarrow> rstr" where
  "text_of_int i = (if i < 0 then 0x2D # text_of_nat (nat (- i)) else text_of_nat (nat i))"

definition text_of_i64 :: "i64 \<Rightarrow> rstr" where "text_of_i64 w = text_of_int (sint w)"

section \<open>Lemmas\<close>

lemma digit_of_digit_char: "d < 10 \<Longrightarrow> digit_of (digit_char d) = Some d"
proof -
  assume d: "d < 10"
  then have "unat (word_of_nat (48 + d) :: u8) = 48 + d"
    by (simp only: unat_of_nat) simp
  then show ?thesis using d by (simp add: digit_of_def digit_char_def word_le_nat_alt)
qed

lemma digit_char_sign: "d < 10 \<Longrightarrow> digit_char d \<noteq> 0x2B \<and> digit_char d \<noteq> 0x2D"
  using digit_of_digit_char [of d] by (auto simp: digit_of_def word_le_nat_alt)

lemma text_of_nat_not_Nil: "text_of_nat n \<noteq> []"
  by (subst text_of_nat.simps) simp

lemma text_of_nat_hd: "hd (text_of_nat n) \<noteq> 0x2B \<and> hd (text_of_nat n) \<noteq> 0x2D"
proof (induction n rule: text_of_nat.induct)
  case (1 n)
  then show ?case using digit_char_sign text_of_nat_not_Nil [of "n div 10"]
    by (subst (1 2) text_of_nat.simps) (simp add: hd_append)
qed

lemma parse_digits_up:
  "lo \<le> 0 \<Longrightarrow> int n \<le> hi \<Longrightarrow> parse_digits lo hi False (text_of_nat n @ cs) 0 = parse_digits lo hi False cs (int n)"
proof (induction n arbitrary: cs rule: text_of_nat.induct)
  case (1 n)
  show ?case
  proof (cases "n < 10")
    case True
    then show ?thesis using 1(2,3) by (subst text_of_nat.simps) (simp add: digit_of_digit_char)
  next
    case False
    have split: "int n = int (n div 10) * 10 + int (n mod 10)" by presburger
    have "parse_digits lo hi False (text_of_nat n @ cs) 0 =
        parse_digits lo hi False (digit_char (n mod 10) # cs) (int (n div 10))"
      using False 1(1) [OF False 1(2), of "digit_char (n mod 10) # cs"] 1(3)
      by (subst text_of_nat.simps) simp
    also have "\<dots> = parse_digits lo hi False cs (int n)"
      using 1(2,3) split by (simp add: digit_of_digit_char Let_def del: of_nat_div of_nat_mod)
    finally show ?thesis .
  qed
qed

lemma parse_digits_down:
  "lo \<le> - int n \<Longrightarrow> 0 \<le> hi \<Longrightarrow> parse_digits lo hi True (text_of_nat n @ cs) 0 = parse_digits lo hi True cs (- int n)"
proof (induction n arbitrary: cs rule: text_of_nat.induct)
  case (1 n)
  show ?case
  proof (cases "n < 10")
    case True
    then show ?thesis using 1(2,3) by (subst text_of_nat.simps) (simp add: digit_of_digit_char)
  next
    case False
    have split: "int n = int (n div 10) * 10 + int (n mod 10)" by presburger
    have "parse_digits lo hi True (text_of_nat n @ cs) 0 =
        parse_digits lo hi True (digit_char (n mod 10) # cs) (- int (n div 10))"
      using False 1(1) [OF False _ 1(3), of "digit_char (n mod 10) # cs"] 1(2)
      by (subst text_of_nat.simps) simp
    also have "\<dots> = parse_digits lo hi True cs (- int n)"
      using 1(2,3) split by (simp add: digit_of_digit_char Let_def del: of_nat_div of_nat_mod)
    finally show ?thesis .
  qed
qed

lemma parse_int_of_int:
  assumes "lo \<le> i" and "i \<le> hi" and "lo \<le> 0" and "0 \<le> hi"
  shows "parse_int lo hi (text_of_int i) = Inr i"
proof (cases "i < 0")
  case True
  then show ?thesis
    using assms parse_digits_down [of lo "nat (- i)" hi "[]"] text_of_nat_not_Nil [of "nat (- i)"]
    by (simp add: parse_int_def text_of_int_def)
next
  case False
  then obtain c cs where t: "text_of_nat (nat i) = c # cs" by (cases "text_of_nat (nat i)") (simp_all add: text_of_nat_not_Nil)
  then have "c \<noteq> 0x2B \<and> c \<noteq> 0x2D" using text_of_nat_hd [of "nat i"] by simp
  then show ?thesis
    using False assms parse_digits_up [of lo "nat i" hi "[]"] t by (simp add: parse_int_def text_of_int_def)
qed

lemma parse_i64_of_i64: "parse_i64 (text_of_i64 w) = Inr w"
proof -
  have "- (2 ^ 63) \<le> sint w" "sint w \<le> 2 ^ 63 - 1"
    using sint_greater_eq [of w] sint_less [of w] by simp_all
  then have "parse_int (- (2 ^ 63)) (2 ^ 63 - 1) (text_of_int (sint w)) = Inr (sint w)"
    by (intro parse_int_of_int) simp_all
  then show ?thesis by (simp add: parse_i64_def text_of_i64_def)
qed

end
