(* ===== verification/Std_Escape.thy ===== *)
theory Std_Escape
  imports Std_Text
begin

text \<open>
  Formatting of the standard library as the tools use it: \<open>str::chars\<close>, \<open>escape_debug\<close> and the
  \<open>Debug\<close> form of strings, and hexadecimal numbers. Which characters outside ASCII are
  printable, and which extend a grapheme, is decided by Unicode tables of the library: they are
  a parameter. The lemmas show that an escaped string has no control characters, so that it
  cannot break out of the line or the field it is printed in.
\<close>

section \<open>Characters of a string\<close>

text \<open>The number of bytes that follow the first byte of a character, as \<open>chars\<close> reads them.\<close>

definition continuation_length :: "u8 \<Rightarrow> nat" where
  "continuation_length b = (if b < 0x80 then 0 else if b < 0xE0 then 1 else if b < 0xF0 then 2 else 3)"

function utf8_chars :: "rstr \<Rightarrow> rtext" where
  "utf8_chars [] = []"
| "utf8_chars (b # bs) =
     (b # take (continuation_length b) bs) # utf8_chars (drop (continuation_length b) bs)"
  by pat_completeness auto
termination
  by (relation "measure length") auto

text \<open>The scalar value of a character.\<close>

definition first_byte_mask :: "u8 \<Rightarrow> u8" where
  "first_byte_mask b = (if b < 0x80 then 0x7F else if b < 0xE0 then 0x1F else if b < 0xF0 then 0x0F else 0x07)"

definition code_point :: "rchar \<Rightarrow> u32" where
  "code_point c = (case c of
     [] \<Rightarrow> 0
   | b # bs \<Rightarrow> foldl (\<lambda>ch x. push_bit 6 ch OR ucast (x AND 0x3F)) (ucast (b AND first_byte_mask b)) bs)"

section \<open>Hexadecimal\<close>

definition hex_digit :: "nat \<Rightarrow> u8" where
  "hex_digit d = word_of_nat (if d < 10 then 48 + d else 87 + d)"

text \<open>The format \<open>02x\<close> of a byte and the format \<open>x\<close> of a number.\<close>

definition hex_byte :: "u8 \<Rightarrow> rstr" where
  "hex_byte b = [hex_digit (unat b div 16), hex_digit (unat b mod 16)]"

fun hex_of_nat :: "nat \<Rightarrow> rstr" where
  "hex_of_nat n = (if n < 16 then [hex_digit n] else hex_of_nat (n div 16) @ [hex_digit (n mod 16)])"

declare hex_of_nat.simps [simp del]

section \<open>Escaping\<close>

record char_tables =
  table_printable :: "u32 \<Rightarrow> bool"
  table_grapheme_extend :: "u32 \<Rightarrow> bool"

text \<open>Example tables: every character is printable.\<close>

definition sample_tables :: char_tables where
  "sample_tables = \<lparr>table_printable = (\<lambda>_. True), table_grapheme_extend = (\<lambda>_. False)\<rparr>"

definition is_printable :: "char_tables \<Rightarrow> u32 \<Rightarrow> bool" where
  "is_printable tables x =
     (if x < 32 then False else if x < 127 then True else x \<noteq> 127 \<and> table_printable tables x)"

definition is_grapheme_extended :: "char_tables \<Rightarrow> u32 \<Rightarrow> bool" where
  "is_grapheme_extended tables x \<longleftrightarrow> 0x300 \<le> x \<and> table_grapheme_extend tables x"

definition escape_unicode :: "u32 \<Rightarrow> rstr" where
  "escape_unicode x = [0x5C, 0x75, 0x7B] @ hex_of_nat (unat x) @ [0x7D]"

text \<open>\<open>char::escape_debug_ext\<close>; the flags are the fields of \<open>EscapeDebugExtArgs\<close>.\<close>

definition escape_debug_ext :: "char_tables \<Rightarrow> bool \<Rightarrow> bool \<Rightarrow> bool \<Rightarrow> rchar \<Rightarrow> rstr" where
  "escape_debug_ext tables grapheme single_quote double_quote c =
     (let x = code_point c in
      if x = 0x00 then [0x5C, 0x30]
      else if x = 0x09 then [0x5C, 0x74]
      else if x = 0x0D then [0x5C, 0x72]
      else if x = 0x0A then [0x5C, 0x6E]
      else if x = 0x5C then [0x5C, 0x5C]
      else if x = 0x22 \<and> double_quote then [0x5C, 0x22]
      else if x = 0x27 \<and> single_quote then [0x5C, 0x27]
      else if grapheme \<and> is_grapheme_extended tables x then escape_unicode x
      else if is_printable tables x then c
      else escape_unicode x)"

text \<open>\<open>str::escape_debug\<close> escapes a grapheme extension only at the start of the string.\<close>

definition escape_debug :: "char_tables \<Rightarrow> rstr \<Rightarrow> rstr" where
  "escape_debug tables s = (case utf8_chars s of
     [] \<Rightarrow> []
   | c # cs \<Rightarrow> escape_debug_ext tables True True True c
       @ concat (map (escape_debug_ext tables False True True) cs))"

text \<open>\<open>Debug\<close> of a string.\<close>

definition str_debug :: "char_tables \<Rightarrow> rstr \<Rightarrow> rstr" where
  "str_debug tables s =
     [0x22] @ concat (map (escape_debug_ext tables True False True) (utf8_chars s)) @ [0x22]"

definition bool_display :: "bool \<Rightarrow> rstr" where
  "bool_display b = (if b then ascii ''true'' else ascii ''false'')"

definition text_of_u8 :: "u8 \<Rightarrow> rstr" where "text_of_u8 b = text_of_nat (unat b)"
definition text_of_u16 :: "u16 \<Rightarrow> rstr" where "text_of_u16 k = text_of_nat (unat k)"

section \<open>Lemmas\<close>

lemma concat_utf8_chars: "concat (utf8_chars s) = s"
  by (induction s rule: utf8_chars.induct) simp_all

text \<open>A byte that neither ends a line nor a field.\<close>

definition plain_byte :: "u8 \<Rightarrow> bool" where "plain_byte b \<longleftrightarrow> 0x20 \<le> b \<and> b \<noteq> 0x7F"

definition plain :: "rstr \<Rightarrow> bool" where "plain s \<longleftrightarrow> list_all plain_byte s"

lemma plain_simps [simp]:
  "plain []"
  "plain (b # bs) \<longleftrightarrow> plain_byte b \<and> plain bs"
  "plain (as @ bs) \<longleftrightarrow> plain as \<and> plain bs"
  by (simp_all add: plain_def)

lemma plain_concat: "plain (concat ss) \<longleftrightarrow> list_all plain ss"
  by (induction ss) simp_all

lemma plain_hex_digit: "d < 16 \<Longrightarrow> plain_byte (hex_digit d)"
proof -
  assume "d < 16"
  then have "d \<in> set [0..<16]" by simp
  moreover have "list_all (\<lambda>d. plain_byte (hex_digit d)) [0..<16]" by code_simp
  ultimately show ?thesis by (simp add: list_all_iff)
qed

lemma plain_hex_byte: "plain (hex_byte b)"
proof -
  have "unat b < 256" using unsigned_less [of b] by simp
  then show ?thesis by (simp add: hex_byte_def plain_hex_digit)
qed

lemma plain_hex_of_nat: "plain (hex_of_nat n)"
proof (induction n rule: hex_of_nat.induct)
  case (1 n)
  then show ?case by (subst hex_of_nat.simps) (simp add: plain_hex_digit)
qed

lemma plain_digit_char: "d < 10 \<Longrightarrow> plain_byte (digit_char d)"
proof -
  assume "d < 10"
  then have "d \<in> set [0..<10]" by simp
  moreover have "list_all (\<lambda>d. plain_byte (digit_char d)) [0..<10]" by code_simp
  ultimately show ?thesis by (simp add: list_all_iff)
qed

lemma plain_text_of_nat: "plain (text_of_nat n)"
proof (induction n rule: text_of_nat.induct)
  case (1 n)
  then show ?case by (subst text_of_nat.simps) (simp add: plain_digit_char)
qed

lemma plain_numbers:
  "plain (text_of_u8 b)" "plain (text_of_u16 k)" "plain (text_of_i64 i)"
  by (simp_all add: text_of_u8_def text_of_u16_def text_of_i64_def text_of_int_def plain_text_of_nat
      plain_byte_def)

lemma plain_literals:
  "plain (ascii ''true'')" "plain (ascii ''false'')"
  by code_simp+

lemma plain_bool_display: "plain (bool_display b)"
  by (simp add: bool_display_def plain_literals)

lemma plain_escape_unicode: "plain (escape_unicode x)"
  by (simp add: escape_unicode_def plain_byte_def plain_hex_of_nat)

text \<open>The characters of valid UTF-8: one ASCII byte, or bytes outside ASCII.\<close>

definition char_ok :: "rchar \<Rightarrow> bool" where
  "char_ok c \<longleftrightarrow> (\<exists>b. c = [b] \<and> b < 0x80) \<or> (c \<noteq> [] \<and> list_all (\<lambda>b. 0x80 \<le> b) c)"

lemma code_point_ascii: "b < 0x80 \<Longrightarrow> code_point [b] = ucast b"
proof -
  assume b: "b < 0x80"
  then have "unat b < 128" by (simp add: word_less_nat_alt)
  then have "take_bit 7 b = b"
    by (simp add: word_unat_eq_iff unsigned_take_bit_eq take_bit_nat_eq_self_iff)
  moreover have "mask 7 = (0x7F :: u8)" by (simp add: mask_eq_exp_minus_1)
  ultimately have "b AND 0x7F = b" by (metis take_bit_eq_mask)
  with b show ?thesis by (simp add: code_point_def first_byte_mask_def)
qed

lemma first_byte_printed: "is_printable tables (code_point [b]) \<Longrightarrow> b < 0x80 \<Longrightarrow> plain_byte b"
proof -
  assume "is_printable tables (code_point [b])" and b: "b < 0x80"
  then have p: "is_printable tables (ucast b)" by (simp add: code_point_ascii)
  have "unat (ucast b :: u32) = unat b"
    using b by (simp add: word_less_nat_alt unsigned_ucast_eq take_bit_nat_eq_self_iff)
  with p b show ?thesis
    by (auto simp: is_printable_def plain_byte_def word_le_nat_alt word_less_nat_alt word_unat_eq_iff split: if_splits)
qed

lemma utf8_tail_bytes:
  "utf8_tail cs n bs = Complete m \<Longrightarrow> list_all (\<lambda>c. \<forall>b. c b \<longrightarrow> 0x80 \<le> b) cs \<Longrightarrow>
     list_all (\<lambda>b. 0x80 \<le> b) (take (length cs) bs)"
  by (induction cs n bs rule: utf8_tail.induct) (auto split: if_splits)

lemma utf8_conditions_high:
  "utf8_conditions f = Some cs \<Longrightarrow> list_all (\<lambda>c. \<forall>b. c b \<longrightarrow> 0x80 \<le> b) cs"
  by (auto simp: utf8_conditions_def second_of_three_def second_of_four_def is_cont_def word_le_nat_alt
      split: if_splits)

lemma utf8_conditions_continuation:
  "utf8_conditions f = Some cs \<Longrightarrow> length cs = continuation_length f"
  by (auto simp: utf8_conditions_def continuation_length_def utf8_char_width_def word_le_nat_alt word_less_nat_alt
      split: if_splits)

lemma utf8_chars_ok: "is_utf8 s \<Longrightarrow> list_all char_ok (utf8_chars s)"
proof (induction s rule: utf8_chars.induct)
  case (2 b bs)
  let ?n = "continuation_length b"
  from 2(2) obtain m where head: "utf8_head (b # bs) = Complete m" and rest: "utf8_rest (drop m (b # bs)) = Some []"
    by (auto simp: is_utf8_rest utf8_rest.simps [of "b # bs"] split: utf8_item.splits)
  then obtain cs where cs: "utf8_conditions b = Some cs" "utf8_tail cs 1 bs = Complete m"
    by (auto split: option.splits)
  have m: "m = Suc ?n" "?n \<le> length bs"
    using utf8_tail_Complete [OF cs(2)] utf8_conditions_continuation [OF cs(1)] by simp_all
  have "char_ok (b # take ?n bs)"
  proof (cases "b < 0x80")
    case True
    then show ?thesis by (simp add: char_ok_def continuation_length_def)
  next
    case False
    then show ?thesis
      using utf8_tail_bytes [OF cs(2) utf8_conditions_high [OF cs(1)]] utf8_conditions_continuation [OF cs(1)]
      by (simp add: char_ok_def not_less)
  qed
  moreover have "is_utf8 (drop ?n bs)" using rest m by (simp add: is_utf8_rest)
  ultimately show ?case using 2(1) by simp
qed simp

lemma plain_high: "list_all (\<lambda>b. 0x80 \<le> b) c \<Longrightarrow> plain c"
  by (induction c) (auto simp: plain_byte_def word_le_nat_alt)

lemma plain_escape_debug_ext: "char_ok c \<Longrightarrow> plain (escape_debug_ext tables g sq dq c)"
proof -
  assume c: "char_ok c"
  have "plain c" if "is_printable tables (code_point c)"
    using c that first_byte_printed plain_high by (auto simp: char_ok_def)
  then show ?thesis
    by (auto simp: escape_debug_ext_def Let_def plain_escape_unicode plain_byte_def)
qed

lemma plain_escaped_chars: "list_all char_ok cs \<Longrightarrow> plain (concat (map (escape_debug_ext tables g sq dq) cs))"
  by (induction cs) (simp_all add: plain_escape_debug_ext)

lemma plain_escape_debug: "is_utf8 s \<Longrightarrow> plain (escape_debug tables s)"
  using utf8_chars_ok [of s]
  by (auto simp: escape_debug_def plain_escape_debug_ext plain_escaped_chars split: list.split)

lemma plain_str_debug: "is_utf8 s \<Longrightarrow> plain (str_debug tables s)"
  using utf8_chars_ok [of s] by (simp add: str_debug_def plain_escaped_chars plain_byte_def)

end
