(* ===== verification/Error_Text.thy ===== *)
theory Error_Text
  imports Std_Escape
begin

text \<open>
  The texts of the errors: \<open>Display\<close> of opcodes, wire directions, frame and payload errors
  (\<open>qup-core/src/types\<close>) and of the client's error, and the derived \<open>Debug\<close> form of a message
  (\<open>qup/src/client.rs\<close>). The text of a transport error is a parameter.
\<close>

definition direction_display :: "wire_direction \<Rightarrow> rstr" where
  "direction_display d = (case d of
     ClientToNode \<Rightarrow> ascii ''client-to-node traffic''
   | NodeToClient \<Rightarrow> ascii ''node-to-client traffic'')"

text \<open>A byte in the format \<open>0x{:02x}\<close>.\<close>

definition hex_code :: "u8 \<Rightarrow> rstr" where "hex_code b = ascii ''0x'' @ hex_byte b"

definition opcode_display :: "opcode \<Rightarrow> rstr" where
  "opcode_display oc = (let b = as_u8 oc in
     if 0x21 \<le> b \<and> b \<le> 0x7E \<or> b = 0x20 then [0x27, b, 0x27] else hex_code b)"

definition frame_error_display :: "frame_error \<Rightarrow> rstr" where
  "frame_error_display e = (case e of
     Truncated_Frame \<Rightarrow> ascii ''truncated frame''
   | LengthMismatch declared actual \<Rightarrow>
       ascii ''frame length mismatch: declared '' @ text_of_u16 declared @ ascii '', actual '' @ text_of_nat actual
   | ReservedOpcode oc \<Rightarrow> ascii ''reserved opcode '' @ hex_code (as_u8 oc)
   | UnknownOpcode oc \<Rightarrow> ascii ''unknown opcode '' @ hex_code (as_u8 oc)
   | InvalidDirection oc d \<Rightarrow>
       ascii ''opcode '' @ hex_code (as_u8 oc) @ ascii '' is invalid for '' @ direction_display d
   | ChecksumMismatch s \<Rightarrow> ascii ''checksum mismatch: wrapping sum was '' @ hex_code s)"

definition payload_error_display :: "payload_error \<Rightarrow> rstr" where
  "payload_error_display e = (case e of
     InvalidLength oc expected actual \<Rightarrow>
       ascii ''invalid payload length for opcode '' @ hex_code (as_u8 oc) @ ascii '': expected ''
       @ text_of_nat expected @ ascii '', actual '' @ text_of_nat actual
   | InternalLengthExceedsPayload \<Rightarrow> ascii ''internal length prefix exceeds remaining payload bytes''
   | TrailingBytes n \<Rightarrow> ascii ''payload has '' @ text_of_nat n @ ascii '' trailing byte(s)''
   | InvalidUtf8 _ \<Rightarrow> ascii ''invalid UTF-8 in str16''
   | StringContainsNul \<Rightarrow> ascii ''str16 contains NUL byte''
   | InvalidBool b \<Rightarrow> ascii ''invalid bool encoding '' @ hex_code b
   | InvalidKeyFlags b \<Rightarrow> ascii ''invalid keyflags '' @ hex_code b
   | InvalidValueKind b \<Rightarrow> ascii ''invalid value kind '' @ hex_code b
   | UnknownPayloadOpcode oc \<Rightarrow> ascii ''unknown opcode '' @ hex_code (as_u8 oc)
   | MalformedCaps \<Rightarrow> ascii ''malformed CAPS string'')"

text \<open>The message of a \<open>ClientError::Protocol\<close>.\<close>

definition protocol_text :: "protocol_cause \<Rightarrow> rstr" where
  "protocol_text p = (case p of
     Frame_Validation e \<Rightarrow> ascii ''frame validation failed: '' @ frame_error_display e
   | Payload_Validation e \<Rightarrow> ascii ''payload validation failed: '' @ payload_error_display e
   | Client_Direction_Message \<Rightarrow> ascii ''node sent a client-direction message'')"

definition value_debug :: "char_tables \<Rightarrow> client_value \<Rightarrow> rstr" where
  "value_debug tables v = (case v of
     Value_Bool b \<Rightarrow> ascii ''Bool('' @ bool_display b @ ascii '')''
   | Value_I64 i \<Rightarrow> ascii ''I64('' @ text_of_i64 i @ ascii '')''
   | Value_Str s \<Rightarrow> ascii ''Str('' @ str_debug tables s @ ascii '')'')"

definition key_flags_debug :: "key_flags \<Rightarrow> rstr" where
  "key_flags_debug flags = ascii ''KeyFlags('' @ text_of_u8 (flag_bits flags) @ ascii '')''"

definition message_debug :: "char_tables \<Rightarrow> message \<Rightarrow> rstr" where
  "message_debug tables m = (case m of
     Message_Ok \<Rightarrow> ascii ''Ok''
   | Message_Caps s \<Rightarrow> ascii ''Caps('' @ str_debug tables s @ ascii '')''
   | Message_Identified s \<Rightarrow> ascii ''Identified('' @ str_debug tables s @ ascii '')''
   | Message_KeytabLen n \<Rightarrow> ascii ''KeytabLen('' @ text_of_u16 n @ ascii '')''
   | Message_Key keyflags name \<Rightarrow>
       ascii ''Key { keyflags: '' @ key_flags_debug keyflags @ ascii '', name: '' @ str_debug tables name @ ascii '' }''
   | Message_Value v \<Rightarrow> ascii ''Value('' @ value_debug tables v @ ascii '')''
   | Message_Written v \<Rightarrow> ascii ''Written('' @ value_debug tables v @ ascii '')''
   | Message_Error code \<Rightarrow> ascii ''Error('' @ text_of_u8 code @ ascii '')''
   | Message_Changed keyref \<Rightarrow> ascii ''Changed('' @ text_of_u16 keyref @ ascii '')'')"

definition io_error_display :: "('io \<Rightarrow> rstr) \<Rightarrow> 'io io_error \<Rightarrow> rstr" where
  "io_error_display io_text e = (case e of Stream_Error io \<Rightarrow> io_text io | InvalidInput msg \<Rightarrow> ascii msg)"

definition request_error_text :: "opcode \<Rightarrow> u8 \<Rightarrow> rstr" where
  "request_error_text request code =
     ascii ''request '' @ opcode_display request @ ascii '' failed with error code '' @ hex_code code"

definition ambiguous_text :: "char_tables \<Rightarrow> rstr \<Rightarrow> rstr" where
  "ambiguous_text tables name =
     ascii ''multiple keys named '' @ str_debug tables name @ ascii ''; use a numeric keyref''"

definition client_error_display :: "('io \<Rightarrow> rstr) \<Rightarrow> char_tables \<Rightarrow> 'io client_error \<Rightarrow> rstr" where
  "client_error_display io_text tables e = (case e of
     Io error \<Rightarrow> ascii ''transport error: '' @ io_error_display io_text error
   | Protocol p \<Rightarrow> protocol_text p
   | RequestError request code \<Rightarrow> request_error_text request code
   | UnexpectedMessage expected actual \<Rightarrow>
       ascii ''expected '' @ ascii expected @ ascii '', got '' @ message_debug tables actual
   | KeyNotFound name \<Rightarrow> ascii ''no key named '' @ str_debug tables name
   | AmbiguousKey name \<Rightarrow> ambiguous_text tables name)"

end
