(* ===== verification/Client_Timeout.thy ===== *)
theory Client_Timeout
  imports Client
begin

text \<open>
  \<open>Client::next_message_timeout\<close> (\<open>qup/src/client.rs\<close>): the future of \<open>next_message\<close> raced
  against a timer. When the timer wins, the future is dropped while it waits in one of its
  three reads. A dropped \<open>read_exact\<close> keeps the bytes it has taken off the stream: which ones
  is a parameter, as is the moment at which the timer fires.
\<close>

section \<open>The operation\<close>

text \<open>The read in which the future waits when it is dropped.\<close>

datatype drop_point = In_Header | In_Payload | In_Checksum

text \<open>
  What the client uses of its runtime: the reads and writes of the stream, the stream after a
  dropped \<open>read_exact\<close>, and where the future waits when the timer of the given duration fires,
  \<open>None\<close> when the future completes in time.
\<close>

record ('s, 'io) host =
  host_read :: "('s, 'io) reader"
  host_write :: "('s, 'io) writer"
  host_partial :: "nat \<Rightarrow> 's \<Rightarrow> 's"
  host_expiry :: "nat \<Rightarrow> 's \<Rightarrow> drop_point option"

definition dropped_in :: "('s, 'io) host \<Rightarrow> nat \<Rightarrow> 's client \<Rightarrow> 's client" where
  "dropped_in host n c = c\<lparr>client_stream := host_partial host n (client_stream c)\<rparr>"

text \<open>
  The client after its future is dropped at the given point; \<open>None\<close> when the future does not
  get there, because an earlier read has failed.
\<close>

definition next_message_dropped :: "('s, 'io) host \<Rightarrow> drop_point \<Rightarrow> 's client \<Rightarrow> 's client option" where
  "next_message_dropped host point c =
     (if point = In_Header then Some (dropped_in host 3 c)
      else case on_stream (host_read host 3) c of
        (Inl _, _) \<Rightarrow> None
      | (Inr header, c1) \<Rightarrow>
          let payload_len = unat (from_be [header ! 1, header ! 2] :: u16);
              c2 = c1\<lparr>client_payload_buf := take payload_len (client_payload_buf c1 @ replicate payload_len 0)\<rparr>
          in if point = In_Payload then Some (dropped_in host payload_len c2)
             else (case on_stream (host_read host payload_len) c2 of
                (Inl _, _) \<Rightarrow> None
              | (Inr payload, c3) \<Rightarrow> Some (dropped_in host 1 (c3\<lparr>client_payload_buf := payload\<rparr>))))"

definition next_message_timeout ::
  "('s, 'io) host \<Rightarrow> nat \<Rightarrow> ('s client, 'io client_error, message option) action" where
  "next_message_timeout host duration c =
     (case host_expiry host duration (client_stream c) of
        None \<Rightarrow> act_bind (next_message (host_read host)) (\<lambda>m. act_ok (Some m)) c
      | Some point \<Rightarrow>
          (case next_message_dropped host point c of
             Some c' \<Rightarrow> (Inr None, c')
           | None \<Rightarrow> act_bind (next_message (host_read host)) (\<lambda>m. act_ok (Some m)) c))"

section \<open>What a timeout leaves on the stream\<close>

text \<open>A dropped read has taken some of the bytes it asked for, but not all of them.\<close>

locale droppable_source = byte_source "host_read host" pending valid
  for host :: "('s, 'io) host" and pending :: "'s \<Rightarrow> bytes" and valid :: "'s \<Rightarrow> bool" +
  assumes read_dropped: "valid r \<Longrightarrow> \<exists>k. k \<le> n - 1 \<and> k \<le> length (pending r) \<and>
      pending (host_partial host n r) = drop k (pending r) \<and> valid (host_partial host n r)"
begin

lemma dropped_in_keeps:
  "valid (client_stream c) \<Longrightarrow> \<exists>k. k \<le> n - 1 \<and> k \<le> length (pending (client_stream c)) \<and>
     pending (client_stream (dropped_in host n c)) = drop k (pending (client_stream c)) \<and>
     valid (client_stream (dropped_in host n c))"
  using read_dropped [of "client_stream c" n] by (simp add: dropped_in_def)

lemma on_stream_read:
  assumes "valid (client_stream c)" and "on_stream (host_read host n) c = (Inr bs, c')"
  shows "pending (client_stream c) = bs @ pending (client_stream c') \<and> length bs = n \<and> valid (client_stream c')"
proof (cases "n \<le> length (pending (client_stream c))")
  case True
  then show ?thesis using read_enough [OF assms(1) True] assms(2) by (auto simp: on_stream_def)
next
  case False
  then show ?thesis using read_short [of "client_stream c" n] assms by (auto simp: on_stream_def)
qed

text \<open>
  A timeout takes a proper prefix of the next frame off the stream, and nothing only when the
  future was dropped before it had read a byte.
\<close>

lemma next_message_dropped_prefix:
  assumes "valid (client_stream c)" and "next_message_dropped host point c = Some c'"
  shows "\<exists>xs. pending (client_stream c) = xs @ pending (client_stream c') \<and> valid (client_stream c') \<and>
     (length xs < 3 \<or> length xs < 4 + unat (from_be (take 2 (drop 1 xs)) :: u16)) \<and>
     client_trace c' = client_trace c"
proof (cases "point = In_Header")
  case True
  then have c': "c' = dropped_in host 3 c" using assms(2) by (simp add: next_message_dropped_def)
  with dropped_in_keeps [OF assms(1), of 3] obtain k where "k \<le> 2" "k \<le> length (pending (client_stream c))"
    "pending (client_stream c') = drop k (pending (client_stream c))" "valid (client_stream c')" by auto
  then show ?thesis
    by (intro exI [of _ "take k (pending (client_stream c))"]) (auto simp: c' dropped_in_def)
next
  case False
  then obtain header c1 where c1: "on_stream (host_read host 3) c = (Inr header, c1)"
    using assms(2) by (auto simp: next_message_dropped_def split: prod.splits sum.splits)
  have h: "pending (client_stream c) = header @ pending (client_stream c1)" "length header = 3" "valid (client_stream c1)"
    using on_stream_read [OF assms(1) c1] by auto
  then obtain o1 hi lo where header: "header = [o1, hi, lo]" by (auto simp: length_Suc_conv eval_nat_numeral)
  let ?n = "unat (from_be [hi, lo] :: u16)"
  let ?c2 = "c1\<lparr>client_payload_buf := take ?n (client_payload_buf c1 @ replicate ?n 0)\<rparr>"
  have trace: "client_trace c1 = client_trace c" using c1 by (auto simp: on_stream_def split: prod.splits)
  show ?thesis
  proof (cases "point = In_Payload")
    case True
    then have c': "c' = dropped_in host ?n ?c2"
      using assms(2) c1 by (simp add: next_message_dropped_def header Let_def)
    from dropped_in_keeps [of ?c2 ?n] h(3) obtain k where k: "k \<le> ?n - 1" "k \<le> length (pending (client_stream c1))"
      "pending (client_stream c') = drop k (pending (client_stream c1))" "valid (client_stream c')"
      by (auto simp: c')
    with h trace show ?thesis
      by (intro exI [of _ "header @ take k (pending (client_stream c1))"]) (auto simp: header c' dropped_in_def)
  next
    case False
    then obtain payload c3 where c3: "on_stream (host_read host ?n) ?c2 = (Inr payload, c3)"
      and c': "c' = dropped_in host 1 (c3\<lparr>client_payload_buf := payload\<rparr>)"
      using assms(2) c1 \<open>point \<noteq> In_Header\<close>
      by (auto simp: next_message_dropped_def header Let_def split: prod.splits sum.splits)
    have p: "pending (client_stream c1) = payload @ pending (client_stream c3)" "length payload = ?n" "valid (client_stream c3)"
      using on_stream_read [OF _ c3] h(3) by auto
    from dropped_in_keeps [of "c3\<lparr>client_payload_buf := payload\<rparr>" 1] p(3)
    have k: "pending (client_stream c') = pending (client_stream c3)" "valid (client_stream c')"
      by (auto simp: c')
    have "client_trace c3 = client_trace c" using c3 trace by (auto simp: on_stream_def split: prod.splits)
    with h p k show ?thesis
      by (intro exI [of _ "header @ payload"]) (auto simp: header c' dropped_in_def)
  qed
qed

lemma next_message_timeout_Some:
  assumes "next_message_timeout host duration c = (Inr (Some m), c')"
  shows "next_message (host_read host) c = (Inr m, c')"
  using assms by (auto simp: next_message_timeout_def act_bind_eq_Inr split: option.splits)

lemma next_message_timeout_None:
  assumes "valid (client_stream c)" and "next_message_timeout host duration c = (Inr None, c')"
  shows "\<exists>xs. pending (client_stream c) = xs @ pending (client_stream c') \<and> valid (client_stream c') \<and>
     (length xs < 3 \<or> length xs < 4 + unat (from_be (take 2 (drop 1 xs)) :: u16))"
proof -
  obtain point where "next_message_dropped host point c = Some c'"
    using assms(2) by (auto simp: next_message_timeout_def act_bind_eq_Inr split: option.splits)
  from next_message_dropped_prefix [OF assms(1) this] show ?thesis by blast
qed

lemma next_message_timeout_in_time:
  "host_expiry host duration (client_stream c) = None \<Longrightarrow>
     next_message_timeout host duration c = act_bind (next_message (host_read host)) (\<lambda>m. act_ok (Some m)) c"
  by (simp add: next_message_timeout_def)

end

section \<open>Every operation returns\<close>

text \<open>A host whose stream stays usable after a write.\<close>

locale client_host = droppable_source +
  assumes write_keeps: "valid r \<Longrightarrow> host_write host bs r = (Inr (), r') \<Longrightarrow> valid r'"
begin

abbreviation client_valid :: "'a client \<Rightarrow> bool" where "client_valid c \<equiv> valid (client_stream c)"

lemma returns_send_frame: "returns client_valid (proc_of (act_map_err g (send_frame (host_write host) oc p)))"
proof (rule returns_of)
  fix c r c' assume "client_valid c" "act_map_err g (send_frame (host_write host) oc p) c = (r, c')"
  then show "isl r \<or> client_valid c'"
    by (cases "host_write host (frame_bytes oc p) (client_stream c)"; cases "fst (host_write host (frame_bytes oc p) (client_stream c))")
      (auto simp: act_map_err_def send_frame_eq on_stream_def trace_frame_def intro: write_keeps split: if_splits)
qed

lemma returns_send_write: "returns client_valid (proc_of (act_map_err g (send_write_request (host_write host) k v)))"
proof (rule returns_of)
  fix c r c' assume c: "client_valid c" "act_map_err g (send_write_request (host_write host) k v) c = (r, c')"
  show "isl r \<or> client_valid c'"
  proof (cases "push_value (to_be 2 k) v :: 'b io_error + bytes")
    case (Inl e)
    with c show ?thesis by (auto simp: act_map_err_def send_write_request_def act_bind_def)
  next
    case (Inr p)
    with c have "act_map_err g (send_frame (host_write host) WRITE p) c = (r, c')"
      by (simp add: act_map_err_def send_write_request_def act_bind_def)
    with returns_send_frame [of g WRITE p] c(1) show ?thesis by (force simp: returns_def proc_of_def)
  qed
qed

lemmas returns_send = returns_send_frame returns_send_write
  returns_send_frame [where p = "[]", folded send_empty_request_def]
  returns_send_frame [where p = "to_be 2 (k :: u16)" for k, folded send_keyref_request_def]

lemma returns_next_message: "returns client_valid (proc_of (next_message (host_read host)))"
  by (rule returns_of) (metis next_message_received sum.collapse(2))

lemma returns_next_message_timeout: "returns client_valid (proc_of (next_message_timeout host duration))"
proof (rule returns_of)
  fix c r c' assume c: "client_valid c" "next_message_timeout host duration c = (r, c')"
  consider "isl r" | "r = Inr None" | m where "r = Inr (Some m)" by (cases r) auto
  then show "isl r \<or> client_valid c'"
  proof cases
    case 2
    with c next_message_timeout_None show ?thesis by blast
  next
    case 3
    with c next_message_timeout_Some next_message_received show ?thesis by blast
  qed simp
qed

lemma returns_read_request_response: "returns client_valid (read_request_response (host_read host))"
  unfolding returns_def using read_request_response_total by (metis sum.collapse(2))

lemma returns_request_response:
  "returns client_valid (proc_of (act_map_err Io send)) \<Longrightarrow>
     returns client_valid (request_response (host_read host) send request expected select)"
  unfolding request_response_def
  by (intro returns_bind returns_read_request_response) (auto split: option.split intro: returns_ok)

lemma returns_requests:
  "returns client_valid (client_key_count (host_read host) (host_write host))"
  "returns client_valid (client_key (host_read host) (host_write host) k)"
  "returns client_valid (client_get (host_read host) (host_write host) k)"
  "returns client_valid (client_observe (host_read host) (host_write host) k)"
  "returns client_valid (client_identify (host_read host) (host_write host))"
  by (simp_all add: client_key_count_def client_key_def client_get_def client_observe_def client_identify_def
      returns_request_response returns_send)

lemma returns_list_keys_loop:
  "returns client_valid (list_keys_loop (host_read host) (host_write host) refs keys)"
  by (induction refs arbitrary: keys) (simp_all add: returns_ok returns_bind returns_requests)

lemma returns_list_keys: "returns client_valid (client_list_keys (host_read host) (host_write host))"
  unfolding client_list_keys_def by (intro returns_bind returns_requests returns_list_keys_loop)

lemma returns_resolve: "returns client_valid (client_resolve_keyref_by_name (host_read host) (host_write host) name)"
  unfolding client_resolve_keyref_by_name_def by (intro returns_bind returns_list_keys returns_ok)

end

text \<open>A host whose writes succeed and whose incoming bytes are given, whatever is written.\<close>

locale recorded_host = client_host +
  assumes write_pending: "valid r \<Longrightarrow> \<exists>r'. host_write host bs r = (Inr (), r') \<and> pending r' = pending r"
begin

lemma send_recorded:
  assumes "client_valid c"
  obtains c' where "send_keyref_request (host_write host) oc k c = (Inr (), c')" and "client_valid c'"
    and "pending (client_stream c') = pending (client_stream c)"
proof -
  obtain s where s: "host_write host (frame_bytes oc (to_be 2 k)) (client_stream c) = (Inr (), s)"
    "pending s = pending (client_stream c)"
    using write_pending [OF assms] by blast
  have "valid s" by (rule write_keeps [OF assms s(1)])
  with s show ?thesis
    by (intro that [of "(trace_frame Tx (frame_bytes oc (to_be 2 k)) c)\<lparr>client_stream := s\<rparr>"])
      (simp_all add: send_keyref_request_def send_frame_eq on_stream_def trace_frame_def)
qed

end

text \<open>
  A host over bytes that have arrived: a dropped \<open>read_exact\<close> has taken all but the last of the
  bytes it asked for, and the moments at which the timer fires are given.
\<close>

definition list_host :: "(nat \<Rightarrow> bytes \<Rightarrow> drop_point option) \<Rightarrow> (bytes, unit) host" where
  "list_host expiry = \<lparr>host_read = list_read, host_write = (\<lambda>_ bs. (Inr (), bs)),
     host_partial = (\<lambda>n bs. drop (min (n - 1) (length bs)) bs), host_expiry = expiry\<rparr>"

interpretation list_host: recorded_host "list_host expiry" "\<lambda>bs. bs" "\<lambda>_. True" for expiry
proof unfold_locales
  fix n and r :: bytes
  show "\<exists>k \<le> n - 1. k \<le> length r \<and> host_partial (list_host expiry) n r = drop k r \<and> True"
    by (intro exI [of _ "min (n - 1) (length r)"]) (simp add: list_host_def)
qed (auto simp: list_host_def list_read_def)

section \<open>Property\<close>


end
