(* ===== verification/Test_Cli.thy ===== *)
theory Test_Cli
  imports Error_Text Client_Timeout
begin

text \<open>
  The command line tool (\<open>qup-test-cli/src/main.rs\<close>): the commands on one connection, the
  interactive prompt, follow mode, and the texts they print. The console is the state the
  tool works on: the client, what has been printed, and the lines still to be typed. The
  argument parser \<open>clap\<close> and the word splitter \<open>shlex\<close> are parameters, as is the connection;
  standard output takes every byte.
\<close>

section \<open>Data\<close>

datatype value_input_kind = Input_Bool | Input_I64 | Input_Str

datatype command =
    Cmd_Ping
  | Cmd_Caps
  | Cmd_Identify
  | Cmd_KeyCount
  | Cmd_ListKeys
  | Cmd_Key rstr
  | Cmd_Get rstr
  | Cmd_Write rstr value_input_kind "rstr list"
  | Cmd_Observe rstr
  | Cmd_Unobserve rstr
  | Cmd_Read "u64 option"
  | Cmd_Repl
  | Cmd_Exit

record args =
  args_addr :: rstr
  args_follow :: "rstr option"
  args_command :: "command option"

text \<open>
  An \<open>io::Error\<close>: one that the stream, the terminal or the client's encoder reports, or one
  made with a kind and a message.
\<close>

datatype error_kind = Kind_NotFound | Kind_PermissionDenied | Kind_InvalidInput | Kind_InvalidData | Kind_Interrupted

datatype 'io cli_error = Reported "'io io_error" | New_Error error_kind rstr

text \<open>What the tool uses of its libraries.\<close>

record cli_lib =
  lib_tables :: char_tables
  lib_shlex_split :: "rstr \<Rightarrow> rstr list option"
  lib_parse_line :: "rstr list \<Rightarrow> rstr + command"
  lib_long_help :: rstr

record ('s, 'io) console =
  con_client :: "'s client"
  con_stdout :: rstr
  con_stdin :: "('io + rstr) list"

section \<open>Texts\<close>

definition format_flags :: "key_flags \<Rightarrow> rstr" where
  "format_flags flags =
     [if is_readable flags then 0x72 else 0x2D,
      if is_writable flags then 0x77 else 0x2D,
      if is_observable flags then 0x6F else 0x2D]"

text \<open>\<open>join\<close> of a slice of strings.\<close>

fun join :: "rstr \<Rightarrow> rstr list \<Rightarrow> rstr" where
  "join sep [] = []"
| "join sep [s] = s"
| "join sep (s # t # ss) = s @ sep @ join sep (t # ss)"

definition format_hex_bytes :: "bytes \<Rightarrow> rstr" where
  "format_hex_bytes bs = join [0x20] (map hex_byte bs)"

text \<open>The line that the installed trace callback prints for a frame.\<close>

definition frame_trace_line :: "frame_direction \<Rightarrow> bytes \<Rightarrow> rstr" where
  "frame_trace_line direction frame =
     (case direction of Tx \<Rightarrow> ascii ''tx'' | Rx \<Rightarrow> ascii ''rx'') @ [0x09] @ format_hex_bytes frame"

definition format_value :: "char_tables \<Rightarrow> client_value \<Rightarrow> rstr" where
  "format_value tables v = (case v of
     Value_Bool b \<Rightarrow> ascii ''bool'' @ [0x09] @ bool_display b
   | Value_I64 i \<Rightarrow> ascii ''i64'' @ [0x09] @ text_of_i64 i
   | Value_Str s \<Rightarrow> ascii ''str'' @ [0x09] @ escape_debug tables s)"

definition format_follow_value :: "char_tables \<Rightarrow> client_value \<Rightarrow> rstr" where
  "format_follow_value tables v = (case v of
     Value_Bool b \<Rightarrow> bool_display b
   | Value_I64 i \<Rightarrow> text_of_i64 i
   | Value_Str s \<Rightarrow> escape_debug tables s)"

definition client_error :: "char_tables \<Rightarrow> 'io client_error \<Rightarrow> 'io cli_error" where
  "client_error tables e = (case e of
     Io error \<Rightarrow> Reported error
   | Protocol p \<Rightarrow> New_Error Kind_InvalidData (protocol_text p)
   | RequestError request code \<Rightarrow> New_Error Kind_InvalidData (request_error_text request code)
   | UnexpectedMessage expected actual \<Rightarrow>
       New_Error Kind_InvalidData (ascii ''expected '' @ ascii expected @ ascii '', got '' @ message_debug tables actual)
   | KeyNotFound name \<Rightarrow> New_Error Kind_NotFound (ascii ''no key named '' @ str_debug tables name)
   | AmbiguousKey name \<Rightarrow> New_Error Kind_InvalidInput (ambiguous_text tables name))"

section \<open>Reading the arguments\<close>

text \<open>\<open>True\<close> is the error of kind \<open>ArgumentConflict\<close>, with which the tool exits.\<close>

definition conflicting_args :: "args \<Rightarrow> bool" where
  "conflicting_args args \<longleftrightarrow> args_follow args \<noteq> None \<and> args_command args \<noteq> None"

definition parse_bool :: "char_tables \<Rightarrow> rstr \<Rightarrow> 'io cli_error + bool" where
  "parse_bool tables raw =
     (if raw = ascii ''true'' \<or> raw = ascii ''1'' then Inr True
      else if raw = ascii ''false'' \<or> raw = ascii ''0'' then Inr False
      else Inl (New_Error Kind_InvalidInput
        (ascii ''invalid bool literal '' @ str_debug tables raw @ ascii ''; use true, false, 1, or 0'')))"

definition parse_input_value :: "char_tables \<Rightarrow> value_input_kind \<Rightarrow> rstr list \<Rightarrow> 'io cli_error + client_value" where
  "parse_input_value tables kind raw =
     (if raw = [] then Inl (New_Error Kind_InvalidInput (ascii ''missing value bytes''))
      else case kind of
        Input_Bool \<Rightarrow>
          if length raw \<noteq> 1 then Inl (New_Error Kind_InvalidInput (ascii ''bool values take exactly one token''))
          else res_map Value_Bool (parse_bool tables (hd raw))
      | Input_I64 \<Rightarrow>
          if length raw \<noteq> 1 then Inl (New_Error Kind_InvalidInput (ascii ''i64 values take exactly one token''))
          else res_map Value_I64 (res_map_err (\<lambda>e. New_Error Kind_InvalidInput (int_error_display e)) (parse_i64 (hd raw)))
      | Input_Str \<Rightarrow> Inr (Value_Str (join (ascii '' '') raw)))"

definition select_follow_key :: "char_tables \<Rightarrow> key_info list \<Rightarrow> rstr \<Rightarrow> 'io cli_error + key_info" where
  "select_follow_key tables keys key_name =
     (case filter (\<lambda>k. info_name k = key_name) keys of
        [] \<Rightarrow> Inl (New_Error Kind_NotFound
          (ascii ''no key named '' @ str_debug tables key_name @ ascii '' in key table''))
      | [key] \<Rightarrow>
          if \<not> is_readable (info_keyflags key) \<or> \<not> is_observable (info_keyflags key)
          then Inl (New_Error Kind_PermissionDenied
            (ascii ''key '' @ str_debug tables key_name @ ascii '' must be R/N (readable and observable); flags are ''
             @ format_flags (info_keyflags key)))
          else Inr key
      | _ \<Rightarrow> Inl (New_Error Kind_InvalidInput (ambiguous_text tables key_name)))"

section \<open>Console actions\<close>

definition print_text :: "rstr \<Rightarrow> (('s, 'io) console, 'e, unit) action" where
  "print_text t con = (Inr (), con\<lparr>con_stdout := con_stdout con @ t\<rparr>)"

definition println :: "rstr \<Rightarrow> (('s, 'io) console, 'e, unit) action" where
  "println t = print_text (t @ [0x0A])"

text \<open>A call of the client; its errors are converted by \<open>client_error\<close>.\<close>

definition on_client ::
  "char_tables \<Rightarrow> ('s client, 'io client_error, 'a) proc \<Rightarrow> (('s, 'io) console, 'io cli_error, 'a) proc" where
  "on_client tables p con = (case p (con_client con) of
     None \<Rightarrow> None
   | Some (r, c) \<Rightarrow> Some (res_map_err (client_error tables) r, con\<lparr>con_client := c\<rparr>))"

text \<open>A raw send of the client; its error is an \<open>io::Error\<close> already.\<close>

definition on_send ::
  "('s client, 'io io_error, unit) action \<Rightarrow> (('s, 'io) console, 'io cli_error, unit) proc" where
  "on_send send con = (case send (con_client con) of
     (r, c) \<Rightarrow> Some (res_map_err Reported r, con\<lparr>con_client := c\<rparr>))"

definition print_key_info :: "char_tables \<Rightarrow> key_info \<Rightarrow> (('s, 'io) console, 'e, unit) action" where
  "print_key_info tables key =
     println (text_of_u16 (info_keyref key) @ [0x09] @ format_flags (info_keyflags key) @ [0x09]
       @ escape_debug tables (info_name key))"

definition message_line :: "char_tables \<Rightarrow> message \<Rightarrow> rstr" where
  "message_line tables m = (case m of
     Message_Ok \<Rightarrow> ascii ''ok''
   | Message_Caps s \<Rightarrow> ascii ''caps'' @ [0x09] @ escape_debug tables s
   | Message_Identified node_id \<Rightarrow> ascii ''identified'' @ [0x09] @ escape_debug tables node_id
   | Message_KeytabLen count \<Rightarrow> ascii ''key-count'' @ [0x09] @ text_of_u16 count
   | Message_Key keyflags name \<Rightarrow>
       ascii ''key'' @ [0x09] @ format_flags keyflags @ [0x09] @ escape_debug tables name
   | Message_Value v \<Rightarrow> ascii ''value'' @ [0x09] @ format_value tables v
   | Message_Written v \<Rightarrow> ascii ''written'' @ [0x09] @ format_value tables v
   | Message_Error code \<Rightarrow> ascii ''error'' @ [0x09] @ hex_code code
   | Message_Changed keyref \<Rightarrow> ascii ''changed'' @ [0x09] @ text_of_u16 keyref)"

definition print_message :: "char_tables \<Rightarrow> message \<Rightarrow> (('s, 'io) console, 'e, unit) action" where
  "print_message tables m = println (message_line tables m)"

definition print_command_message :: "char_tables \<Rightarrow> u16 \<Rightarrow> message \<Rightarrow> (('s, 'io) console, 'e, unit) action" where
  "print_command_message tables keyref m = (case m of
     Message_Ok \<Rightarrow> println (ascii ''ok'' @ [0x09] @ text_of_u16 keyref)
   | Message_Value v \<Rightarrow> println (ascii ''value'' @ [0x09] @ text_of_u16 keyref @ [0x09] @ format_value tables v)
   | Message_Written v \<Rightarrow> println (ascii ''written'' @ [0x09] @ text_of_u16 keyref @ [0x09] @ format_value tables v)
   | Message_Error code \<Rightarrow> println (ascii ''error'' @ [0x09] @ text_of_u16 keyref @ [0x09] @ hex_code code)
   | _ \<Rightarrow> print_message tables m)"

section \<open>Commands\<close>

text \<open>Notifications that arrive before the response are printed.\<close>

partial_function (option) cli_read_response ::
  "char_tables \<Rightarrow> ('s, 'io) reader \<Rightarrow> (('s, 'io) console, 'io cli_error, message) proc" where
  "cli_read_response tables read_exact con =
     (case next_message read_exact (con_client con) of
        (Inl e, c) \<Rightarrow> Some (Inl (client_error tables e), con\<lparr>con_client := c\<rparr>)
      | (Inr m, c) \<Rightarrow>
          if is_changed m
          then cli_read_response tables read_exact (snd (print_message tables m (con\<lparr>con_client := c\<rparr>) :: (unit + unit) \<times> _))
          else Some (Inr m, con\<lparr>con_client := c\<rparr>))"

definition resolve_keyref ::
  "char_tables \<Rightarrow> ('s, 'io) host \<Rightarrow> rstr \<Rightarrow> (('s, 'io) console, 'io cli_error, u16) proc" where
  "resolve_keyref tables host selector =
     (case parse_u16 selector of
        Inr keyref \<Rightarrow> proc_of (act_ok keyref)
      | Inl _ \<Rightarrow> on_client tables (client_resolve_keyref_by_name (host_read host) (host_write host) selector))"

definition resolve_follow_key ::
  "char_tables \<Rightarrow> ('s, 'io) host \<Rightarrow> rstr \<Rightarrow> (('s, 'io) console, 'io cli_error, key_info) proc" where
  "resolve_follow_key tables host key_name =
     proc_bind (on_client tables (client_list_keys (host_read host) (host_write host))) (\<lambda>keys.
       proc_of (act_lift (select_follow_key tables keys key_name)))"

text \<open>Send a request, read the response, print it.\<close>

definition request_and_print ::
  "char_tables \<Rightarrow> ('s, 'io) host \<Rightarrow> ('s client, 'io io_error, unit) action \<Rightarrow>
     (message \<Rightarrow> (('s, 'io) console, 'io cli_error, unit) action) \<Rightarrow> (('s, 'io) console, 'io cli_error, unit) proc" where
  "request_and_print tables host send print =
     proc_bind (on_send send) (\<lambda>_.
       proc_bind (cli_read_response tables (host_read host)) (\<lambda>m. proc_of (print m)))"

fun print_keys :: "char_tables \<Rightarrow> key_info list \<Rightarrow> (('s, 'io) console, 'io cli_error, unit) action" where
  "print_keys tables [] = act_ok ()"
| "print_keys tables (key # keys) = act_bind (print_key_info tables key) (\<lambda>_. print_keys tables keys)"

definition execute_read ::
  "char_tables \<Rightarrow> ('s, 'io) host \<Rightarrow> u64 option \<Rightarrow> (('s, 'io) console, 'io cli_error, unit) proc" where
  "execute_read tables host timeout_ms =
     (case timeout_ms of
        Some ms \<Rightarrow>
          proc_bind (on_client tables (proc_of (next_message_timeout host (unat ms * 1000000)))) (\<lambda>received.
            case received of
              Some m \<Rightarrow> proc_of (print_message tables m)
            | None \<Rightarrow> proc_of (println (ascii ''timeout'')))
      | None \<Rightarrow>
          proc_bind (on_client tables (proc_of (next_message (host_read host)))) (\<lambda>m.
            proc_of (print_message tables m)))"

text \<open>The result says whether the prompt goes on.\<close>

definition execute_command ::
  "char_tables \<Rightarrow> ('s, 'io) host \<Rightarrow> command \<Rightarrow> (('s, 'io) console, 'io cli_error, bool) proc" where
  "execute_command tables host command =
     (let read_exact = host_read host; write_all = host_write host;
          continue = (\<lambda>p. proc_bind p (\<lambda>_. proc_of (act_ok True)))
      in case command of
        Cmd_Ping \<Rightarrow>
          continue (request_and_print tables host (send_empty_request write_all PING) (print_message tables))
      | Cmd_Caps \<Rightarrow>
          continue (request_and_print tables host (send_empty_request write_all GETCAPS) (print_message tables))
      | Cmd_Identify \<Rightarrow>
          continue (request_and_print tables host (send_empty_request write_all IDENTIFY) (print_message tables))
      | Cmd_KeyCount \<Rightarrow>
          continue (proc_bind (on_client tables (client_key_count read_exact write_all)) (\<lambda>count.
            proc_of (println (text_of_u16 count))))
      | Cmd_ListKeys \<Rightarrow>
          continue (proc_bind (on_client tables (client_list_keys read_exact write_all)) (\<lambda>keys.
            proc_of (print_keys tables keys)))
      | Cmd_Key key \<Rightarrow>
          continue (proc_bind (resolve_keyref tables host key) (\<lambda>keyref.
            proc_bind (on_client tables (client_key read_exact write_all keyref)) (\<lambda>info.
              proc_of (print_key_info tables info))))
      | Cmd_Get key \<Rightarrow>
          continue (proc_bind (resolve_keyref tables host key) (\<lambda>keyref.
            request_and_print tables host (send_keyref_request write_all GET keyref) (print_command_message tables keyref)))
      | Cmd_Write key kind raw \<Rightarrow>
          continue (proc_bind (resolve_keyref tables host key) (\<lambda>keyref.
            proc_bind (proc_of (act_lift (parse_input_value tables kind raw))) (\<lambda>v.
              request_and_print tables host (send_write_request write_all keyref v) (print_command_message tables keyref))))
      | Cmd_Observe key \<Rightarrow>
          continue (proc_bind (resolve_keyref tables host key) (\<lambda>keyref.
            request_and_print tables host (send_keyref_request write_all OBSERVE keyref) (print_command_message tables keyref)))
      | Cmd_Unobserve key \<Rightarrow>
          continue (proc_bind (resolve_keyref tables host key) (\<lambda>keyref.
            request_and_print tables host (send_keyref_request write_all UNOBSERVE keyref) (print_command_message tables keyref)))
      | Cmd_Read timeout_ms \<Rightarrow> continue (execute_read tables host timeout_ms)
      | Cmd_Repl \<Rightarrow> continue (proc_of (println (ascii ''already in repl'')))
      | Cmd_Exit \<Rightarrow> proc_of (act_ok False))"

section \<open>Follow mode\<close>

text \<open>The loop has no regular end.\<close>

partial_function (option) follow_loop ::
  "char_tables \<Rightarrow> ('s, 'io) host \<Rightarrow> key_info \<Rightarrow> (('s, 'io) console, 'io cli_error, unit) proc" where
  "follow_loop tables host key con =
     (case next_message (host_read host) (con_client con) of
        (Inl e, c) \<Rightarrow> Some (Inl (client_error tables e), con\<lparr>con_client := c\<rparr>)
      | (Inr (Message_Changed keyref), c) \<Rightarrow>
          if keyref = info_keyref key then
            (case on_client tables (client_get (host_read host) (host_write host) (info_keyref key)) (con\<lparr>con_client := c\<rparr>) of
               None \<Rightarrow> None
             | Some (Inl e, con') \<Rightarrow> Some (Inl e, con')
             | Some (Inr v, con') \<Rightarrow>
                 follow_loop tables host key
                   (snd (println (format_follow_value tables v) con' :: (unit + unit) \<times> _)))
          else follow_loop tables host key (con\<lparr>con_client := c\<rparr>)
      | (Inr m, c) \<Rightarrow>
          Some (Inl (New_Error Kind_InvalidData
            (ascii ''expected CHANGED for key '' @ text_of_u16 (info_keyref key) @ ascii '' while following ''
             @ str_debug tables (info_name key) @ ascii '', got '' @ message_debug tables m)), con\<lparr>con_client := c\<rparr>))"

definition run_follow_mode ::
  "char_tables \<Rightarrow> ('s, 'io) host \<Rightarrow> rstr \<Rightarrow> (('s, 'io) console, 'io cli_error, unit) proc" where
  "run_follow_mode tables host key_name =
     proc_bind (resolve_follow_key tables host key_name) (\<lambda>key.
       proc_bind (on_client tables (client_observe (host_read host) (host_write host) (info_keyref key))) (\<lambda>_.
         follow_loop tables host key))"

section \<open>The prompt\<close>

text \<open>The error of a line is its kind and its text.\<close>

definition parse_repl_command ::
  "cli_lib \<Rightarrow> rstr \<Rightarrow> (('s, 'io) console, error_kind \<times> rstr, command) action" where
  "parse_repl_command lib line =
     (case lib_shlex_split lib line of
        None \<Rightarrow> act_err (Kind_InvalidInput, ascii ''unmatched quote in input'')
      | Some tokens \<Rightarrow>
          if tokens = [ascii ''help''] then
            act_bind (print_text (lib_long_help lib)) (\<lambda>_.
              act_bind (println []) (\<lambda>_. act_err (Kind_Interrupted, [])))
          else act_lift (res_map_err (Pair Kind_InvalidInput)
            (lib_parse_line lib (ascii ''qup-test-cli'' # tokens))))"

partial_function (option) repl_loop ::
  "cli_lib \<Rightarrow> ('s, 'io) host \<Rightarrow> (('s, 'io) console, 'io cli_error, unit) proc" where
  "repl_loop lib host con =
     (let con = con\<lparr>con_stdout := con_stdout con @ ascii ''qup> ''\<rparr> in
      case con_stdin con of
        [] \<Rightarrow> Some (Inr (), con\<lparr>con_stdout := con_stdout con @ [0x0A]\<rparr>)
      | Inl e # _ \<Rightarrow> Some (Inl (Reported (Stream_Error e)), con)
      | Inr line # rest \<Rightarrow>
          let con = con\<lparr>con_stdin := rest\<rparr>; trimmed = text_bytes (trim (utf8_chars line)) in
          if trimmed = [] then repl_loop lib host con
          else (case parse_repl_command lib trimmed con of
            (Inl (kind, text), con) \<Rightarrow>
              repl_loop lib host
                (if kind \<noteq> Kind_Interrupted then con\<lparr>con_stdout := con_stdout con @ text @ [0x0A]\<rparr> else con)
          | (Inr command, con) \<Rightarrow>
              (case execute_command (lib_tables lib) host command con of
                 None \<Rightarrow> None
               | Some (Inl e, con) \<Rightarrow> Some (Inl e, con)
               | Some (Inr go_on, con) \<Rightarrow> if \<not> go_on then Some (Inr (), con) else repl_loop lib host con)))"

text \<open>A word in single quotes.\<close>

definition quoted :: "string \<Rightarrow> rstr" where "quoted word = [0x27] @ ascii word @ [0x27]"

definition run_repl :: "cli_lib \<Rightarrow> ('s, 'io) host \<Rightarrow> (('s, 'io) console, 'io cli_error, unit) proc" where
  "run_repl lib host =
     proc_bind (proc_of (println (ascii ''type '' @ quoted ''help'' @ ascii '' for commands, '' @ quoted ''exit'' @ ascii '' to quit''))) (\<lambda>_. repl_loop lib host)"

section \<open>The program\<close>

datatype 'io exit_status = Exit_Ok | Exit_Usage | Exit_Error "'io cli_error"

fun exit_of :: "'io cli_error + unit \<Rightarrow> 'io exit_status" where
  "exit_of (Inr _) = Exit_Ok"
| "exit_of (Inl e) = Exit_Error e"

text \<open>The trace that \<open>install_frame_trace\<close> prints is the log of the client.\<close>

definition open_console :: "args \<Rightarrow> rstr \<Rightarrow> ('io + rstr) list \<Rightarrow> 's \<Rightarrow> ('s, 'io) console" where
  "open_console args stdout stdin s =
     \<lparr>con_client = (if args_follow args = None then set_frame_trace (client_new s) else client_new s),
      con_stdout = stdout, con_stdin = stdin\<rparr>"

definition cli_main ::
  "cli_lib \<Rightarrow> ('s, 'io) host \<Rightarrow> (rstr \<Rightarrow> 'io + 's) \<Rightarrow> args \<Rightarrow> ('io + rstr) list \<Rightarrow> ('io exit_status \<times> rstr) option" where
  "cli_main lib host connect args stdin =
     (if conflicting_args args then Some (Exit_Usage, [])
      else
        let banner = (if args_follow args = None then ascii ''connecting to '' @ args_addr args @ [0x0A] else []) in
        case connect (args_addr args) of
          Inl e \<Rightarrow> Some (Exit_Error (Reported (Stream_Error e)), banner)
        | Inr s \<Rightarrow>
            map_option (\<lambda>(r, con). (exit_of r, con_stdout con))
              ((case args_follow args of
                  Some key_name \<Rightarrow> run_follow_mode (lib_tables lib) host key_name
                | None \<Rightarrow>
                    (case args_command args of
                       None \<Rightarrow> run_repl lib host
                     | Some Cmd_Repl \<Rightarrow> run_repl lib host
                     | Some command \<Rightarrow> proc_bind (execute_command (lib_tables lib) host command) (\<lambda>_. proc_of (act_ok ()))))
               (open_console args banner stdin s)))"

end
