(* ===== verification/Test_Node_Loop.thy ===== *)
theory Test_Node_Loop
  imports Test_Node_Props Transport
begin

text \<open>
  The tasks of one connection of the test node: \<open>read_next_message\<close>, the loops
  \<open>read_frames\<close> and \<open>write_frames\<close> and their composition \<open>run_connection\<close>, over transport
  parameters. A stream of pipelined requests is served in order up to its end or first
  malformed frame.
\<close>

section \<open>Operations\<close>

text \<open>\<open>is_eof\<close> tells the error kind \<open>UnexpectedEof\<close>; the local buffers are values here.\<close>

definition read_next_message ::
  "('r, 'e) reader \<Rightarrow> ('e \<Rightarrow> bool) \<Rightarrow> ('r, unit, message_ref option) action" where
  "read_next_message read_exact is_eof r =
     (case read_exact 3 r of
        (Inl error, r) \<Rightarrow> if is_eof error then (Inr None, r) else (Inl (), r)
      | (Inr header, r) \<Rightarrow>
          let payload_len = unat (from_be [header ! 1, header ! 2] :: u16) in
          (case read_exact payload_len r of
             (Inl _, r) \<Rightarrow> (Inl (), r)
           | (Inr payload, r) \<Rightarrow>
               (case read_exact 1 r of
                  (Inl _, r) \<Rightarrow> (Inl (), r)
                | (Inr checksum, r) \<Rightarrow>
                    let frame_buf = header @ payload @ checksum in
                    (res_bind (res_map_err (\<lambda>_. ()) (parse_frame ClientToNode frame_buf)) (\<lambda>frame.
                       res_map Some (res_map_err (\<lambda>_. ()) (decode_message frame))), r))))"

text \<open>
  \<open>clock n\<close> is the uptime in seconds when the \<open>n\<close>-th message is dispatched. The result is
  \<open>None\<close> if the loop never ends and \<open>Some (None, r)\<close> if the task panics.
\<close>

partial_function (option) read_frames ::
  "('r, 'e) reader \<Rightarrow> ('e \<Rightarrow> bool) \<Rightarrow> (nat \<Rightarrow> u64) \<Rightarrow> u64 \<Rightarrow> nat \<Rightarrow> 'r \<Rightarrow> shared_state \<Rightarrow>
     (shared_state option \<times> 'r) option" where
  "read_frames read_exact is_eof clock cid n r st =
     (case read_next_message read_exact is_eof r of
        (Inr (Some message), r') \<Rightarrow>
          (case dispatch_message (clock n) cid message st of
             None \<Rightarrow> Some (None, r')
           | Some (continue, st') \<Rightarrow>
               if continue then read_frames read_exact is_eof clock cid (Suc n) r' st'
               else Some (Some st', r'))
      | (Inr None, r') \<Rightarrow> Some (Some st, r')
      | (Inl _, r') \<Rightarrow> Some (Some st, r'))"

text \<open>The writer task: the frames taken from the channel until it is closed and empty.\<close>

fun write_frames :: "(bytes \<Rightarrow> ('w, 'e, unit) action) \<Rightarrow> bytes list \<Rightarrow> ('w, 'e, unit) action" where
  "write_frames write_all [] = act_ok ()"
| "write_frames write_all (frame # frames) =
     act_bind (write_all frame) (\<lambda>_. write_frames write_all frames)"

text \<open>One connection on its own: register, read until the loop ends, unregister, drain the channel.\<close>

definition run_connection ::
  "('r, 'e) reader \<Rightarrow> ('e \<Rightarrow> bool) \<Rightarrow> (bytes \<Rightarrow> ('w, 'f, unit) action) \<Rightarrow> (nat \<Rightarrow> u64) \<Rightarrow>
     'r \<Rightarrow> 'w \<Rightarrow> shared_state \<Rightarrow> (shared_state option \<times> 'w) option" where
  "run_connection read_exact is_eof write_all clock r w st =
     (case shared_register st of (cid, st1) \<Rightarrow>
       (case read_frames read_exact is_eof clock cid 0 r st1 of
          None \<Rightarrow> None
        | Some (None, _) \<Rightarrow> Some (None, w)
        | Some (Some st2, _) \<Rightarrow>
            Some (Some (st2\<lparr>registry := unregister cid (registry st2)\<rparr>),
              snd (write_frames write_all (sent cid st2) w))))"

section \<open>Serving a stream\<close>

text \<open>The frames \<open>fs\<close> answer the messages \<open>ms\<close> one by one and in order.\<close>

fun served :: "message_ref list \<Rightarrow> bytes list \<Rightarrow> bool" where
  "served [] fs \<longleftrightarrow> fs = []"
| "served (m # ms) fs \<longleftrightarrow> (\<exists>resp ks fs'.
     fs = message_bytes resp # map (\<lambda>k. message_bytes (Changed k)) ks @ fs' \<and>
     answers m resp \<and> wire_message NodeToClient resp \<and> length ks \<le> 1 \<and> served ms fs')"

context byte_source
begin

lemma next_frame_whole:
  assumes "valid r" and pend: "pending r = o1 # hi # lo # p @ [k] @ rest"
    and len: "length p = unat (from_be [hi, lo] :: u16)"
  shows "\<exists>r'. read_next_message read_exact is_eof r =
      (res_bind (res_map_err (\<lambda>_. ()) (parse_frame ClientToNode (o1 # hi # lo # p @ [k]))) (\<lambda>frame.
         res_map Some (res_map_err (\<lambda>_. ()) (decode_message frame))), r') \<and> pending r' = rest \<and> valid r'"
proof -
  obtain r1 where r1: "read_exact 3 r = (Inr [o1, hi, lo], r1)" "pending r1 = p @ [k] @ rest" "valid r1"
    using read_append [of r "[o1, hi, lo]" "p @ [k] @ rest"] assms by (auto simp: eval_nat_numeral)
  obtain r2 where r2: "read_exact (length p) r1 = (Inr p, r2)" "pending r2 = [k] @ rest" "valid r2"
    using read_append [OF r1(3,2)] by auto
  obtain r3 where r3: "read_exact 1 r2 = (Inr [k], r3)" "pending r3 = rest" "valid r3"
    using read_append [OF r2(3,2)] by auto
  show ?thesis using r1 r2 r3 len by (simp add: read_next_message_def Let_def)
qed

lemma next_frame_short:
  assumes "valid r"
    and short: "length (pending r) < 3 \<or> length (pending r) < 4 + unat (from_be (take 2 (drop 1 (pending r))) :: u16)"
  shows "\<exists>r' x. read_next_message read_exact is_eof r = (x, r') \<and> (x = Inl () \<or> x = Inr None)"
proof (cases "length (pending r) < 3")
  case True
  then obtain t r' where "read_exact 3 r = (Inl t, r')" using read_short [OF assms(1)] by blast
  then show ?thesis by (simp add: read_next_message_def)
next
  case False
  then obtain o1 hi lo q where pend: "pending r = [o1, hi, lo] @ q"
    by (auto simp: not_less Suc_le_length_iff eval_nat_numeral)
  let ?n = "unat (from_be [hi, lo] :: u16)"
  from short False pend have q: "length q < 1 + ?n" by simp
  obtain r1 where r1: "read_exact 3 r = (Inr [o1, hi, lo], r1)" "pending r1 = q" "valid r1"
    using read_append [OF assms(1) pend] by (auto simp: eval_nat_numeral)
  show ?thesis
  proof (cases "length q = ?n")
    case True
    then obtain r2 where r2: "read_exact ?n r1 = (Inr q, r2)" "pending r2 = []" "valid r2"
      using read_enough [of r1 ?n] r1 by auto
    obtain t r3 where "read_exact 1 r2 = (Inl t, r3)" using read_short [of r2 1] r2 by auto
    with r1 r2 True show ?thesis by (simp add: read_next_message_def Let_def)
  next
    case False
    then obtain t r2 where "read_exact ?n r1 = (Inl t, r2)" using read_short [of r1 ?n] r1 q by auto
    with r1 show ?thesis by (simp add: read_next_message_def Let_def)
  qed
qed

lemma read_next_message_wire:
  assumes "valid r" and m: "wire_message ClientToNode m" "pending r = message_bytes m @ rest"
  shows "\<exists>r'. read_next_message read_exact is_eof r = (Inr (Some m), r') \<and> pending r' = rest \<and> valid r'"
proof -
  let ?p = "encode_payload m"
  obtain hi lo where hl: "to_be 2 (word_of_nat (length ?p) :: u16) = [hi, lo]" by (simp add: to_be_2_eq)
  have len: "length ?p = unat (from_be [hi, lo] :: u16)"
    using m hl be_2_length by (metis wire_message_def)
  have parts: "message_bytes m = as_u8 (message_opcode m) # hi # lo # ?p @ [compute_checksum (message_opcode m) ?p]"
    by (simp add: message_bytes_def frame_bytes_def hl)
  moreover have "parse_frame ClientToNode (message_bytes m) = Inr (view_of (message_opcode m) ?p)"
    unfolding parse_frame_layout using m by (auto simp: wire_message_def message_bytes_def)
  moreover have "message_decode (message_opcode m) ?p = Inr m"
    using m by (simp add: wire_message_def message_decode_encode)
  ultimately show ?thesis
    using next_frame_whole [OF assms(1) _ len, of "as_u8 (message_opcode m)" "compute_checksum (message_opcode m) ?p" rest is_eof] m
    by (auto simp: decode_view_of)
qed

text \<open>Either the next message is decoded from its frame, or the loop stops here.\<close>

lemma read_next_message_cases:
  assumes "valid r"
  obtains (message) m r' where "read_next_message read_exact is_eof r = (Inr (Some m), r')"
      "wire_message ClientToNode m" "pending r = message_bytes m @ pending r'" "valid r'"
  | (stop) x r' where "read_next_message read_exact is_eof r = (x, r')" "x = Inl () \<or> x = Inr None"
      "\<nexists>m rest. wire_message ClientToNode m \<and> pending r = message_bytes m @ rest"
proof (cases "\<exists>m rest. wire_message ClientToNode m \<and> pending r = message_bytes m @ rest")
  case True
  then obtain m rest where m: "wire_message ClientToNode m" "pending r = message_bytes m @ rest" by blast
  then show ?thesis using read_next_message_wire [OF assms m, of is_eof] message m by metis
next
  case False
  show ?thesis
  proof (cases rule: stream_frame_cases [of "pending r"])
    case short
    with next_frame_short [OF assms] stop False show ?thesis by metis
  next
    case (whole o1 hi lo p k rest)
    let ?frame = "o1 # hi # lo # p @ [k]"
    let ?res = "res_bind (res_map_err (\<lambda>_. ()) (parse_frame ClientToNode ?frame)) (\<lambda>frame.
         res_map Some (res_map_err (\<lambda>_. ()) (decode_message frame)))"
    have "?res = Inl ()"
    proof (rule ccontr)
      assume "?res \<noteq> Inl ()"
      then obtain f m where f: "parse_frame ClientToNode ?frame = Inr f" and m: "decode_message f = Inr m"
        by (auto simp: res_bind_def res_map_err_def res_map_def split: sum.splits)
      from f obtain oc q where "oc \<in> set (opcodes_of ClientToNode)" "length q \<le> 65535"
        "?frame = frame_bytes oc q" "f = view_of oc q" by (auto simp: parse_frame_layout)
      with m have "wire_message ClientToNode m" "?frame = message_bytes m"
        by (auto simp: decode_view_of message_decode_layout wire_message_def message_bytes_def)
      with whole(1) False show False by (metis append_Cons append_assoc)
    qed
    with next_frame_whole [OF assms whole, of is_eof] stop False show ?thesis by metis
  qed
qed

text \<open>Serving all messages of a stream; \<open>keeps\<close> is what dispatching keeps.\<close>

lemma read_frames_serves:
  assumes step: "\<And>e m st. keeps st \<Longrightarrow> wire_message ClientToNode m \<Longrightarrow>
      \<exists>resp ks st'. dispatch_message e cid m st = Some (True, st') \<and>
        sent cid st' = sent cid st @ message_bytes resp # map (\<lambda>k. message_bytes (Changed k)) ks \<and>
        answers m resp \<and> wire_message NodeToClient resp \<and> length ks \<le> 1 \<and> keeps st'"
  shows "valid r \<Longrightarrow> keeps st \<Longrightarrow>
    \<exists>ms rest st' r' fs. pending r = concat (map message_bytes ms) @ rest \<and>
      (\<forall>m \<in> set ms. wire_message ClientToNode m) \<and>
      (\<nexists>m rest'. wire_message ClientToNode m \<and> rest = message_bytes m @ rest') \<and>
      read_frames read_exact is_eof clock cid n r st = Some (Some st', r') \<and>
      sent cid st' = sent cid st @ fs \<and> served ms fs"
proof (induction "length (pending r)" arbitrary: r st n rule: less_induct)
  case less
  from less.prems(1) show ?case
  proof (cases rule: read_next_message_cases [of r is_eof])
    case (stop x r')
    then have "read_frames read_exact is_eof clock cid n r st = Some (Some st, r')"
      by (auto simp: read_frames.simps)
    with stop(3) show ?thesis
      by (intro exI [of _ "[]"] exI [of _ "pending r"] exI [of _ st] exI [of _ r']) simp
  next
    case (message m r1)
    obtain resp ks st1 where d: "dispatch_message (clock n) cid m st = Some (True, st1)"
      "sent cid st1 = sent cid st @ message_bytes resp # map (\<lambda>k. message_bytes (Changed k)) ks"
      "answers m resp" "wire_message NodeToClient resp" "length ks \<le> 1" "keeps st1"
      using step [OF less.prems(2) message(2)] by blast
    have "length (pending r1) < length (pending r)"
      using message(3) by (simp add: message_bytes_def)
    from less.hyps [OF this message(4) d(6), of "Suc n"] obtain ms rest st' r' fs
      where IH: "pending r1 = concat (map message_bytes ms) @ rest"
        "\<forall>m \<in> set ms. wire_message ClientToNode m"
        "\<nexists>m rest'. wire_message ClientToNode m \<and> rest = message_bytes m @ rest'"
        "read_frames read_exact is_eof clock cid (Suc n) r1 st1 = Some (Some st', r')"
        "sent cid st' = sent cid st1 @ fs" "served ms fs"
      by blast
    let ?fs = "message_bytes resp # map (\<lambda>k. message_bytes (Changed k)) ks @ fs"
    have "read_frames read_exact is_eof clock cid n r st = Some (Some st', r')"
      using message(1) d(1) IH(4) by (simp add: read_frames.simps [of _ _ _ _ n])
    moreover have "pending r = concat (map message_bytes (m # ms)) @ rest" using message(3) IH(1) by simp
    moreover have "\<forall>x \<in> set (m # ms). wire_message ClientToNode x" using message(2) IH(2) by simp
    moreover have "sent cid st' = sent cid st @ ?fs" using d(2) IH(5) by simp
    moreover have "served (m # ms) ?fs" using d IH(6) by auto
    ultimately show ?thesis using IH(3) by blast
  qed
qed

end

section \<open>Properties\<close>

definition serving :: "u64 \<Rightarrow> shared_state \<Rightarrow> bool" where
  "serving cid st \<longleftrightarrow> values_ok st \<and> open_connection cid st"

lemma open_connection_effects:
  "open_connection cid (effect_after cid st0 m st) = open_connection cid st"
  "open_connection cid (sent_to c f st) = open_connection cid st"
  "open_connection cid (effect_before cid m st) = open_connection cid st"
proof -
  have upd: "open_connection cid (update_handle c g s) = open_connection cid s"
    if "\<And>h. receiver_open (g h) = receiver_open h" for c g s
    using that by (auto simp: open_connection_def connection_effects)
  have all: "open_connection cid (notify_all k s) = open_connection cid s" for k s
  proof -
    have "receiver_open (notify k h) = receiver_open h" for h by (simp add: notify_def)
    then show ?thesis by (auto simp: open_connection_def connection_effects)
  qed
  show "open_connection cid (effect_after cid st0 m st) = open_connection cid st"
    by (cases "(cid, st0, m, st)" rule: effect_after.cases) (auto simp: upd all)
  show "open_connection cid (sent_to c f st) = open_connection cid st"
    by (simp add: sent_to_def upd)
  show "open_connection cid (effect_before cid m st) = open_connection cid st"
    by (cases "(cid, m, st)" rule: effect_before.cases) (auto simp: open_connection_frame)
qed

lemma serving_step:
  assumes "serving cid st" and wire: "wire_message ClientToNode m"
  shows "\<exists>resp ks st'. dispatch_message e cid m st = Some (True, st') \<and>
        sent cid st' = sent cid st @ message_bytes resp # map (\<lambda>k. message_bytes (Changed k)) ks \<and>
        answers m resp \<and> wire_message NodeToClient resp \<and> length ks \<le> 1 \<and> serving cid st'"
proof -
  have ok: "values_ok st" and op: "open_connection cid st" using assms(1) by (simp_all add: serving_def)
  let ?resp = "response_of e st m" and ?ks = "own_notifications cid m st"
  let ?st' = "effect_after cid st m (sent_to cid (message_bytes ?resp) (effect_before cid m st))"
  have "serving cid ?st'"
    using ok op values_ok_before [OF ok wire, of cid]
    by (simp add: serving_def values_ok_after values_ok_effects open_connection_effects)
  moreover have "length ?ks \<le> 1" by (cases "(cid, m, st)" rule: own_notifications.cases; simp)
  ultimately show ?thesis
    using dispatch_message_eq [OF ok op wire, of e] response_of_answers [OF wire, of e st]
      response_of_wire [OF ok wire, of e] sent_after_dispatch [OF op, of m "message_bytes ?resp"]
    by (intro exI [of _ ?resp] exI [of _ ?ks] exI [of _ ?st']) simp
qed

text \<open>
  C18: on a connection of a reachable node the read loop ends on every finite stream; it
  serves exactly the longest prefix of the stream that consists of valid client frames, and
  answers those messages one by one and in order, each with one conforming response, before
  it stops at the end of the stream or at the first malformed frame.
\<close>

theorem read_frames_fifo:
  assumes "byte_source read_exact pending valid" and "valid r"
    and "node_run es st" and "open_connection cid st"
  shows "\<exists>ms rest st' r' fs. pending r = concat (map message_bytes ms) @ rest \<and>
      (\<forall>m \<in> set ms. wire_message ClientToNode m) \<and>
      (\<nexists>m rest'. wire_message ClientToNode m \<and> rest = message_bytes m @ rest') \<and>
      read_frames read_exact is_eof clock cid n r st = Some (Some st', r') \<and>
      sent cid st' = sent cid st @ fs \<and> served ms fs"
proof (rule byte_source.read_frames_serves [OF assms(1) _ assms(2), where keeps = "serving cid"])
  show "serving cid st"
    using node_run_inv [OF assms(3)] assms(4) by (simp add: serving_def node_inv_def)
qed (rule serving_step)

lemma read_frames_fifo_witness:
  "\<exists>ms rest st' r' fs. slice_pending \<lparr>slice_bytes = message_bytes (Request Ping), slice_cursor = 0, slice_max_chunk = 1\<rparr>
        = concat (map message_bytes ms) @ rest \<and>
      (\<forall>m \<in> set ms. wire_message ClientToNode m) \<and>
      (\<nexists>m rest'. wire_message ClientToNode m \<and> rest = message_bytes m @ rest') \<and>
      read_frames slice_read_exact (\<lambda>e. e \<noteq> None) (\<lambda>_. 0) 1 0
        \<lparr>slice_bytes = message_bytes (Request Ping), slice_cursor = 0, slice_max_chunk = 1\<rparr> connected_node
        = Some (Some st', r') \<and>
      sent 1 st' = sent 1 connected_node @ fs \<and> served ms fs"
  by (rule read_frames_fifo [OF slice.byte_source_axioms slice_valid_one connected_node_run connected_node_open])

end
