(* ===== verification/End_To_End.thy ===== *)
theory End_To_End
  imports Client Test_Node_Loop
begin

text \<open>
  The client talking to the test node. The transport parameter of both is instantiated by a
  lossless ordered duplex pipe: what the client writes is served by the node's read loop, what
  the node puts into the connection's channel is what the client reads. The laws of the
  stream contracts are interpreted on it, and the client's operations are shown to return what
  the node stores.
\<close>

section \<open>The pipe\<close>

record pipe =
  pipe_node :: shared_state
  pipe_in :: bytes
  pipe_taken :: nat
  pipe_open :: bool
  pipe_count :: nat

text \<open>A frame that has not arrived completely: the node's \<open>read_exact\<close> still waits.\<close>

definition incomplete :: "bytes \<Rightarrow> bool" where
  "incomplete bs \<longleftrightarrow> length bs < 3 \<or> length bs < 4 + unat (from_be (take 2 (drop 1 bs)) :: u16)"

lemma next_message_shorter:
  assumes "read_next_message list_read is_eof bs = (Inr (Some m), rest)"
  shows "length rest < length bs"
proof (rule list_source.read_next_message_cases [where r = bs and is_eof = is_eof])
  fix m' r' assume "read_next_message list_read is_eof bs = (Inr (Some m'), r')" "bs = message_bytes m' @ r'"
  then show ?thesis using assms by (auto simp: message_bytes_def)
qed (use assms in auto)

text \<open>The node serves the frames that have arrived.\<close>

function pump :: "(nat \<Rightarrow> u64) \<Rightarrow> u64 \<Rightarrow> pipe \<Rightarrow> pipe" where
  "pump clock cid p =
     (if \<not> pipe_open p \<or> incomplete (pipe_in p) then p
      else case read_next_message list_read (\<lambda>_. False) (pipe_in p) of
        (Inr (Some m), rest) \<Rightarrow>
          (case dispatch_message (clock (pipe_count p)) cid m (pipe_node p) of
             Some (True, st) \<Rightarrow>
               pump clock cid (p\<lparr>pipe_node := st, pipe_in := rest, pipe_count := Suc (pipe_count p)\<rparr>)
           | Some (False, st) \<Rightarrow> p\<lparr>pipe_node := st, pipe_in := rest, pipe_open := False\<rparr>
           | None \<Rightarrow> p\<lparr>pipe_open := False\<rparr>)
      | _ \<Rightarrow> p\<lparr>pipe_open := False\<rparr>)"
  by pat_completeness auto

termination
  by (relation "measure (\<lambda>(clock, cid, p). length (pipe_in p))") (auto dest!: next_message_shorter [OF sym])

declare pump.simps [simp del]

definition pipe_write :: "(nat \<Rightarrow> u64) \<Rightarrow> u64 \<Rightarrow> (pipe, unit) writer" where
  "pipe_write clock cid bs p = (Inr (), pump clock cid (p\<lparr>pipe_in := pipe_in p @ bs\<rparr>))"

definition pipe_pending :: "u64 \<Rightarrow> pipe \<Rightarrow> bytes" where
  "pipe_pending cid p = drop (pipe_taken p) (concat (sent cid (pipe_node p)))"

definition pipe_read :: "u64 \<Rightarrow> (pipe, unit) reader" where
  "pipe_read cid n p =
     (if n \<le> length (pipe_pending cid p)
      then (Inr (take n (pipe_pending cid p)), p\<lparr>pipe_taken := pipe_taken p + n\<rparr>)
      else (Inl (), p))"

definition pipe_idle :: "u64 \<Rightarrow> pipe \<Rightarrow> bool" where
  "pipe_idle cid p \<longleftrightarrow> pipe_open p \<and> pipe_in p = [] \<and> serving cid (pipe_node p)
     \<and> pipe_taken p \<le> length (concat (sent cid (pipe_node p)))"

text \<open>Reading moves the client's position and leaves the node alone.\<close>

definition pipe_at :: "u64 \<Rightarrow> shared_state \<Rightarrow> nat \<Rightarrow> pipe \<Rightarrow> bool" where
  "pipe_at cid st n p \<longleftrightarrow> pipe_idle cid p \<and> pipe_node p = st \<and> pipe_count p = n"

interpretation pipe: byte_source "pipe_read cid" "pipe_pending cid" "pipe_at cid st n" for cid st n
  by unfold_locales (auto simp: pipe_read_def pipe_pending_def pipe_at_def pipe_idle_def add.commute)

section \<open>One request over the pipe\<close>

lemma message_bytes_complete: "wire_message ClientToNode m \<Longrightarrow> \<not> incomplete (message_bytes m)"
proof -
  assume "wire_message ClientToNode m"
  then have "length (encode_payload m) \<le> 65535" by (simp add: wire_message_def)
  then show ?thesis
    by (simp add: incomplete_def message_bytes_def frame_bytes_def to_be_2_eq)
      (simp flip: to_be_2_eq add: from_be_2 unat_of_nat_u16)
qed

lemma pump_message:
  assumes "pipe_open p" and "pipe_in p = message_bytes m" and wire: "wire_message ClientToNode m"
    and "dispatch_message (clock (pipe_count p)) cid m (pipe_node p) = Some (True, st)"
  shows "pump clock cid p = p\<lparr>pipe_node := st, pipe_in := [], pipe_count := Suc (pipe_count p)\<rparr>"
proof -
  have "read_next_message list_read (\<lambda>_. False) (message_bytes m) = (Inr (Some m), [])"
    using list_source.read_next_message_wire [where r = "message_bytes m" and m = m and rest = "[]"] wire by simp
  then show ?thesis
    using assms message_bytes_complete [OF wire]
    by (simp add: pump.simps [of clock cid p]) (simp add: pump.simps incomplete_def)
qed

text \<open>The notifications the client has not read yet.\<close>

definition unread :: "u64 \<Rightarrow> pipe \<Rightarrow> u16 list \<Rightarrow> bool" where
  "unread cid p ks \<longleftrightarrow> pipe_pending cid p = concat (map (\<lambda>k. message_bytes (Changed k)) ks)"

definition node_after :: "u64 \<Rightarrow> u64 \<Rightarrow> message_ref \<Rightarrow> shared_state \<Rightarrow> shared_state" where
  "node_after e cid m st =
     effect_after cid st m (sent_to cid (message_bytes (response_of e st m)) (effect_before cid m st))"

lemma pipe_write_message:
  assumes idle: "pipe_idle cid p" and wire: "wire_message ClientToNode m"
    and e: "e = clock (pipe_count p)"
  shows "\<exists>p'. pipe_write clock cid (message_bytes m) p = (Inr (), p') \<and> pipe_idle cid p' \<and>
     pipe_node p' = node_after e cid m (pipe_node p) \<and> pipe_count p' = Suc (pipe_count p) \<and>
     pipe_pending cid p' = pipe_pending cid p @ message_bytes (response_of e (pipe_node p) m) @
       concat (map (\<lambda>k. message_bytes (Changed k)) (own_notifications cid m (pipe_node p)))"
proof -
  let ?st = "pipe_node p"
  have ok: "values_ok ?st" and op: "open_connection cid ?st" using idle by (simp_all add: pipe_idle_def serving_def)
  have disp: "dispatch_message e cid m ?st = Some (True, node_after e cid m ?st)"
    unfolding node_after_def by (rule dispatch_message_eq [OF ok op wire])
  let ?p' = "p\<lparr>pipe_in := [], pipe_node := node_after e cid m ?st, pipe_count := Suc (pipe_count p)\<rparr>"
  have "pump clock cid (p\<lparr>pipe_in := message_bytes m\<rparr>) = ?p'"
    using pump_message [of "p\<lparr>pipe_in := message_bytes m\<rparr>" m clock cid "node_after e cid m ?st"] idle wire disp e
    by (simp add: pipe_idle_def)
  then have w: "pipe_write clock cid (message_bytes m) p = (Inr (), ?p')"
    using idle by (simp add: pipe_write_def pipe_idle_def)
  have sent: "sent cid (node_after e cid m ?st) = sent cid ?st @ message_bytes (response_of e ?st m) #
      map (\<lambda>k. message_bytes (Changed k)) (own_notifications cid m ?st)"
    unfolding node_after_def by (rule sent_after_dispatch [OF op])
  have "serving cid (node_after e cid m ?st)"
    using ok op values_ok_before [OF ok wire, of cid]
    by (simp add: node_after_def serving_def values_ok_after values_ok_effects open_connection_effects)
  with idle have "pipe_idle cid ?p'" by (auto simp: pipe_idle_def sent)
  with w idle show ?thesis
    by (intro exI [of _ ?p']) (auto simp: pipe_pending_def sent pipe_idle_def)
qed

lemma owned_response:
  assumes "wire_message ClientToNode m" and "values_ok st"
  obtains x where "(owned_message (response_of e st m) :: 'io client_error + message) = Inr x" "\<not> is_changed x"
proof -
  have "wire_message NodeToClient (response_of e st m)" by (rule response_of_wire [OF assms(2,1)])
  then obtain x where x: "(owned_message (response_of e st m) :: 'io client_error + message) = Inr x"
    using owned_message_node by blast
  moreover have "\<not> is_changed x"
    using owned_message_changed [OF x] answers_not_changed [OF response_of_answers [OF assms(1)]] by blast
  ultimately show ?thesis by (rule that)
qed

text \<open>
  Sending a request over an idle pipe puts the response of the node on the stream, after the
  notifications that were queued and before those caused by the request itself.
\<close>

lemma send_over_pipe:
  assumes idle: "pipe_idle cid (client_stream c)" and unread: "unread cid (client_stream c) ks"
    and wire: "wire_message ClientToNode m"
    and send: "send c = on_stream (pipe_write clock cid (message_bytes m)) (trace_frame Tx (message_bytes m) c)"
    and st: "st = pipe_node (client_stream c)" and e: "e = clock (pipe_count (client_stream c))"
  obtains c1 x where "send c = (Inr (), c1)"
    and "(owned_message (response_of e st m) :: unit client_error + message) = Inr x" and "\<not> is_changed x"
    and "wire_message NodeToClient (response_of e st m)"
    and "pipe_at cid (node_after e cid m st) (Suc (pipe_count (client_stream c))) (client_stream c1)"
    and "pipe_pending cid (client_stream c1) = concat (map (\<lambda>k. message_bytes (Changed k)) ks)
       @ message_bytes (response_of e st m) @ concat (map (\<lambda>k. message_bytes (Changed k)) (own_notifications cid m st))"
proof -
  have ok: "values_ok st" using idle by (simp add: pipe_idle_def serving_def st)
  obtain x where x: "(owned_message (response_of e st m) :: unit client_error + message) = Inr x" "\<not> is_changed x"
    by (rule owned_response [OF wire ok])
  obtain p1 where p1: "pipe_write clock cid (message_bytes m) (client_stream c) = (Inr (), p1)"
    "pipe_idle cid p1" "pipe_node p1 = node_after e cid m st" "pipe_count p1 = Suc (pipe_count (client_stream c))"
    "pipe_pending cid p1 = pipe_pending cid (client_stream c) @ message_bytes (response_of e st m) @
       concat (map (\<lambda>k. message_bytes (Changed k)) (own_notifications cid m st))"
    using pipe_write_message [where clock = clock, OF idle wire e] st by auto
  let ?c1 = "(trace_frame Tx (message_bytes m) c)\<lparr>client_stream := p1\<rparr>"
  show ?thesis
    by (rule that [of ?c1 x])
      (use p1 unread x response_of_wire [OF ok wire] in
        \<open>simp_all add: send on_stream_def trace_frame_def pipe_at_def unread_def\<close>)
qed

text \<open>
  A request operation over an idle pipe returns what the response of the node says, skips the
  notifications that were queued, and leaves those caused by the request itself.
\<close>

lemma call_over_pipe:
  assumes idle: "pipe_idle cid (client_stream c)" and unread: "unread cid (client_stream c) ks"
    and wire: "wire_message ClientToNode m"
    and send: "send c = on_stream (pipe_write clock cid (message_bytes m)) (trace_frame Tx (message_bytes m) c)"
    and st: "st = pipe_node (client_stream c)" and e: "e = clock (pipe_count (client_stream c))"
  shows "\<exists>c'. request_response (pipe_read cid) send request expected select c =
       Some (call_result request expected select (response_of e st m), c') \<and>
     pipe_idle cid (client_stream c') \<and> pipe_node (client_stream c') = node_after e cid m st \<and>
     pipe_count (client_stream c') = Suc (pipe_count (client_stream c)) \<and>
     unread cid (client_stream c') (own_notifications cid m st)"
proof -
  obtain c1 x where c1: "send c = (Inr (), c1)"
    and x: "(owned_message (response_of e st m) :: unit client_error + message) = Inr x" "\<not> is_changed x"
    and resp: "wire_message NodeToClient (response_of e st m)"
    and at: "pipe_at cid (node_after e cid m st) (Suc (pipe_count (client_stream c))) (client_stream c1)"
    and pend: "pipe_pending cid (client_stream c1) = concat (map (\<lambda>k. message_bytes (Changed k)) ks)
       @ message_bytes (response_of e st m) @ concat (map (\<lambda>k. message_bytes (Changed k)) (own_notifications cid m st))"
    by (rule send_over_pipe [where send = send and clock = clock, OF assms])
  from pipe.request_response_answered [where send = send and c = c and request = request and expected = expected
      and select = select, OF c1 resp x at pend]
  obtain c' where c': "request_response (pipe_read cid) send request expected select c =
      Some (call_result request expected select (response_of e st m), c')"
    "pipe_pending cid (client_stream c') = concat (map (\<lambda>k. message_bytes (Changed k)) (own_notifications cid m st))"
    "pipe_at cid (node_after e cid m st) (Suc (pipe_count (client_stream c))) (client_stream c')" by blast
  with c' show ?thesis by (auto simp: pipe_at_def unread_def)
qed

lemma value_fields:
  "voltage_ma (update_handle cid f st) = voltage_ma st" "gp1_string (update_handle cid f st) = gp1_string st" "gp2_u64 (update_handle cid f st) = gp2_u64 st" "gp3_i64 (update_handle cid f st) = gp3_i64 st"
  "mirror_out (update_handle cid f st) = mirror_out st" "small_str10 (update_handle cid f st) = small_str10 st" "small_str0 (update_handle cid f st) = small_str0 st" "perm_u64_rw (update_handle cid f st) = perm_u64_rw st"
  "voltage_ma (notify_all j st) = voltage_ma st" "gp1_string (notify_all j st) = gp1_string st" "gp2_u64 (notify_all j st) = gp2_u64 st" "gp3_i64 (notify_all j st) = gp3_i64 st"
  "mirror_out (notify_all j st) = mirror_out st" "small_str10 (notify_all j st) = small_str10 st" "small_str0 (notify_all j st) = small_str0 st" "perm_u64_rw (notify_all j st) = perm_u64_rw st"
  by (simp_all add: update_handle_def notify_all_def)

lemma get_value_effects:
  "get_value e k (update_handle cid f st) = get_value e k st"
  "get_value e k (notify_all j st) = get_value e k st"
  "get_value e k (sent_to cid g st) = get_value e k st"
  by (simp_all only: get_value_def value_fields sent_to_def)

lemma get_after_write:
  assumes "write_accepts k v" and "k \<in> readable_keys"
  shows "get_value e k (node_after e' cid (Request (Write k v)) st) = Inr (wire_of_value v)"
proof -
  have "get_value e k (node_after e' cid (Request (Write k v)) st) = get_value e k (write_update k v st)"
    using assms(1) unfolding node_after_def by (simp add: get_value_effects)
  then show ?thesis using get_written [OF assms] by simp
qed

section \<open>Listing the key table\<close>

definition info_of :: "u16 \<Rightarrow> key_info" where
  "info_of k = \<lparr>info_keyref = k, info_keyflags = KeyFlags (spec_flags (KEY_SPECS ! unat k)),
                info_name = spec_name (KEY_SPECS ! unat k)\<rparr>"

lemma key_spec_index: "unat k < 14 \<Longrightarrow> key_spec k = Some (KEY_SPECS ! unat k)"
  by (simp add: key_spec_def list_get_def length_KEY_SPECS)

text \<open>Reading the key table changes no value.\<close>

definition same_values :: "pipe \<Rightarrow> pipe \<Rightarrow> bool" where
  "same_values p q \<longleftrightarrow> (\<forall>e k. get_value e k (pipe_node p) = get_value e k (pipe_node q))"

lemma same_values_trans: "same_values p q \<Longrightarrow> same_values q r \<Longrightarrow> same_values p r"
  by (simp add: same_values_def)

lemma same_values_table:
  "pipe_node q = node_after e cid (Request (GetKey k)) (pipe_node p) \<Longrightarrow> same_values p q"
  "pipe_node q = node_after e cid (Request GetKeytabLen) (pipe_node p) \<Longrightarrow> same_values p q"
  "pipe_node q = node_after e cid (Request (Get k)) (pipe_node p) \<Longrightarrow> same_values p q"
  "pipe_node q = node_after e cid (Request Identify) (pipe_node p) \<Longrightarrow> same_values p q"
  "pipe_node q = node_after e cid (Request (Observe k)) (pipe_node p) \<Longrightarrow> same_values p q"
  by (simp_all add: same_values_def node_after_def get_value_effects)

lemma client_key_over_pipe:
  assumes "pipe_idle cid (client_stream c)" and "unread cid (client_stream c) ks" and "unat k < 14"
  obtains c' where "client_key (pipe_read cid) (pipe_write clock cid) k c = Some (Inr (info_of k), c')"
    and "pipe_idle cid (client_stream c')" and "unread cid (client_stream c') []"
    and "same_values (client_stream c) (client_stream c')"
proof -
  let ?e = "clock (pipe_count (client_stream c))"
  obtain c' where "client_key (pipe_read cid) (pipe_write clock cid) k c =
      Some (call_result GETKEY ''KEY'' (select_key k) (response_of ?e (pipe_node (client_stream c)) (Request (GetKey k))), c')"
    "pipe_idle cid (client_stream c')" "unread cid (client_stream c') []"
    "pipe_node (client_stream c') = node_after ?e cid (Request (GetKey k)) (pipe_node (client_stream c))"
    using call_over_pipe [where clock = clock and cid = cid and send = "send_keyref_request (pipe_write clock cid) GETKEY k",
        OF assms(1,2) wire_requests(3) send_keyref_frame(2) refl refl, of GETKEY "''KEY''" "select_key k"]
    by (auto simp: client_key_def)
  moreover have "call_result GETKEY ''KEY'' (select_key k) (response_of e st (Request (GetKey k))) = Inr (info_of k)" for e st
    using assms(3) by (simp add: key_spec_index call_result_def select_key_def info_of_def)
  ultimately show ?thesis using that same_values_table(1) by metis
qed

lemma list_keys_loop_over_pipe:
  "\<forall>k \<in> set refs. unat k < 14 \<Longrightarrow> pipe_idle cid (client_stream c) \<Longrightarrow> unread cid (client_stream c) [] \<Longrightarrow>
     \<exists>c'. list_keys_loop (pipe_read cid) (pipe_write clock cid) refs keys c = Some (Inr (keys @ map info_of refs), c') \<and>
       pipe_idle cid (client_stream c') \<and> unread cid (client_stream c') [] \<and> same_values (client_stream c) (client_stream c')"
proof (induction refs arbitrary: keys c)
  case Nil
  then show ?case by (auto simp: proc_of_def same_values_def)
next
  case (Cons k refs)
  then have "unat k < 14" by simp
  from client_key_over_pipe [where clock = clock, OF Cons.prems(2,3) this]
  obtain c1 where c1: "client_key (pipe_read cid) (pipe_write clock cid) k c = Some (Inr (info_of k), c1)"
    "pipe_idle cid (client_stream c1)" "unread cid (client_stream c1) []" "same_values (client_stream c) (client_stream c1)" by blast
  from Cons.IH [OF _ c1(2,3), of "keys @ [info_of k]"] Cons.prems(1) c1(1,4) show ?case
    by (auto simp: proc_bind_def intro: same_values_trans)
qed

lemma keyrefs_below_KEY_COUNT:
  "k \<in> set (keyrefs_below KEY_COUNT) \<longleftrightarrow> unat k < 14"
  "map info_of (keyrefs_below KEY_COUNT) =
     map (\<lambda>i. info_of (word_of_nat i)) [0..<14]"
proof -
  have "unat (word_of_nat (unat k) :: u16) = unat k" by simp
  moreover have "unat (word_of_nat i :: u16) = i" if "i < 14" for i using that by (simp add: unat_of_nat)
  ultimately show "k \<in> set (keyrefs_below KEY_COUNT) \<longleftrightarrow> unat k < 14"
    by (auto simp: keyrefs_below_def KEY_COUNT_def image_iff intro: bexI [of _ "unat k"])
qed (simp add: keyrefs_below_def KEY_COUNT_def)

lemma client_list_keys_over_pipe:
  assumes "pipe_idle cid (client_stream c)" and "unread cid (client_stream c) ks"
  shows "\<exists>c'. client_list_keys (pipe_read cid) (pipe_write clock cid) c =
       Some (Inr (map info_of (keyrefs_below KEY_COUNT)), c') \<and>
     pipe_idle cid (client_stream c') \<and> unread cid (client_stream c') [] \<and> same_values (client_stream c) (client_stream c')"
proof -
  let ?e = "clock (pipe_count (client_stream c))"
  have "call_result GETKEYTABLEN ''KEYTABLEN'' select_keytablen (response_of e st (Request GetKeytabLen)) = Inr KEY_COUNT" for e st
    by (simp add: call_result_def select_keytablen_def)
  then obtain c1 where c1: "client_key_count (pipe_read cid) (pipe_write clock cid) c = Some (Inr KEY_COUNT, c1)"
    "pipe_idle cid (client_stream c1)" "unread cid (client_stream c1) []"
    "pipe_node (client_stream c1) = node_after ?e cid (Request GetKeytabLen) (pipe_node (client_stream c))"
    using call_over_pipe [where clock = clock and cid = cid and send = "send_empty_request (pipe_write clock cid) GETKEYTABLEN",
        OF assms wire_requests(7) send_keyref_frame(5) refl refl, of GETKEYTABLEN "''KEYTABLEN''" select_keytablen]
    by (auto simp: client_key_count_def)
  obtain c' where "list_keys_loop (pipe_read cid) (pipe_write clock cid) (keyrefs_below KEY_COUNT) [] c1 =
      Some (Inr (map info_of (keyrefs_below KEY_COUNT)), c')"
    "pipe_idle cid (client_stream c')" "unread cid (client_stream c') []" "same_values (client_stream c1) (client_stream c')"
    using list_keys_loop_over_pipe [of "keyrefs_below KEY_COUNT", OF _ c1(2,3), of clock "[]"]
    by (auto simp: keyrefs_below_KEY_COUNT(1))
  with c1 show ?thesis
    by (auto simp: client_list_keys_def proc_bind_def intro: same_values_trans [OF same_values_table(2)])
qed

lemma filter_distinct_image: "distinct (map f xs) \<Longrightarrow> x \<in> set xs \<Longrightarrow> filter (\<lambda>y. f y = f x) xs = [x]"
proof (induction xs)
  case (Cons a xs)
  show ?case
  proof (cases "a = x")
    case True
    with Cons.prems have "filter (\<lambda>y. f y = f x) xs = []" by (auto simp: filter_empty_conv image_iff)
    with True show ?thesis by simp
  next
    case False
    with Cons have "f a \<noteq> f x" by (auto simp: image_iff)
    with False Cons show ?thesis by simp
  qed
qed simp

lemma key_names_distinct: "distinct (map info_name (map info_of (keyrefs_below KEY_COUNT)))"
proof -
  have "distinct (map spec_name KEY_SPECS)" by code_simp
  moreover have "map info_name (map info_of (keyrefs_below KEY_COUNT)) = map spec_name KEY_SPECS"
    unfolding keyrefs_below_KEY_COUNT(2)
    by (rule nth_equalityI) (simp_all add: length_KEY_SPECS info_of_def unat_of_nat)
  ultimately show ?thesis by simp
qed

lemma resolve_matches_table:
  "resolve_matches name (map info_of (keyrefs_below KEY_COUNT)) = Inr k \<longleftrightarrow>
     unat k < 14 \<and> spec_name (KEY_SPECS ! unat k) = name"
  "(\<nexists>k. unat (k :: u16) < 14 \<and> spec_name (KEY_SPECS ! unat k) = name) \<Longrightarrow>
     resolve_matches name (map info_of (keyrefs_below KEY_COUNT)) = Inl (KeyNotFound name)"
proof -
  let ?keys = "map info_of (keyrefs_below KEY_COUNT)"
  have hit: "resolve_matches name ?keys = Inr j" if "unat j < 14" "spec_name (KEY_SPECS ! unat j) = name" for j
  proof -
    have "filter (\<lambda>k. info_name k = info_name (info_of j)) ?keys = [info_of j]"
      using that(1) by (intro filter_distinct_image [OF key_names_distinct]) (auto simp: keyrefs_below_KEY_COUNT(1))
    then show ?thesis using that(2) by (simp add: resolve_matches_def info_of_def)
  qed
  show miss: "resolve_matches name ?keys = Inl (KeyNotFound name)"
    if "\<nexists>k. unat (k :: u16) < 14 \<and> spec_name (KEY_SPECS ! unat k) = name"
  proof -
    have "filter (\<lambda>k. info_name k = name) ?keys = []"
      using that by (auto simp: filter_empty_conv keyrefs_below_KEY_COUNT(1) info_of_def)
    then show ?thesis by (simp add: resolve_matches_def)
  qed
  show "resolve_matches name ?keys = Inr k \<longleftrightarrow> unat k < 14 \<and> spec_name (KEY_SPECS ! unat k) = name"
    using hit miss by (metis Inl_Inr_False sum.inject(2))
qed

text \<open>Resolving a name of the table over the pipe.\<close>

lemma client_resolve_over_pipe:
  assumes "pipe_idle cid (client_stream c)" and "unread cid (client_stream c) ks" and "unat k < 14"
  obtains c' where "client_resolve_keyref_by_name (pipe_read cid) (pipe_write clock cid) (spec_name (KEY_SPECS ! unat k)) c =
      Some (Inr k, c')"
    and "pipe_idle cid (client_stream c')" and "unread cid (client_stream c') []"
    and "same_values (client_stream c) (client_stream c')"
proof -
  obtain c' where "client_list_keys (pipe_read cid) (pipe_write clock cid) c =
       Some (Inr (map info_of (keyrefs_below KEY_COUNT)), c')"
    "pipe_idle cid (client_stream c')" "unread cid (client_stream c') []" "same_values (client_stream c) (client_stream c')"
    using client_list_keys_over_pipe [where clock = clock, OF assms(1,2)] by blast
  moreover have "resolve_matches (spec_name (KEY_SPECS ! unat k)) (map info_of (keyrefs_below KEY_COUNT)) = Inr k"
    using resolve_matches_table(1) assms(3) by blast
  ultimately show ?thesis
    by (intro that [of c']) (simp_all add: client_resolve_keyref_by_name_def proc_bind_def proc_of_def)
qed

section \<open>A connected pipe, for the witnesses\<close>

definition fresh_pipe :: pipe where
  "fresh_pipe = \<lparr>pipe_node = connected_node, pipe_in = [], pipe_taken = 0, pipe_open = True, pipe_count = 0\<rparr>"

lemma fresh_pipe_idle: "pipe_idle 1 fresh_pipe" and fresh_pipe_unread: "unread 1 fresh_pipe []"
proof -
  have ok: "values_ok connected_node" using node_run_inv [OF connected_node_run] by (simp add: node_inv_def)
  have "sent 1 connected_node = []"
    by (simp add: sent_def connection_def connected_node_def shared_register_def register_def shared_new_def
        registry_new_def handle_new_def Let_def)
  with ok connected_node_open show "pipe_idle 1 fresh_pipe" "unread 1 fresh_pipe []"
    by (simp_all add: pipe_idle_def fresh_pipe_def serving_def unread_def pipe_pending_def)
qed

section \<open>Properties\<close>

text \<open>
  The client's \<open>get\<close> on a connection to the node returns exactly the value the node
  stores for the key, or the request error with the node's code when the key does not exist or
  is not readable; queued notifications are skipped and the connection is ready again.
\<close>

lemma client_get_end_to_end:
  assumes "pipe_idle cid (client_stream c)" and "unread cid (client_stream c) ks"
  shows "\<exists>c'. client_get (pipe_read cid) (pipe_write clock cid) k c =
       Some (case get_value (clock (pipe_count (client_stream c))) k (pipe_node (client_stream c)) of
               Inl code \<Rightarrow> Inl (RequestError GET code)
             | Inr v \<Rightarrow> Inr (owned_value (value_of_wire v)), c') \<and>
     pipe_idle cid (client_stream c') \<and> unread cid (client_stream c') []"
proof -
  obtain c' where "client_get (pipe_read cid) (pipe_write clock cid) k c =
      Some (call_result GET ''VALUE'' select_value
        (response_of (clock (pipe_count (client_stream c))) (pipe_node (client_stream c)) (Request (Get k))), c')"
    "pipe_idle cid (client_stream c')" "unread cid (client_stream c') []"
    using call_over_pipe [where clock = clock and cid = cid and send = "send_keyref_request (pipe_write clock cid) GET k", OF assms wire_requests(2) send_keyref_frame(1) refl refl, of GET "''VALUE''" select_value]
    by (auto simp: client_get_def)
  then show ?thesis
    by (intro exI [of _ c']) (simp add: call_result_def select_value_def unexpected_message_def split: sum.split)
qed

lemma client_get_end_to_end_witness:
  "\<exists>c'. client_get (pipe_read 1) (pipe_write (\<lambda>_. 0) 1) 13 (client_new fresh_pipe) =
       Some (case get_value 0 13 connected_node of
               Inl code \<Rightarrow> Inl (RequestError GET code)
             | Inr v \<Rightarrow> Inr (owned_value (value_of_wire v)), c') \<and>
     pipe_idle 1 (client_stream c') \<and> unread 1 (client_stream c') []"
  using client_get_end_to_end [of 1 "client_new fresh_pipe" "[]" "\<lambda>_. 0" 13] fresh_pipe_idle fresh_pipe_unread
  by (simp add: client_new_def) (simp add: fresh_pipe_def)

text \<open>
  A value the client writes to a key that accepts it is returned by the write and by a
  following \<open>get\<close> of the key, over the same connection, also when the write makes the node
  send a notification in between.
\<close>

lemma client_write_then_get:
  assumes "pipe_idle cid (client_stream c)" and "unread cid (client_stream c) ks"
    and "fitting_value v" and "write_accepts k v" and "k \<in> readable_keys"
  shows "\<exists>c1 c2. client_write (pipe_read cid) (pipe_write clock cid) k (owned_value v) c = Some (Inr (owned_value v), c1) \<and>
     client_get (pipe_read cid) (pipe_write clock cid) k c1 = Some (Inr (owned_value v), c2)"
proof -
  let ?m = "Request (Write k v)" and ?st = "pipe_node (client_stream c)"
  have v: "wf_value v" "length (encode_value v) \<le> 65533" using assms(3) by (simp_all add: fitting_value_def)
  then have wire: "wire_message ClientToNode ?m"
    by (simp add: wire_message_def opcodes_of_def client_opcodes_def)
  obtain c1 where c1: "client_write (pipe_read cid) (pipe_write clock cid) k (owned_value v) c =
      Some (call_result WRITE ''WRITTEN'' select_written
        (response_of (clock (pipe_count (client_stream c))) ?st ?m), c1)"
    "pipe_idle cid (client_stream c1)" "unread cid (client_stream c1) (own_notifications cid ?m ?st)"
    "pipe_node (client_stream c1) = node_after (clock (pipe_count (client_stream c))) cid ?m ?st"
    using call_over_pipe [where clock = clock and cid = cid and
        send = "send_write_request (pipe_write clock cid) k (owned_value v)", OF assms(1,2) wire send_write_frame [OF v] refl refl, of WRITE "''WRITTEN''" select_written]
    by (auto simp: client_write_def)
  have echo: "call_result WRITE ''WRITTEN'' select_written
      (response_of (clock (pipe_count (client_stream c))) ?st ?m) = Inr (owned_value v)"
    using assms(4) by (simp add: call_result_def select_written_def)
  let ?st1 = "pipe_node (client_stream c1)" and ?e = "clock (pipe_count (client_stream c1))"
  have get: "get_value ?e k ?st1 = Inr (wire_of_value v)"
    unfolding c1(4) by (rule get_after_write [OF assms(4,5)])
  obtain c2 where "client_get (pipe_read cid) (pipe_write clock cid) k c1 =
      Some (call_result GET ''VALUE'' select_value (response_of ?e ?st1 (Request (Get k))), c2)"
    using call_over_pipe [where clock = clock and cid = cid and send = "send_keyref_request (pipe_write clock cid) GET k",
        OF c1(2,3) wire_requests(2) send_keyref_frame(1) refl refl, of GET "''VALUE''" select_value]
    by (auto simp: client_get_def)
  moreover have "call_result GET ''VALUE'' select_value (response_of ?e ?st1 (Request (Get k))) = Inr (owned_value v)"
    by (simp add: get call_result_def select_value_def value_of_wire_of [OF assms(4)])
  ultimately show ?thesis using c1(1) echo by metis
qed

lemma client_write_then_get_witness:
  "\<exists>c1 c2. client_write (pipe_read 1) (pipe_write (\<lambda>_. 0) 1) 4 (owned_value (I64 7)) (client_new fresh_pipe)
       = Some (Inr (owned_value (I64 7)), c1) \<and>
     client_get (pipe_read 1) (pipe_write (\<lambda>_. 0) 1) 4 c1 = Some (Inr (owned_value (I64 7)), c2)"
  by (rule client_write_then_get [of 1 _ "[]"])
    (use fresh_pipe_idle fresh_pipe_unread in
      \<open>simp_all add: client_new_def fitting_value_def key_defs readable_keys_def\<close>)

text \<open>
  The client's \<open>list_keys\<close> over a connection to the node returns the node's whole key
  table, in order, with every flag and name as the node defines them.
\<close>

lemma client_list_keys_end_to_end:
  assumes "pipe_idle cid (client_stream c)" and "unread cid (client_stream c) ks"
  shows "\<exists>c'. client_list_keys (pipe_read cid) (pipe_write clock cid) c =
       Some (Inr (map (\<lambda>i. \<lparr>info_keyref = word_of_nat i, info_keyflags = KeyFlags (spec_flags (KEY_SPECS ! i)),
                          info_name = spec_name (KEY_SPECS ! i)\<rparr>) [0..<length KEY_SPECS]), c') \<and>
     pipe_idle cid (client_stream c')"
proof -
  have "map info_of (keyrefs_below KEY_COUNT) =
      map (\<lambda>i. \<lparr>info_keyref = word_of_nat i, info_keyflags = KeyFlags (spec_flags (KEY_SPECS ! i)),
                          info_name = spec_name (KEY_SPECS ! i)\<rparr>) [0..<length KEY_SPECS]"
    unfolding keyrefs_below_KEY_COUNT(2) length_KEY_SPECS
    by (rule map_cong) (simp_all add: info_of_def unat_of_nat)
  with client_list_keys_over_pipe [where clock = clock, OF assms] show ?thesis by auto
qed

lemma client_list_keys_end_to_end_witness:
  "\<exists>c'. client_list_keys (pipe_read 1) (pipe_write (\<lambda>_. 0) 1) (client_new fresh_pipe) =
       Some (Inr (map (\<lambda>i. \<lparr>info_keyref = word_of_nat i, info_keyflags = KeyFlags (spec_flags (KEY_SPECS ! i)),
                          info_name = spec_name (KEY_SPECS ! i)\<rparr>) [0..<length KEY_SPECS]), c') \<and>
     pipe_idle 1 (client_stream c')"
  by (rule client_list_keys_end_to_end [of 1 _ "[]"])
    (use fresh_pipe_idle fresh_pipe_unread in \<open>simp_all add: client_new_def\<close>)

text \<open>
  Resolving a name over a connection to the node returns the key reference exactly when
  the key table has a key of that name, and reports \<open>KeyNotFound\<close> otherwise; no name of the
  node is ambiguous.
\<close>

lemma client_resolve_end_to_end:
  assumes "pipe_idle cid (client_stream c)" and "unread cid (client_stream c) ks"
  shows "\<exists>r c'. client_resolve_keyref_by_name (pipe_read cid) (pipe_write clock cid) name c = Some (r, c') \<and>
     (\<forall>k. r = Inr k \<longleftrightarrow> unat k < length KEY_SPECS \<and> spec_name (KEY_SPECS ! unat k) = name) \<and>
     ((\<nexists>k :: u16. unat k < length KEY_SPECS \<and> spec_name (KEY_SPECS ! unat k) = name) \<longrightarrow> r = Inl (KeyNotFound name))"
proof -
  obtain c' where "client_list_keys (pipe_read cid) (pipe_write clock cid) c =
       Some (Inr (map info_of (keyrefs_below KEY_COUNT)), c')"
    using client_list_keys_over_pipe [where clock = clock, OF assms] by blast
  then have "client_resolve_keyref_by_name (pipe_read cid) (pipe_write clock cid) name c =
      Some (resolve_matches name (map info_of (keyrefs_below KEY_COUNT)), c')"
    by (simp add: client_resolve_keyref_by_name_def proc_bind_def proc_of_def)
  then show ?thesis
    unfolding length_KEY_SPECS using resolve_matches_table(1) [of name] resolve_matches_table(2) [of name] by blast
qed

lemma client_resolve_end_to_end_witness:
  "\<exists>r c'. client_resolve_keyref_by_name (pipe_read 1) (pipe_write (\<lambda>_. 0) 1) (ascii ''uptime'') (client_new fresh_pipe) = Some (r, c') \<and>
     (\<forall>k. r = Inr k \<longleftrightarrow> unat k < length KEY_SPECS \<and> spec_name (KEY_SPECS ! unat k) = ascii ''uptime'') \<and>
     ((\<nexists>k :: u16. unat k < length KEY_SPECS \<and> spec_name (KEY_SPECS ! unat k) = ascii ''uptime'') \<longrightarrow>
        r = Inl (KeyNotFound (ascii ''uptime'')))"
  by (rule client_resolve_end_to_end [of 1 _ "[]"])
    (use fresh_pipe_idle fresh_pipe_unread in \<open>simp_all add: client_new_def\<close>)

end
