(* ===== verification/Pipe_Host.thy ===== *)
theory Pipe_Host
  imports Client_Timeout End_To_End
begin

text \<open>
  The pipe to the test node as the host of a tool: reads and writes are those of the pipe, and
  no timer fires, because the node has answered before the client waits.
\<close>

definition pipe_host :: "(nat \<Rightarrow> u64) \<Rightarrow> u64 \<Rightarrow> (pipe, unit) host" where
  "pipe_host clock cid = \<lparr>host_read = pipe_read cid, host_write = pipe_write clock cid,
     host_partial = (\<lambda>_ p. p), host_expiry = (\<lambda>_ _. None)\<rparr>"

lemma pipe_host_simps [simp]:
  "host_read (pipe_host clock cid) = pipe_read cid"
  "host_write (pipe_host clock cid) = pipe_write clock cid"
  "host_partial (pipe_host clock cid) n p = p"
  "host_expiry (pipe_host clock cid) d p = None"
  by (simp_all add: pipe_host_def)

interpretation pipe_host: client_host "pipe_host clock cid" "pipe_pending cid" "\<lambda>_. True" for clock cid
  by unfold_locales (auto simp: pipe_read_def pipe_pending_def add.commute intro: exI [of _ 0])

end
