(* ===== verification/Test_Cli_Props.thy ===== *)
theory Test_Cli_Props
  imports Test_Cli Pipe_Host
begin

text \<open>
  Properties of the command line tool: what a message prints stays in one line of fields, the
  prompt ends on finite input, values are read as they are printed, follow mode prints the
  values it receives, and a value written by the tool to the test node is printed by a
  following \<open>get\<close>.
\<close>

section \<open>Printed lines\<close>

text \<open>The strings of a message are valid UTF-8, as the values of a \<open>String\<close> are.\<close>

fun message_utf8 :: "message \<Rightarrow> bool" where
  "message_utf8 (Message_Caps s) = is_utf8 s"
| "message_utf8 (Message_Identified s) = is_utf8 s"
| "message_utf8 (Message_Key _ name) = is_utf8 name"
| "message_utf8 (Message_Value v) = value_utf8 v"
| "message_utf8 (Message_Written v) = value_utf8 v"
| "message_utf8 _ = True"

lemma owned_message_utf8:
  assumes "wf_message m" and "owned_message m = (Inr x :: 'io client_error + message)"
  shows "message_utf8 x"
proof (cases m)
  case (OrdinaryResponse r)
  have "value_utf8 (owned_value v)" if "wf_value v" for v
    using that by (cases v) (simp_all add: wf_str_def)
  then show ?thesis using assms OrdinaryResponse by (cases r) (auto simp: wf_str_def)
next
  case (CompatibilityResponse c)
  then show ?thesis using assms by (auto simp: wf_caps_def wf_str_def)
qed (use assms in auto)

lemma plain_keywords:
  "plain (ascii ''ok'')" "plain (ascii ''caps'')" "plain (ascii ''identified'')" "plain (ascii ''key-count'')"
  "plain (ascii ''key'')" "plain (ascii ''value'')" "plain (ascii ''written'')" "plain (ascii ''error'')"
  "plain (ascii ''changed'')" "plain (ascii ''bool'')" "plain (ascii ''i64'')" "plain (ascii ''str'')"
  "plain (ascii ''0x'')"
  by code_simp+

lemma plain_fields:
  "plain (hex_code b)" "plain (format_flags flags)"
  "value_utf8 v \<Longrightarrow> plain (format_follow_value tables v)"
  by (auto simp: hex_code_def plain_hex_byte plain_keywords format_flags_def plain_byte_def format_follow_value_def
      plain_bool_display plain_numbers plain_escape_debug split: client_value.split)

text \<open>The fields of a line, separated by tabs.\<close>

definition kind_field :: "client_value \<Rightarrow> rstr" where
  "kind_field v = (case v of Value_Bool _ \<Rightarrow> ascii ''bool'' | Value_I64 _ \<Rightarrow> ascii ''i64'' | Value_Str _ \<Rightarrow> ascii ''str'')"

lemma format_value_fields: "format_value tables v = join [0x09] [kind_field v, format_follow_value tables v]"
  by (cases v) (simp_all add: format_value_def kind_field_def format_follow_value_def)

definition message_fields :: "char_tables \<Rightarrow> message \<Rightarrow> rstr list" where
  "message_fields tables m = (case m of
     Message_Ok \<Rightarrow> [ascii ''ok'']
   | Message_Caps s \<Rightarrow> [ascii ''caps'', escape_debug tables s]
   | Message_Identified s \<Rightarrow> [ascii ''identified'', escape_debug tables s]
   | Message_KeytabLen n \<Rightarrow> [ascii ''key-count'', text_of_u16 n]
   | Message_Key keyflags name \<Rightarrow> [ascii ''key'', format_flags keyflags, escape_debug tables name]
   | Message_Value v \<Rightarrow> [ascii ''value'', kind_field v, format_follow_value tables v]
   | Message_Written v \<Rightarrow> [ascii ''written'', kind_field v, format_follow_value tables v]
   | Message_Error code \<Rightarrow> [ascii ''error'', hex_code code]
   | Message_Changed k \<Rightarrow> [ascii ''changed'', text_of_u16 k])"

lemma message_line_fields: "message_line tables m = join [0x09] (message_fields tables m)"
  by (cases m) (simp_all add: message_line_def message_fields_def format_value_fields)

lemma message_fields_plain: "message_utf8 m \<Longrightarrow> list_all plain (message_fields tables m)"
  by (cases m)
    (auto simp: message_fields_def plain_keywords plain_fields plain_numbers plain_escape_debug kind_field_def
      split: client_value.split)

section \<open>Values are read as they are printed\<close>

definition input_kind :: "client_value \<Rightarrow> value_input_kind" where
  "input_kind v = (case v of Value_Bool _ \<Rightarrow> Input_Bool | Value_I64 _ \<Rightarrow> Input_I64 | Value_Str _ \<Rightarrow> Input_Str)"

text \<open>The text of a value without escapes.\<close>

definition value_text :: "client_value \<Rightarrow> rstr" where
  "value_text v = (case v of Value_Bool b \<Rightarrow> bool_display b | Value_I64 i \<Rightarrow> text_of_i64 i | Value_Str s \<Rightarrow> s)"

lemma parse_input_value_text: "parse_input_value tables (input_kind v) [value_text v] = Inr v"
  by (cases v)
    (simp_all add: parse_input_value_def input_kind_def value_text_def parse_bool_def bool_display_def parse_i64_of_i64
      ascii_def)

section \<open>Every command returns\<close>

lemma snd_print_message:
  "snd (print_message tables m con :: ('e + unit) \<times> _) = con\<lparr>con_stdout := con_stdout con @ message_line tables m @ [0x0A]\<rparr>"
  by (simp add: print_message_def println_def print_text_def)

context client_host
begin

definition con_ok :: "('b + rstr) list \<Rightarrow> ('a, 'b) console \<Rightarrow> bool" where
  "con_ok stdin con \<longleftrightarrow> client_valid (con_client con) \<and> con_stdin con = stdin"

lemma con_ok_stdout [simp]: "con_ok stdin (con\<lparr>con_stdout := t\<rparr>) \<longleftrightarrow> con_ok stdin con"
  by (simp add: con_ok_def)

lemma returns_on_client: "returns client_valid p \<Longrightarrow> returns (con_ok stdin) (on_client tables p)"
  unfolding returns_def
proof (intro allI impI)
  fix con assume p: "\<forall>c. client_valid c \<longrightarrow> (\<exists>r c'. p c = Some (r, c') \<and> (isl r \<or> client_valid c'))" and con: "con_ok stdin con"
  then obtain r c' where "p (con_client con) = Some (r, c')" "isl r \<or> client_valid c'" by (auto simp: con_ok_def)
  then show "\<exists>r con'. on_client tables p con = Some (r, con') \<and> (isl r \<or> con_ok stdin con')"
    using con by (cases r) (auto simp: on_client_def con_ok_def)
qed

lemma returns_on_send:
  "returns client_valid (proc_of (act_map_err Reported send)) \<Longrightarrow> returns (con_ok stdin) (on_send send)"
  unfolding returns_def proc_of_def
proof (intro allI impI)
  fix con
  assume p: "\<forall>c. client_valid c \<longrightarrow> (\<exists>r c'. Some (act_map_err Reported send c) = Some (r, c') \<and> (isl r \<or> client_valid c'))"
    and con: "con_ok stdin con"
  then obtain r c' where "act_map_err Reported send (con_client con) = (r, c')" "isl r \<or> client_valid c'"
    by (auto simp: con_ok_def)
  then show "\<exists>r con'. on_send send con = Some (r, con') \<and> (isl r \<or> con_ok stdin con')"
    using con by (auto simp: on_send_def con_ok_def act_map_err_def split: prod.splits)
qed

lemma returns_println: "returns (con_ok stdin) (proc_of (println t))"
  by (rule returns_of) (auto simp: println_def print_text_def con_ok_def)

lemma returns_prints:
  "returns (con_ok stdin) (proc_of (print_message tables m))"
  "returns (con_ok stdin) (proc_of (print_command_message tables k m))"
  "returns (con_ok stdin) (proc_of (print_key_info tables info))"
  by (cases m; simp add: print_message_def print_command_message_def print_key_info_def returns_println)+

lemma returns_print_keys: "returns (con_ok stdin) (proc_of (print_keys tables keys))"
  by (induction keys) (simp_all only: print_keys.simps proc_of_act_bind returns_ok returns_bind returns_prints)

lemma returns_cli_read_response: "returns (con_ok stdin) (cli_read_response tables (host_read host))"
  unfolding returns_def
proof (intro allI impI)
  fix con assume "con_ok stdin con"
  then show "\<exists>r con'. cli_read_response tables (host_read host) con = Some (r, con') \<and> (isl r \<or> con_ok stdin con')"
  proof (induction "length (pending (client_stream (con_client con)))" arbitrary: con rule: less_induct)
    case less
    obtain r c where next_eq: "next_message (host_read host) (con_client con) = (r, c)"
      by (cases "next_message (host_read host) (con_client con)")
    show ?case
    proof (cases r)
      case (Inl e)
      with next_eq show ?thesis by (simp add: cli_read_response.simps)
    next
      case (Inr m)
      from next_message_received [OF _ next_eq [unfolded Inr]] less.prems obtain mr
        where mr: "pending (client_stream (con_client con)) = message_bytes mr @ pending (client_stream c)" "client_valid c"
        by (auto simp: con_ok_def)
      let ?con = "con\<lparr>con_client := c\<rparr>"
      show ?thesis
      proof (cases "is_changed m")
        case False
        with next_eq Inr less.prems mr show ?thesis by (simp add: cli_read_response.simps con_ok_def)
      next
        case True
        let ?con' = "?con\<lparr>con_stdout := con_stdout con @ message_line tables m @ [0x0A]\<rparr>"
        have "length (pending (client_stream (con_client ?con'))) < length (pending (client_stream (con_client con)))"
          using mr by (simp add: message_bytes_def)
        from less.hyps [OF this] less.prems mr obtain r' con' where
          "cli_read_response tables (host_read host) ?con' = Some (r', con')" "isl r' \<or> con_ok stdin con'"
          by (auto simp: con_ok_def)
        with next_eq Inr True show ?thesis by (simp add: cli_read_response.simps [of _ _ con] snd_print_message)
      qed
    qed
  qed
qed

lemma returns_request_and_print:
  "returns client_valid (proc_of (act_map_err Reported send)) \<Longrightarrow> (\<And>m. returns (con_ok stdin) (proc_of (print m))) \<Longrightarrow>
     returns (con_ok stdin) (request_and_print tables host send print)"
  unfolding request_and_print_def by (intro returns_bind returns_on_send returns_cli_read_response)

lemma returns_resolve_keyref: "returns (con_ok stdin) (resolve_keyref tables host selector)"
  by (auto simp: resolve_keyref_def intro!: returns_ok returns_on_client returns_resolve split: sum.split)

lemma returns_execute_read: "returns (con_ok stdin) (execute_read tables host timeout_ms)"
  unfolding execute_read_def
  by (auto intro!: returns_bind returns_on_client returns_next_message returns_next_message_timeout returns_prints
      returns_println split: option.split)

lemma returns_execute_command: "returns (con_ok stdin) (execute_command tables host command)"
  by (cases command)
    (auto simp: execute_command_def Let_def intro!: returns_bind returns_request_and_print returns_resolve_keyref returns_send
      returns_prints returns_print_keys returns_println returns_ok returns_on_client returns_requests returns_list_keys
      returns_execute_read)

lemma repl_loop_returns:
  "con_ok stdin con \<Longrightarrow> repl_loop lib host con \<noteq> None"
proof (induction stdin arbitrary: con)
  case Nil
  then show ?case by (simp add: repl_loop.simps con_ok_def Let_def)
next
  case (Cons typed rest)
  let ?con = "con\<lparr>con_stdout := con_stdout con @ ascii ''qup> ''\<rparr>"
  show ?case
  proof (cases typed)
    case (Inl e)
    with Cons.prems show ?thesis by (simp add: repl_loop.simps [of lib host con] con_ok_def Let_def)
  next
    case (Inr line)
    let ?con = "?con\<lparr>con_stdin := rest\<rparr>" and ?trimmed = "text_bytes (trim (utf8_chars line))"
    have ok: "con_ok rest ?con" using Cons.prems by (simp add: con_ok_def)
    show ?thesis
    proof (cases "?trimmed = []")
      case True
      then show ?thesis using Cons Inr ok by (simp add: repl_loop.simps [of lib host con] con_ok_def Let_def)
    next
      case False
      obtain r con1 where parsed: "parse_repl_command lib ?trimmed ?con = (r, con1)"
        by (cases "parse_repl_command lib ?trimmed ?con")
      then have ok1: "con_ok rest con1"
        using ok by (auto simp: parse_repl_command_def act_bind_def println_def print_text_def con_ok_def
            split: option.splits if_splits)
      show ?thesis
      proof (cases r)
        case (Inl err)
        with parsed Cons Inr False ok1 show ?thesis
          by (cases err) (simp add: repl_loop.simps [of lib host con] con_ok_def Let_def)
      next
        case inr: (Inr command)
        obtain r' con2 where "execute_command (lib_tables lib) host command con1 = Some (r', con2)" "isl r' \<or> con_ok rest con2"
          using returnsD [OF returns_execute_command ok1] by blast
        with parsed Cons Inr False inr show ?thesis
          by (cases r') (simp_all add: repl_loop.simps [of lib host con] con_ok_def Let_def)
      qed
    qed
  qed
qed

end

section \<open>Follow mode over a recorded stream\<close>

text \<open>
  The messages that make follow mode print values: a notification of another key is skipped,
  one of the followed key is answered by a value, before which more notifications may come.
\<close>

inductive follow_script :: "u16 \<Rightarrow> message_ref list \<Rightarrow> value_ref list \<Rightarrow> bool" where
  follow_end: "follow_script k [] []"
| follow_other: "j \<noteq> k \<Longrightarrow> follow_script k ms vs \<Longrightarrow> follow_script k (Changed j # ms) vs"
| follow_value: "wire_message NodeToClient (OrdinaryResponse (Value v)) \<Longrightarrow> follow_script k ms vs \<Longrightarrow>
    follow_script k (Changed k # map Changed js @ OrdinaryResponse (Value v) # ms) (v # vs)"

lemma follow_script_first: "follow_script k ms vs \<Longrightarrow> ms \<noteq> [] \<Longrightarrow> \<exists>j ms'. ms = Changed j # ms'"
  by (erule follow_script.cases) auto

lemma follow_script_hit:
  "follow_script k (Changed k # ms) vs \<Longrightarrow>
     \<exists>js w ms'. wire_message NodeToClient (OrdinaryResponse (Value w)) \<and> ms = map Changed js @ OrdinaryResponse (Value w) # ms'"
  by (erule follow_script.cases) auto

text \<open>Bytes with which no such sequence starts.\<close>

definition follow_stuck :: "u16 \<Rightarrow> bytes \<Rightarrow> bool" where
  "follow_stuck k bs \<longleftrightarrow> \<not> (\<exists>ms vs rest. ms \<noteq> [] \<and> follow_script k ms vs \<and> bs = concat (map message_bytes ms) @ rest)"

context recorded_host
begin

lemma client_get_received:
  assumes "client_valid c"
  obtains r c' where "client_get (host_read host) (host_write host) k c = Some (r, c')"
    and "\<And>v. r = Inr v \<Longrightarrow> client_valid c' \<and> (\<exists>js w. wire_message NodeToClient (OrdinaryResponse (Value w)) \<and> v = owned_value w \<and>
        pending (client_stream c) = concat (map message_bytes (map Changed js @ [OrdinaryResponse (Value w)])) @ pending (client_stream c'))"
    and "\<And>js w rest. wire_message NodeToClient (OrdinaryResponse (Value w)) \<Longrightarrow>
        pending (client_stream c) = concat (map message_bytes (map Changed js @ [OrdinaryResponse (Value w)])) @ rest \<Longrightarrow>
        r = Inr (owned_value w)"
proof -
  obtain c1 where c1: "send_keyref_request (host_write host) GET k c = (Inr (), c1)" "client_valid c1"
    "pending (client_stream c1) = pending (client_stream c)"
    by (rule send_recorded [OF assms])
  obtain res c' where read: "read_request_response (host_read host) c1 = Some (res, c')"
    and received: "\<And>x. res = Inr x \<Longrightarrow> client_valid c' \<and> \<not> is_changed x \<and>
        (\<exists>ks m. wire_message NodeToClient m \<and> owned_message m = (Inr x :: 'b client_error + message) \<and>
          pending (client_stream c1) = concat (map (\<lambda>k. message_bytes (Changed k)) ks) @ message_bytes m
            @ pending (client_stream c'))"
    using read_request_response_total [OF c1(2)] by blast
  define r where "r = res_bind res (\<lambda>x. case select_value x of
      Some v \<Rightarrow> Inr v | None \<Rightarrow> Inl (unexpected_message GET ''VALUE'' x))"
  have get: "client_get (host_read host) (host_write host) k c = Some (r, c')"
    using c1(1) read
    by (cases res) (simp_all add: r_def client_get_def request_response_def proc_bind_def proc_of_def act_map_err_def
        split: option.split)
  show ?thesis
  proof (rule that [OF get])
    fix v assume v: "r = Inr v"
    then obtain x where x: "res = Inr x" "x = Message_Value v"
      by (cases res) (auto simp: r_def select_value_def split: option.splits message.splits)
    from received [OF x(1)] obtain ks m where m: "wire_message NodeToClient m" "client_valid c'"
      "owned_message m = (Inr (Message_Value v) :: 'b client_error + message)"
      "pending (client_stream c1) = concat (map (\<lambda>k. message_bytes (Changed k)) ks) @ message_bytes m @ pending (client_stream c')"
      using x(2) by blast
    obtain w where "m = OrdinaryResponse (Value w)" "v = owned_value w" using owned_message_value [OF m(3)] by blast
    with m c1(3) show "client_valid c' \<and> (\<exists>js w. wire_message NodeToClient (OrdinaryResponse (Value w)) \<and> v = owned_value w \<and>
        pending (client_stream c) = concat (map message_bytes (map Changed js @ [OrdinaryResponse (Value w)])) @ pending (client_stream c'))"
      by (auto simp: o_def intro!: exI [of _ ks] exI [of _ w])
  next
    fix js w rest
    assume w: "wire_message NodeToClient (OrdinaryResponse (Value w))"
      "pending (client_stream c) = concat (map message_bytes (map Changed js @ [OrdinaryResponse (Value w)])) @ rest"
    have "\<exists>c''. read_request_response (host_read host) c1 = Some (Inr (Message_Value (owned_value w)), c'')"
      using read_request_response_skips [OF w(1) _ _ c1(2), of "Message_Value (owned_value w)" js rest] w(2) c1(3)
      by (auto simp: o_def)
    with read show "r = Inr (owned_value w)" by (simp add: r_def select_value_def)
  qed
qed

text \<open>Follow mode ends when the script does, with an error, and has printed the values.\<close>

definition follow_result ::
  "char_tables \<Rightarrow> key_info \<Rightarrow> ('a, 'b) console \<Rightarrow> (('b cli_error + unit) \<times> ('a, 'b) console) option \<Rightarrow> bool" where
  "follow_result tables key con result \<longleftrightarrow> (\<exists>e con' ms vs rest. result = Some (Inl e, con') \<and>
     follow_script (info_keyref key) ms vs \<and> follow_stuck (info_keyref key) rest \<and>
     pending (client_stream (con_client con)) = concat (map message_bytes ms) @ rest \<and>
     con_stdout con' = con_stdout con @ concat (map (\<lambda>v. format_follow_value tables (owned_value v) @ [0x0A]) vs))"

lemma follow_result_stop:
  assumes "result = Some (Inl e, con')" and "con_stdout con' = con_stdout con"
    and "follow_stuck (info_keyref key) (pending (client_stream (con_client con)))"
  shows "follow_result tables key con result"
proof -
  have "pending (client_stream (con_client con)) = concat (map message_bytes []) @ pending (client_stream (con_client con))"
    "con_stdout con' = con_stdout con @ concat (map (\<lambda>v. format_follow_value tables (owned_value v) @ [0x0A]) [])"
    using assms(2) by simp_all
  with assms(1,3) follow_end show ?thesis unfolding follow_result_def by blast
qed

lemma follow_stuck_unless_changed:
  assumes "client_valid c" and "\<And>j c'. next_message (host_read host) c \<noteq> (Inr (Message_Changed j), c')"
  shows "follow_stuck k (pending (client_stream c))"
  unfolding follow_stuck_def
proof
  assume "\<exists>ms vs rest. ms \<noteq> [] \<and> follow_script k ms vs \<and> pending (client_stream c) = concat (map message_bytes ms) @ rest"
  then obtain j rest where "pending (client_stream c) = message_bytes (Changed j) @ rest"
    by (auto dest!: follow_script_first)
  from next_message_wire [OF assms(1) this wire_changed] assms(2) show False by auto
qed

lemma follow_loop_prints:
  "con_ok stdin con \<Longrightarrow> follow_result tables key con (follow_loop tables host key con)"
proof (induction "length (pending (client_stream (con_client con)))" arbitrary: con rule: less_induct)
  case less
  obtain r c where next_eq: "next_message (host_read host) (con_client con) = (r, c)"
    by (cases "next_message (host_read host) (con_client con)")
  let ?con = "con\<lparr>con_client := c\<rparr>" and ?k = "info_keyref key"
  have valid: "client_valid (con_client con)" using less.prems by (simp add: con_ok_def)
  consider (stop) "\<And>j. r \<noteq> Inr (Message_Changed j)" | (changed) j where "r = Inr (Message_Changed j)" by blast
  then show ?case
  proof cases
    case stop
    then have "\<exists>e. follow_loop tables host key con = Some (Inl e, ?con)"
      by (cases r; cases "projr r") (simp_all add: follow_loop.simps [of _ _ _ con] next_eq)
    then obtain e where "follow_loop tables host key con = Some (Inl e, ?con)" ..
    then show ?thesis
      by (rule follow_result_stop) (use stop next_eq follow_stuck_unless_changed [OF valid] in auto)
  next
    case changed
    from next_message_received [OF valid next_eq [unfolded changed]] obtain mr
      where mr: "owned_message mr = (Inr (Message_Changed j) :: 'b client_error + message)"
        "pending (client_stream (con_client con)) = message_bytes mr @ pending (client_stream c)" "client_valid c" by auto
    then have mrj: "mr = Changed j" using owned_message_changed [OF mr(1)] by auto
    have shorter: "length (pending (client_stream c)) < length (pending (client_stream (con_client con)))"
      using mr by (simp add: message_bytes_def)
    have ok: "con_ok stdin ?con" using less.prems mr by (simp add: con_ok_def)
    show ?thesis
    proof (cases "j = ?k")
      case False
      with less.hyps [of ?con, OF _ ok] shorter obtain e con' ms vs rest where rec:
        "follow_loop tables host key ?con = Some (Inl e, con')" "follow_script ?k ms vs" "follow_stuck ?k rest"
        "pending (client_stream c) = concat (map message_bytes ms) @ rest"
        "con_stdout con' = con_stdout con @ concat (map (\<lambda>v. format_follow_value tables (owned_value v) @ [0x0A]) vs)"
        by (auto simp: follow_result_def)
      moreover have "follow_loop tables host key con = Some (Inl e, con')"
        using rec(1) next_eq changed False by (simp add: follow_loop.simps [of _ _ _ con])
      moreover have "pending (client_stream (con_client con)) = concat (map message_bytes (Changed j # ms)) @ rest"
        using mr(2) mrj rec(4) by simp
      ultimately show ?thesis unfolding follow_result_def using follow_other [OF False rec(2)] by blast
    next
      case True
      obtain r' c' where get: "client_get (host_read host) (host_write host) ?k c = Some (r', c')"
        "\<And>v. r' = Inr v \<Longrightarrow> client_valid c' \<and> (\<exists>js w. wire_message NodeToClient (OrdinaryResponse (Value w)) \<and> v = owned_value w \<and>
          pending (client_stream c) = concat (map message_bytes (map Changed js @ [OrdinaryResponse (Value w)])) @ pending (client_stream c'))"
        "\<And>js w rest. wire_message NodeToClient (OrdinaryResponse (Value w)) \<Longrightarrow>
          pending (client_stream c) = concat (map message_bytes (map Changed js @ [OrdinaryResponse (Value w)])) @ rest \<Longrightarrow>
          r' = Inr (owned_value w)"
        by (rule client_get_received [OF mr(3), of ?k]) blast
      show ?thesis
      proof (cases r')
        case (Inl e)
        have "follow_stuck ?k (pending (client_stream (con_client con)))"
          unfolding follow_stuck_def
        proof
          assume "\<exists>ms vs rest. ms \<noteq> [] \<and> follow_script ?k ms vs \<and>
            pending (client_stream (con_client con)) = concat (map message_bytes ms) @ rest"
          then obtain ms vs rest where ms: "ms \<noteq> []" "follow_script ?k ms vs"
            "message_bytes (Changed ?k) @ pending (client_stream c) = concat (map message_bytes ms) @ rest"
            using mr(2) unfolding mrj True by auto
          obtain i ms' where i: "ms = Changed i # ms'" using follow_script_first [OF ms(2,1)] by blast
          have "length (message_bytes (Changed ?k)) = length (message_bytes (Changed i))"
            by (simp add: message_bytes_def frame_bytes_def)
          then have "i = ?k" "pending (client_stream c) = concat (map message_bytes ms') @ rest"
            using ms(3) i by simp_all
          with follow_script_hit [of ?k ms' vs] ms(2) i obtain js w rest where "wire_message NodeToClient (OrdinaryResponse (Value w))"
            "pending (client_stream c) = concat (map message_bytes (map Changed js @ [OrdinaryResponse (Value w)])) @ rest"
            by auto
          from get(3) [OF this] Inl show False by simp
        qed
        moreover have "follow_loop tables host key con = Some (Inl (client_error tables e), ?con\<lparr>con_client := c'\<rparr>)"
          using Inl get(1) next_eq changed True by (simp add: follow_loop.simps [of _ _ _ con] on_client_def)
        ultimately show ?thesis by (intro follow_result_stop [of _ _ "?con\<lparr>con_client := c'\<rparr>"]) simp_all
      next
        case inr: (Inr v)
        from get(2) [OF this] obtain js w where v: "v = owned_value w" "client_valid c'"
          "wire_message NodeToClient (OrdinaryResponse (Value w))"
          "pending (client_stream c) = concat (map message_bytes (map Changed js @ [OrdinaryResponse (Value w)])) @ pending (client_stream c')"
          by blast
        let ?con' = "?con\<lparr>con_client := c', con_stdout := con_stdout con @ format_follow_value tables v @ [0x0A]\<rparr>"
        have "length (pending (client_stream c')) \<le> length (pending (client_stream c))" using v(4) by simp
        with less.hyps [of ?con'] less.prems v(2) shorter obtain e con' ms vs rest where rec:
          "follow_loop tables host key ?con' = Some (Inl e, con')" "follow_script ?k ms vs" "follow_stuck ?k rest"
          "pending (client_stream c') = concat (map message_bytes ms) @ rest"
          "con_stdout con' = con_stdout ?con' @ concat (map (\<lambda>v. format_follow_value tables (owned_value v) @ [0x0A]) vs)"
          by (auto simp: con_ok_def follow_result_def)
        have "follow_loop tables host key con = Some (Inl e, con')"
          using rec(1) next_eq changed True get(1) inr
          by (simp add: follow_loop.simps [of _ _ _ con] on_client_def println_def print_text_def)
        moreover have "pending (client_stream (con_client con)) =
            concat (map message_bytes (Changed ?k # map Changed js @ OrdinaryResponse (Value w) # ms)) @ rest"
          using mr(2) mrj v(4) rec(4) True by simp
        moreover have "con_stdout con' = con_stdout con @
            concat (map (\<lambda>v. format_follow_value tables (owned_value v) @ [0x0A]) (w # vs))"
          using rec(5) v(1) by simp
        ultimately show ?thesis unfolding follow_result_def using follow_value [OF v(3) rec(2)] rec(3) by blast
      qed
    qed
  qed
qed

end

section \<open>Commands over the pipe to the test node\<close>

definition changed_line :: "char_tables \<Rightarrow> u16 \<Rightarrow> rstr" where
  "changed_line tables k = message_line tables (Message_Changed k) @ [0x0A]"

lemma snd_print_changed:
  "snd (print_message tables (Message_Changed k) con :: ('e + unit) \<times> _) =
     con\<lparr>con_stdout := con_stdout con @ changed_line tables k\<rparr>"
  by (simp add: snd_print_message changed_line_def)

context byte_source
begin

lemma cli_read_response_skips:
  assumes "wire_message NodeToClient m" and "owned_message m = (Inr x :: 'e client_error + message)"
    and "\<not> is_changed x"
  shows "valid (client_stream (con_client con)) \<Longrightarrow>
     pending (client_stream (con_client con)) = concat (map (\<lambda>k. message_bytes (Changed k)) ks) @ message_bytes m @ rest \<Longrightarrow>
     \<exists>c'. cli_read_response tables read_exact con =
         Some (Inr x, con\<lparr>con_client := c', con_stdout := con_stdout con @ concat (map (changed_line tables) ks)\<rparr>) \<and>
       pending (client_stream c') = rest \<and> valid (client_stream c')"
proof (induction ks arbitrary: con)
  case Nil
  then show ?case
    using next_message_wire [of "con_client con" m rest] assms by (auto simp: cli_read_response.simps)
next
  case (Cons k ks)
  then obtain c1 where c1: "next_message read_exact (con_client con) = (Inr (Message_Changed k), c1)" "valid (client_stream c1)"
    "pending (client_stream c1) = concat (map (\<lambda>k. message_bytes (Changed k)) ks) @ message_bytes m @ rest"
    using next_message_wire [OF _ _ wire_changed, of "con_client con" k] by auto
  then show ?case
    using Cons.IH [of "con\<lparr>con_client := c1, con_stdout := con_stdout con @ changed_line tables k\<rparr>"]
    by (subst cli_read_response.simps) (auto simp: snd_print_changed)
qed

end

lemma cli_request_over_pipe:
  assumes idle: "pipe_idle cid (client_stream (con_client con))" and unread: "unread cid (client_stream (con_client con)) ks"
    and wire: "wire_message ClientToNode m"
    and send: "send (con_client con) =
      on_stream (pipe_write clock cid (message_bytes m)) (trace_frame Tx (message_bytes m) (con_client con))"
    and st: "st = pipe_node (client_stream (con_client con))" and e: "e = clock (pipe_count (client_stream (con_client con)))"
    and x: "owned_message (response_of e st m) = (Inr x :: unit client_error + message)"
  shows "\<exists>c'. request_and_print tables (pipe_host clock cid) send print con =
       Some (print x (con\<lparr>con_client := c', con_stdout := con_stdout con @ concat (map (changed_line tables) ks)\<rparr>)) \<and>
     pipe_idle cid (client_stream c') \<and> pipe_node (client_stream c') = node_after e cid m st \<and>
     unread cid (client_stream c') (own_notifications cid m st)"
proof -
  obtain c1 where c1: "send (con_client con) = (Inr (), c1)" "\<not> is_changed x"
    "wire_message NodeToClient (response_of e st m)"
    "pipe_at cid (node_after e cid m st) (Suc (pipe_count (client_stream (con_client con)))) (client_stream c1)"
    "pipe_pending cid (client_stream c1) = concat (map (\<lambda>k. message_bytes (Changed k)) ks)
       @ message_bytes (response_of e st m) @ concat (map (\<lambda>k. message_bytes (Changed k)) (own_notifications cid m st))"
    by (rule send_over_pipe [where send = send and clock = clock, OF idle unread wire send st e]) (use x in auto)
  let ?con1 = "con\<lparr>con_client := c1\<rparr>"
  have "on_send send con = Some (Inr (), ?con1)" by (simp add: on_send_def c1(1))
  moreover obtain c' where "cli_read_response tables (pipe_read cid) ?con1 =
      Some (Inr x, ?con1\<lparr>con_client := c', con_stdout := con_stdout con @ concat (map (changed_line tables) ks)\<rparr>)"
    "pipe_pending cid (client_stream c') = concat (map (\<lambda>k. message_bytes (Changed k)) (own_notifications cid m st))"
    "pipe_at cid (node_after e cid m st) (Suc (pipe_count (client_stream (con_client con)))) (client_stream c')"
    using pipe.cli_read_response_skips [where con = ?con1 and cid = cid and tables = tables, OF c1(3) x c1(2), simplified, OF c1(4,5)]
    by auto
  ultimately show ?thesis
    by (intro exI [of _ c']) (simp add: request_and_print_def proc_bind_def proc_of_def pipe_at_def unread_def)
qed

text \<open>No name of the node's table reads as a number.\<close>

lemma key_names_not_numbers:
  assumes "unat k < 14" shows "isl (parse_u16 (spec_name (KEY_SPECS ! unat k)))"
proof -
  have "list_all (\<lambda>spec. isl (parse_u16 (spec_name spec))) KEY_SPECS" by code_simp
  then show ?thesis using assms by (simp add: list_all_length length_KEY_SPECS)
qed

lemma resolve_keyref_over_pipe:
  assumes "pipe_idle cid (client_stream (con_client con))" and "unread cid (client_stream (con_client con)) ks" and "unat k < 14"
  obtains c' where "resolve_keyref tables (pipe_host clock cid) (spec_name (KEY_SPECS ! unat k)) con =
      Some (Inr k, con\<lparr>con_client := c'\<rparr>)"
    and "pipe_idle cid (client_stream c')" and "unread cid (client_stream c') []"
    and "same_values (client_stream (con_client con)) (client_stream c')"
proof -
  obtain c' where "client_resolve_keyref_by_name (pipe_read cid) (pipe_write clock cid) (spec_name (KEY_SPECS ! unat k)) (con_client con) =
      Some (Inr k, c')"
    "pipe_idle cid (client_stream c')" "unread cid (client_stream c') []"
    "same_values (client_stream (con_client con)) (client_stream c')"
    by (rule client_resolve_over_pipe [where clock = clock, OF assms])
  then show ?thesis
    using key_names_not_numbers [OF assms(3)]
    by (intro that [of c']) (auto simp: resolve_keyref_def on_client_def split: sum.split)
qed

text \<open>The line of a command that returns a value.\<close>

definition value_line :: "char_tables \<Rightarrow> string \<Rightarrow> u16 \<Rightarrow> value_ref \<Rightarrow> rstr" where
  "value_line tables keyword k v = join [0x09]
     [ascii keyword, text_of_u16 k, kind_field (owned_value v), format_follow_value tables (owned_value v)] @ [0x0A]"

lemma execute_get_over_pipe:
  assumes "pipe_idle cid (client_stream (con_client con))" and "unread cid (client_stream (con_client con)) ks"
    and k: "unat k < 14" and v: "\<And>e. get_value e k (pipe_node (client_stream (con_client con))) = Inr (wire_of_value v)"
    and acc: "write_accepts k v"
  shows "\<exists>c'. execute_command tables (pipe_host clock cid) (Cmd_Get (spec_name (KEY_SPECS ! unat k))) con =
       Some (Inr True, con\<lparr>con_client := c', con_stdout := con_stdout con @ value_line tables ''value'' k v\<rparr>) \<and>
     pipe_idle cid (client_stream c')"
proof -
  obtain c1 where c1: "resolve_keyref tables (pipe_host clock cid) (spec_name (KEY_SPECS ! unat k)) con =
      Some (Inr k, con\<lparr>con_client := c1\<rparr>)"
    "pipe_idle cid (client_stream c1)" "unread cid (client_stream c1) []"
    "same_values (client_stream (con_client con)) (client_stream c1)"
    by (rule resolve_keyref_over_pipe [OF assms(1,2) k])
  let ?con1 = "con\<lparr>con_client := c1\<rparr>"
  have "get_value e k (pipe_node (client_stream c1)) = Inr (wire_of_value v)" for e
    using c1(4) v by (simp add: same_values_def)
  then have "owned_message (response_of e (pipe_node (client_stream c1)) (Request (Get k))) =
      (Inr (Message_Value (owned_value v)) :: unit client_error + message)" for e
    by (simp add: value_of_wire_of [OF acc])
  then obtain c' where "request_and_print tables (pipe_host clock cid) (send_keyref_request (pipe_write clock cid) GET k)
        (print_command_message tables k) ?con1 =
      Some (print_command_message tables k (Message_Value (owned_value v)) (?con1\<lparr>con_client := c'\<rparr>))"
    "pipe_idle cid (client_stream c')"
    using cli_request_over_pipe [where clock = clock and con = ?con1 and send = "send_keyref_request (pipe_write clock cid) GET k"
        and print = "print_command_message tables k" and tables = tables, OF _ _ wire_requests(2) send_keyref_frame(1) refl refl]
      c1 by fastforce
  with c1(1) show ?thesis
    by (intro exI [of _ c'])
      (simp add: execute_command_def proc_bind_def proc_of_def print_command_message_def println_def print_text_def
        value_line_def format_value_fields)
qed

section \<open>Properties\<close>

text \<open>
  C7: a value of any type that a key of the node accepts, written with the tool by the key's
  name and read back with it, is printed as written and as stored: two lines with the key
  reference, the type and the value, whatever notifications arrive in between.
\<close>

theorem cli_write_then_get:
  assumes "pipe_idle cid (client_stream (con_client con))" and "unread cid (client_stream (con_client con)) ks"
    and v: "fitting_value v" and acc: "write_accepts k v" and readable: "k \<in> readable_keys"
  shows "\<exists>con1 con2.
     execute_command tables (pipe_host clock cid)
       (Cmd_Write (spec_name (KEY_SPECS ! unat k)) (input_kind (owned_value v)) [value_text (owned_value v)]) con = Some (Inr True, con1) \<and>
     execute_command tables (pipe_host clock cid) (Cmd_Get (spec_name (KEY_SPECS ! unat k))) con1 = Some (Inr True, con2) \<and>
     con_stdout con2 = con_stdout con @ value_line tables ''written'' k v @ value_line tables ''value'' k v"
proof -
  let ?m = "Request (Write k v)"
  have k: "unat k < 14" using readable by (auto simp: readable_keys_def)
  obtain c1 where c1: "resolve_keyref tables (pipe_host clock cid) (spec_name (KEY_SPECS ! unat k)) con =
      Some (Inr k, con\<lparr>con_client := c1\<rparr>)" "pipe_idle cid (client_stream c1)" "unread cid (client_stream c1) []"
    by (rule resolve_keyref_over_pipe [OF assms(1,2) k])
  let ?con1 = "con\<lparr>con_client := c1\<rparr>" and ?st = "pipe_node (client_stream c1)"
  have wf: "wf_value v" "length (encode_value v) \<le> 65533" using v by (simp_all add: fitting_value_def)
  then have wire: "wire_message ClientToNode ?m"
    by (simp add: wire_message_def opcodes_of_def client_opcodes_def)
  have "owned_message (response_of e ?st ?m) = (Inr (Message_Written (owned_value v)) :: unit client_error + message)" for e
    using acc by simp
  then obtain c2 where c2: "request_and_print tables (pipe_host clock cid) (send_write_request (pipe_write clock cid) k (owned_value v))
        (print_command_message tables k) ?con1 =
      Some (print_command_message tables k (Message_Written (owned_value v)) (?con1\<lparr>con_client := c2\<rparr>))"
    "pipe_idle cid (client_stream c2)" "unread cid (client_stream c2) (own_notifications cid ?m ?st)"
    "pipe_node (client_stream c2) = node_after (clock (pipe_count (client_stream c1))) cid ?m ?st"
    using cli_request_over_pipe [where clock = clock and con = ?con1 and send = "send_write_request (pipe_write clock cid) k (owned_value v)"
        and print = "print_command_message tables k" and tables = tables, OF _ _ wire send_write_frame [OF wf] refl refl]
      c1 by fastforce
  let ?con2 = "con\<lparr>con_client := c2, con_stdout := con_stdout con @ value_line tables ''written'' k v\<rparr>"
  have "execute_command tables (pipe_host clock cid)
      (Cmd_Write (spec_name (KEY_SPECS ! unat k)) (input_kind (owned_value v)) [value_text (owned_value v)]) con = Some (Inr True, ?con2)"
    using c1(1) c2(1)
    by (simp add: execute_command_def proc_bind_def proc_of_def print_command_message_def println_def print_text_def
        value_line_def format_value_fields parse_input_value_text)
  moreover have "get_value e k (pipe_node (client_stream (con_client ?con2))) = Inr (wire_of_value v)" for e
    using get_after_write [OF acc readable] by (simp add: c2(4))
  ultimately show ?thesis
    using execute_get_over_pipe [where con = ?con2 and clock = clock and tables = tables, OF _ _ k _ acc] c2(2,3) by fastforce
qed

lemma cli_write_then_get_witness:
  "\<exists>con1 con2.
     execute_command sample_tables (pipe_host (\<lambda>_. 0) 1)
       (Cmd_Write (spec_name (KEY_SPECS ! 4)) Input_I64 [text_of_i64 (- 7)])
       \<lparr>con_client = client_new fresh_pipe, con_stdout = [], con_stdin = []\<rparr> = Some (Inr True, con1) \<and>
     execute_command sample_tables (pipe_host (\<lambda>_. 0) 1) (Cmd_Get (spec_name (KEY_SPECS ! 4))) con1 = Some (Inr True, con2) \<and>
     con_stdout con2 = value_line sample_tables ''written'' 4 (I64 (- 7)) @ value_line sample_tables ''value'' 4 (I64 (- 7))"
  using cli_write_then_get [of 1 "\<lparr>con_client = client_new fresh_pipe, con_stdout = [], con_stdin = []\<rparr>" "[]" "I64 (- 7)" 4
      sample_tables "\<lambda>_. 0"] fresh_pipe_idle fresh_pipe_unread
  by (simp add: client_new_def fitting_value_def key_defs readable_keys_def input_kind_def value_text_def)

text \<open>
  C34: whatever bytes a node sends, a message the tool receives is printed as exactly one line,
  with the number of tab-separated fields of its kind; the strings of the node add neither line
  ends nor fields nor other control characters.
\<close>

theorem received_message_prints_one_line:
  assumes "byte_source (read_exact :: ('s, 'io) reader) pending valid" and "valid (client_stream c)"
    and "next_message read_exact c = (Inr m, c')"
  shows "\<exists>line_fields. print_message tables m con =
       (Inr () :: 'e + unit, con\<lparr>con_stdout := con_stdout con @ join [0x09] line_fields @ [0x0A]\<rparr>) \<and>
     list_all (list_all (\<lambda>b. 0x20 \<le> b \<and> b \<noteq> 0x7F)) line_fields \<and>
     length line_fields = (case m of Message_Ok \<Rightarrow> 1 | Message_Key _ _ \<Rightarrow> 3 | Message_Value _ \<Rightarrow> 3 | Message_Written _ \<Rightarrow> 3 | _ \<Rightarrow> 2)"
proof -
  obtain mr where mr: "wire_message NodeToClient mr" "owned_message mr = (Inr m :: 'io client_error + message)"
    using byte_source.next_message_received [OF assms] by blast
  then have "message_utf8 m" by (intro owned_message_utf8 [OF _ mr(2)]) (simp add: wire_message_def)
  then have "list_all (list_all (\<lambda>b. 0x20 \<le> b \<and> b \<noteq> 0x7F)) (message_fields tables m)"
    using message_fields_plain [of m tables] by (simp add: plain_def plain_byte_def cong: list.pred_cong)
  moreover have "length (message_fields tables m) =
      (case m of Message_Ok \<Rightarrow> 1 | Message_Key _ _ \<Rightarrow> 3 | Message_Value _ \<Rightarrow> 3 | Message_Written _ \<Rightarrow> 3 | _ \<Rightarrow> 2)"
    by (cases m) (simp_all add: message_fields_def)
  moreover have "print_message tables m con =
      (Inr () :: 'e + unit, con\<lparr>con_stdout := con_stdout con @ join [0x09] (message_fields tables m) @ [0x0A]\<rparr>)"
    by (simp add: print_message_def println_def print_text_def message_line_fields)
  ultimately show ?thesis by blast
qed

lemma received_message_prints_one_line_witness:
  "\<exists>m c' line_fields. next_message list_read (client_new (message_bytes (Changed 7))) = (Inr m, c') \<and>
     print_message sample_tables m \<lparr>con_client = c', con_stdout = [], con_stdin = []\<rparr> =
       (Inr () :: unit + unit, \<lparr>con_client = c', con_stdout = join [0x09] line_fields @ [0x0A], con_stdin = [] :: (unit + rstr) list\<rparr>) \<and>
     list_all (list_all (\<lambda>b. 0x20 \<le> b \<and> b \<noteq> 0x7F)) line_fields"
proof -
  obtain c' where c': "next_message list_read (client_new (message_bytes (Changed 7))) = (Inr (Message_Changed 7), c')"
    using list_source.next_message_wire [of "client_new (message_bytes (Changed 7))" "Changed 7" "[]"]
    by (auto simp: client_new_def wire_changed)
  from received_message_prints_one_line [OF list_source.byte_source_axioms TrueI this, where tables = sample_tables and
      con = "\<lparr>con_client = c', con_stdout = [], con_stdin = [] :: (unit + rstr) list\<rparr>", where ?'e = unit]
  show ?thesis using c' by auto
qed

text \<open>
  The text the tool prints for a value without escapes is read back by its \<open>write\<close> command
  as the same value: every boolean, every 64-bit integer, every string in one token.
\<close>

lemma parse_input_value_roundtrip:
  "parse_input_value tables (case v of Value_Bool _ \<Rightarrow> Input_Bool | Value_I64 _ \<Rightarrow> Input_I64 | Value_Str _ \<Rightarrow> Input_Str)
     [case v of Value_Str s \<Rightarrow> s | _ \<Rightarrow> format_follow_value tables v] = Inr v"
  using parse_input_value_text [of tables v]
  by (cases v) (simp_all add: input_kind_def value_text_def format_follow_value_def)

text \<open>
  C33: the prompt ends: whatever lines are typed and whatever finite stream the node sends, the
  loop over the typed lines returns, each command after finitely many messages.
\<close>

theorem run_repl_returns:
  assumes "client_host (host :: ('s, 'io) host) pending valid" and "valid (client_stream (con_client con))"
  shows "\<exists>r con'. run_repl lib host con = Some (r, con')"
proof -
  let ?banner = "ascii ''type '' @ quoted ''help'' @ ascii '' for commands, '' @ quoted ''exit'' @ ascii '' to quit''"
  let ?con = "con\<lparr>con_stdout := con_stdout con @ ?banner @ [0x0A]\<rparr>"
  have "client_host.con_ok valid (con_stdin con) ?con"
    using assms by (simp add: client_host.con_ok_def)
  then have "repl_loop lib host ?con \<noteq> None" by (rule client_host.repl_loop_returns [OF assms(1)])
  then show ?thesis
    by (simp add: run_repl_def proc_bind_def proc_of_def println_def print_text_def)
qed

lemma run_repl_returns_witness:
  "\<exists>r con'. run_repl \<lparr>lib_tables = sample_tables, lib_shlex_split = (\<lambda>l. Some [l]), lib_parse_line = (\<lambda>_. Inr Cmd_Ping),
        lib_long_help = []\<rparr> (list_host (\<lambda>_ _. None))
      \<lparr>con_client = client_new (message_bytes (OrdinaryResponse Ok)), con_stdout = [], con_stdin = [Inr (ascii ''ping'')]\<rparr> =
      Some (r, con')"
  by (rule run_repl_returns [OF list_host.client_host_axioms]) simp

text \<open>
  C15: follow mode ends only with an error, and over any finite sequence of incoming bytes it has
  then printed exactly the values received for the notifications of its key, one line each in
  their order: notifications of other keys print nothing, notifications of the key that arrive
  before its value are answered by that one value, and it goes on as long as the bytes do.
\<close>

theorem follow_mode_prints_values:
  assumes "recorded_host (host :: ('s, 'io) host) pending valid" and "valid (client_stream (con_client con))"
  shows "\<exists>e con' ms vs rest. follow_loop tables host key con = Some (Inl e, con') \<and>
     follow_script (info_keyref key) ms vs \<and> follow_stuck (info_keyref key) rest \<and>
     pending (client_stream (con_client con)) = concat (map message_bytes ms) @ rest \<and>
     con_stdout con' = con_stdout con @ concat (map (\<lambda>v. format_follow_value tables (owned_value v) @ [0x0A]) vs)"
proof -
  have host: "client_host host pending valid" by (rule recorded_host.axioms(1) [OF assms(1)])
  have "client_host.con_ok valid (con_stdin con) con"
    using assms(2) by (simp add: client_host.con_ok_def [OF host])
  from recorded_host.follow_loop_prints [OF assms(1) this] show ?thesis
    by (simp add: recorded_host.follow_result_def [OF assms(1)])
qed

lemma follow_mode_prints_values_witness:
  "\<exists>e con' ms vs rest. follow_loop sample_tables (list_host (\<lambda>_ _. None))
       \<lparr>info_keyref = 1, info_keyflags = KeyFlags 5, info_name = []\<rparr>
       \<lparr>con_client = client_new (message_bytes (Changed 1) @ message_bytes (OrdinaryResponse (Value (Bool True)))),
        con_stdout = [], con_stdin = []\<rparr> = Some (Inl e, con') \<and>
     follow_script 1 ms vs \<and> follow_stuck 1 rest \<and>
     message_bytes (Changed 1) @ message_bytes (OrdinaryResponse (Value (Bool True))) = concat (map message_bytes ms) @ rest \<and>
     con_stdout con' = concat (map (\<lambda>v. format_follow_value sample_tables (owned_value v) @ [0x0A]) vs)"
  using follow_mode_prints_values [OF list_host.recorded_host_axioms [of "\<lambda>_ _. None"], where tables = sample_tables and
      con = "\<lparr>con_client = client_new (message_bytes (Changed 1) @ message_bytes (OrdinaryResponse (Value (Bool True)))),
        con_stdout = [], con_stdin = []\<rparr>" and
      key = "\<lparr>info_keyref = 1, info_keyflags = KeyFlags 5, info_name = []\<rparr>"]
  by (simp add: client_new_def)

end
