(* ===== verification/Tui_App.thy ===== *)
theory Tui_App
  imports Std_Text
begin

text \<open>
  The state of the terminal viewer and its reaction to network updates and terminal input
  (\<open>qup-test-tui/src/app.rs\<close>), with the hit testing of \<open>qup-test-tui/src/ui.rs\<close>. The events of
  the crate \<open>crossterm\<close> are inputs; Tui_Draw has the screen. An \<open>Instant\<close> is a number, and the
  channel to the worker is the list of commands sent with a flag that its receiver is gone.
\<close>

section \<open>State\<close>

record key_row =
  row_info :: key_info
  row_value :: rstr
  row_last_read :: "nat option"

datatype app_status = Status_Connecting | Status_Connected | Status_Disconnected rstr

datatype modal_focus = StringInput | NumberInput

definition toggle :: "modal_focus \<Rightarrow> modal_focus" where
  "toggle f = (case f of StringInput \<Rightarrow> NumberInput | NumberInput \<Rightarrow> StringInput)"

record edit_modal =
  modal_keyref :: u16
  modal_key_name :: rstr
  modal_current_value :: rstr
  modal_string_input :: rtext
  modal_number_input :: rtext
  modal_focus_of :: modal_focus
  modal_error :: "rstr option"
  modal_submitting :: bool

definition modal_from_row :: "key_row \<Rightarrow> edit_modal" where
  "modal_from_row row =
     \<lparr>modal_keyref = info_keyref (row_info row), modal_key_name = info_name (row_info row),
      modal_current_value = row_value row, modal_string_input = [],
      modal_number_input = (case parse_i64 (row_value row) of Inr _ \<Rightarrow> ascii_chars (row_value row) | Inl _ \<Rightarrow> []),
      modal_focus_of = StringInput, modal_error = None, modal_submitting = False\<rparr>"

definition mark_submitting :: "edit_modal \<Rightarrow> edit_modal" where
  "mark_submitting m = m\<lparr>modal_error := None, modal_submitting := True\<rparr>"

definition set_error :: "rstr \<Rightarrow> edit_modal \<Rightarrow> edit_modal" where
  "set_error e m = m\<lparr>modal_error := Some e, modal_submitting := False\<rparr>"

record app =
  app_addr :: rstr
  app_retry_secs :: u64
  app_status_of :: app_status
  app_node_id :: "rstr option"
  app_keys :: "key_row list"
  app_modal :: "edit_modal option"

definition app_new :: "rstr \<Rightarrow> u64 \<Rightarrow> app" where
  "app_new addr retry_secs =
     \<lparr>app_addr = addr, app_retry_secs = retry_secs, app_status_of = Status_Connecting,
      app_node_id = None, app_keys = [], app_modal = None\<rparr>"

section \<open>Network updates\<close>

datatype network_event =
    Net_Connecting
  | Net_Connected rstr "key_row list"
  | Net_Disconnected rstr
  | Value_Updated u16 rstr "nat option"
  | Write_Succeeded u16 rstr nat
  | Write_Failed u16 rstr

text \<open>\<open>iter_mut().find(...)\<close> and the assignment to the row found.\<close>

fun update_first :: "('a \<Rightarrow> bool) \<Rightarrow> ('a \<Rightarrow> 'a) \<Rightarrow> 'a list \<Rightarrow> 'a list" where
  "update_first P f [] = []"
| "update_first P f (x # xs) = (if P x then f x # xs else x # update_first P f xs)"

definition update_key_value :: "u16 \<Rightarrow> rstr \<Rightarrow> nat option \<Rightarrow> app \<Rightarrow> app" where
  "update_key_value keyref v last_read a =
     a\<lparr>app_keys := update_first (\<lambda>row. info_keyref (row_info row) = keyref)
         (\<lambda>row. row\<lparr>row_value := v, row_last_read := last_read\<rparr>) (app_keys a)\<rparr>"

definition apply_update :: "network_event \<Rightarrow> app \<Rightarrow> app" where
  "apply_update update a =
     (case update of
        Net_Connecting \<Rightarrow> a\<lparr>app_status_of := Status_Connecting, app_node_id := None, app_modal := None\<rparr>
      | Net_Connected node_id keys \<Rightarrow>
          a\<lparr>app_status_of := Status_Connected, app_node_id := Some node_id, app_keys := keys, app_modal := None\<rparr>
      | Net_Disconnected error \<Rightarrow>
          a\<lparr>app_status_of := Status_Disconnected error, app_node_id := None, app_modal := None\<rparr>
      | Value_Updated keyref v last_read \<Rightarrow>
          let a = update_key_value keyref v last_read a in
          (case app_modal a of
             Some m \<Rightarrow> if modal_keyref m = keyref then a\<lparr>app_modal := Some (m\<lparr>modal_current_value := v\<rparr>)\<rparr> else a
           | None \<Rightarrow> a)
      | Write_Succeeded keyref v last_read \<Rightarrow>
          let a = update_key_value keyref v (Some last_read) a in
          (case app_modal a of
             Some m \<Rightarrow> if modal_keyref m = keyref then a\<lparr>app_modal := None\<rparr> else a
           | None \<Rightarrow> a)
      | Write_Failed keyref error \<Rightarrow>
          (case app_modal a of
             Some m \<Rightarrow> if modal_keyref m = keyref then a\<lparr>app_modal := Some (set_error error m)\<rparr> else a
           | None \<Rightarrow> a))"

definition status_line :: "app \<Rightarrow> rstr" where
  "status_line a =
     (case app_status_of a of
        Status_Connecting \<Rightarrow> ascii ''connecting to '' @ app_addr a
      | Status_Connected \<Rightarrow>
          let node = (case app_node_id a of Some n \<Rightarrow> n | None \<Rightarrow> ascii ''<unknown>'') in
          ascii ''connected to '' @ app_addr a @ ascii '' as '' @ node @ ascii '' | ''
          @ text_of_nat (length (app_keys a)) @ ascii '' keys | ''
          @ text_of_nat (length (filter (\<lambda>row. is_observable (info_keyflags (row_info row))) (app_keys a)))
          @ ascii '' observable | click writable rows, press r to reread, q to quit''
      | Status_Disconnected error \<Rightarrow>
          ascii ''disconnected from '' @ app_addr a @ ascii '': '' @ error @ ascii '' | retrying every ''
          @ text_of_nat (unat (app_retry_secs a)) @ ascii ''s | q to quit'')"

definition open_modal_for_key :: "u16 \<Rightarrow> app \<Rightarrow> app" where
  "open_modal_for_key keyref a =
     (case List.find (\<lambda>row. info_keyref (row_info row) = keyref \<and> is_writable (info_keyflags (row_info row))) (app_keys a) of
        Some row \<Rightarrow> a\<lparr>app_modal := Some (modal_from_row row)\<rparr>
      | None \<Rightarrow> a)"

section \<open>Hit testing\<close>

record rect =
  rect_x :: u16
  rect_y :: u16
  rect_width :: u16
  rect_height :: u16

definition u16_saturating_sub :: "u16 \<Rightarrow> u16 \<Rightarrow> u16" where
  "u16_saturating_sub a b = (if a \<le> b then 0 else a - b)"

definition contains_point :: "rect \<Rightarrow> u16 \<Rightarrow> u16 \<Rightarrow> bool" where
  "contains_point r column row \<longleftrightarrow> rect_x r \<le> column \<and> column < u16_saturating_add (rect_x r) (rect_width r)
     \<and> rect_y r \<le> row \<and> row < u16_saturating_add (rect_y r) (rect_height r)"

record table_geometry =
  table_body :: rect
  visible_rows :: nat

definition row_at :: "table_geometry \<Rightarrow> u16 \<Rightarrow> u16 \<Rightarrow> nat \<Rightarrow> nat option" where
  "row_at g column row total_rows =
     (if \<not> contains_point (table_body g) column row then None
      else let row_index = unat (u16_saturating_sub row (rect_y (table_body g)));
               visible = min (visible_rows g) total_rows
           in if row_index < visible then Some row_index else None)"

datatype modal_click_target =
  TargetStringInput | TargetStringSet | TargetBoolTrue | TargetBoolFalse | TargetNumberInput | TargetNumberSet

record modal_geometry =
  outer :: rect
  string_input :: rect
  string_set_button :: rect
  bool_true_button :: rect
  bool_false_button :: rect
  number_input :: rect
  number_set_button :: rect

definition target_at :: "modal_geometry \<Rightarrow> u16 \<Rightarrow> u16 \<Rightarrow> modal_click_target option" where
  "target_at g column row =
     (if contains_point (string_input g) column row then Some TargetStringInput
      else if contains_point (string_set_button g) column row then Some TargetStringSet
      else if contains_point (bool_true_button g) column row then Some TargetBoolTrue
      else if contains_point (bool_false_button g) column row then Some TargetBoolFalse
      else if contains_point (number_input g) column row then Some TargetNumberInput
      else if contains_point (number_set_button g) column row then Some TargetNumberSet
      else None)"

definition modal_contains :: "modal_geometry \<Rightarrow> u16 \<Rightarrow> u16 \<Rightarrow> bool" where
  "modal_contains g column row \<longleftrightarrow> contains_point (outer g) column row"

record ui_geometry =
  geometry_table :: "table_geometry option"
  geometry_modal :: "modal_geometry option"

section \<open>Terminal input\<close>

datatype worker_command = RefreshAllReadable | WriteValue u16 client_value

text \<open>The sender of the unbounded channel: \<open>send\<close> fails once the receiver has been dropped.\<close>

record command_tx =
  tx_sent :: "worker_command list"
  tx_closed :: bool

definition tx_send :: "worker_command \<Rightarrow> command_tx \<Rightarrow> bool \<times> command_tx" where
  "tx_send c tx = (if tx_closed tx then (False, tx) else (True, tx\<lparr>tx_sent := tx_sent tx @ [c]\<rparr>))"

record input_outcome =
  needs_redraw :: bool
  quit :: bool

abbreviation idle :: input_outcome where "idle \<equiv> \<lparr>needs_redraw = False, quit = False\<rparr>"
abbreviation redraw :: input_outcome where "redraw \<equiv> \<lparr>needs_redraw = True, quit = False\<rparr>"
abbreviation quitting :: input_outcome where "quitting \<equiv> \<lparr>needs_redraw = False, quit = True\<rparr>"

datatype key_code = KeyEsc | KeyTab | KeyBackTab | KeyBackspace | KeyEnter | KeyChar rchar | KeyOther

datatype key_kind = KeyPress | KeyRepeat | KeyRelease

record key_event =
  event_code :: key_code
  event_control :: bool
  event_kind :: key_kind

datatype mouse_kind = LeftDown | MouseOther

record mouse_event =
  mouse_kind_of :: mouse_kind
  mouse_column :: u16
  mouse_row :: u16

datatype terminal_event = Key_Event key_event | Mouse_Event mouse_event | Resize_Event | Ignored_Event

text \<open>\<open>queue_write_command\<close> on the open modal; its third argument is the command.\<close>

definition queue_write_command :: "edit_modal \<Rightarrow> command_tx \<Rightarrow> worker_command \<Rightarrow> edit_modal \<times> command_tx" where
  "queue_write_command m tx command =
     (let m = mark_submitting m in
      case tx_send command tx of
        (True, tx') \<Rightarrow> (m, tx')
      | (False, tx') \<Rightarrow> (set_error (ascii ''connection manager stopped'') m, tx'))"

definition submit_value :: "client_value \<Rightarrow> app \<times> command_tx \<Rightarrow> app \<times> command_tx" where
  "submit_value v s = (case s of (a, tx) \<Rightarrow>
     case app_modal a of
       None \<Rightarrow> (a, tx)
     | Some m \<Rightarrow>
         (case queue_write_command m tx (WriteValue (modal_keyref m) v) of
            (m', tx') \<Rightarrow> (a\<lparr>app_modal := Some m'\<rparr>, tx')))"

definition submit_string_modal :: "app \<times> command_tx \<Rightarrow> app \<times> command_tx" where
  "submit_string_modal s =
     (case app_modal (fst s) of
        None \<Rightarrow> s
      | Some m \<Rightarrow> submit_value (Value_Str (text_bytes (modal_string_input m))) s)"

definition submit_bool_modal :: "bool \<Rightarrow> app \<times> command_tx \<Rightarrow> app \<times> command_tx" where
  "submit_bool_modal v = submit_value (Value_Bool v)"

definition submit_number_modal :: "app \<times> command_tx \<Rightarrow> app \<times> command_tx" where
  "submit_number_modal s =
     (case app_modal (fst s) of
        None \<Rightarrow> s
      | Some m \<Rightarrow>
          (case parse_i64 (text_bytes (trim (modal_number_input m))) of
             Inr v \<Rightarrow> submit_value (Value_I64 v) s
           | Inl e \<Rightarrow>
               ((fst s)\<lparr>app_modal := Some (set_error (ascii ''invalid number: '' @ int_error_display e) m)\<rparr>, snd s)))"

definition submit_focused_modal_value :: "app \<times> command_tx \<Rightarrow> app \<times> command_tx" where
  "submit_focused_modal_value s =
     (case map_option modal_focus_of (app_modal (fst s)) of
        Some StringInput \<Rightarrow> submit_string_modal s
      | Some NumberInput \<Rightarrow> submit_number_modal s
      | None \<Rightarrow> s)"

text \<open>\<open>String::push\<close> in the number field, restricted to digits and a leading minus sign.\<close>

definition number_accepts :: "rtext \<Rightarrow> rchar \<Rightarrow> bool" where
  "number_accepts input c \<longleftrightarrow> is_ascii_digit c \<or> c = [0x2D] \<and> input = []"

definition type_char :: "rchar \<Rightarrow> edit_modal \<Rightarrow> edit_modal" where
  "type_char c m =
     (case modal_focus_of m of
        StringInput \<Rightarrow> m\<lparr>modal_string_input := modal_string_input m @ [c]\<rparr>
      | NumberInput \<Rightarrow>
          if number_accepts (modal_number_input m) c
          then m\<lparr>modal_number_input := modal_number_input m @ [c]\<rparr> else m)"

definition erase_char :: "edit_modal \<Rightarrow> edit_modal" where
  "erase_char m =
     (case modal_focus_of m of
        StringInput \<Rightarrow> m\<lparr>modal_string_input := butlast (modal_string_input m)\<rparr>
      | NumberInput \<Rightarrow> m\<lparr>modal_number_input := butlast (modal_number_input m)\<rparr>)"

definition handle_modal_key_event :: "key_event \<Rightarrow> app \<times> command_tx \<Rightarrow> input_outcome \<times> (app \<times> command_tx)" where
  "handle_modal_key_event key s = (case s of (a, tx) \<Rightarrow>
     case app_modal a of
       None \<Rightarrow> (idle, s)
     | Some m \<Rightarrow>
         if modal_submitting m then
           (if event_code key = KeyEsc then (redraw, (a\<lparr>app_modal := None\<rparr>, tx)) else (idle, s))
         else (case event_code key of
             KeyEsc \<Rightarrow> (redraw, (a\<lparr>app_modal := None\<rparr>, tx))
           | KeyTab \<Rightarrow> (redraw, (a\<lparr>app_modal := Some (m\<lparr>modal_focus_of := toggle (modal_focus_of m)\<rparr>)\<rparr>, tx))
           | KeyBackTab \<Rightarrow> (redraw, (a\<lparr>app_modal := Some (m\<lparr>modal_focus_of := toggle (modal_focus_of m)\<rparr>)\<rparr>, tx))
           | KeyBackspace \<Rightarrow> (redraw, (a\<lparr>app_modal := Some (erase_char m)\<rparr>, tx))
           | KeyEnter \<Rightarrow> (redraw, submit_focused_modal_value s)
           | KeyChar c \<Rightarrow>
               if \<not> event_control key then (redraw, (a\<lparr>app_modal := Some (type_char c m)\<rparr>, tx)) else (idle, s)
           | KeyOther \<Rightarrow> (idle, s)))"

definition handle_key_event :: "key_event \<Rightarrow> app \<times> command_tx \<Rightarrow> input_outcome \<times> (app \<times> command_tx)" where
  "handle_key_event key s = (case s of (a, tx) \<Rightarrow>
     if event_kind key \<noteq> KeyPress then (idle, s)
     else if event_control key \<and> event_code key = KeyChar (ascii ''c'') then (quitting, s)
     else if app_modal a \<noteq> None then handle_modal_key_event key s
     else if event_code key = KeyChar (ascii ''q'') then (quitting, s)
     else if event_code key = KeyChar (ascii ''r'') \<or> event_code key = KeyChar (ascii ''R'')
       then (redraw, (a, snd (tx_send RefreshAllReadable tx)))
     else (idle, s))"

definition set_focus :: "modal_focus \<Rightarrow> app \<times> command_tx \<Rightarrow> app \<times> command_tx" where
  "set_focus f s = (case s of (a, tx) \<Rightarrow>
     (a\<lparr>app_modal := map_option (\<lambda>m. m\<lparr>modal_focus_of := f\<rparr>) (app_modal a)\<rparr>, tx))"

definition click_target :: "modal_click_target \<Rightarrow> app \<times> command_tx \<Rightarrow> app \<times> command_tx" where
  "click_target target s =
     (case target of
        TargetStringInput \<Rightarrow> set_focus StringInput s
      | TargetStringSet \<Rightarrow> submit_string_modal s
      | TargetBoolTrue \<Rightarrow> submit_bool_modal True s
      | TargetBoolFalse \<Rightarrow> submit_bool_modal False s
      | TargetNumberInput \<Rightarrow> set_focus NumberInput s
      | TargetNumberSet \<Rightarrow> submit_number_modal s)"

definition click_row :: "table_geometry \<Rightarrow> u16 \<Rightarrow> u16 \<Rightarrow> app \<times> command_tx \<Rightarrow> input_outcome \<times> (app \<times> command_tx)" where
  "click_row g column row s = (case s of (a, tx) \<Rightarrow>
     case row_at g column row (length (app_keys a)) of
       None \<Rightarrow> (idle, s)
     | Some row_index \<Rightarrow>
         (case list_get (app_keys a) row_index of
            None \<Rightarrow> (idle, s)
          | Some r \<Rightarrow>
              if \<not> is_writable (info_keyflags (row_info r)) then (idle, s)
              else (redraw, (open_modal_for_key (info_keyref (row_info r)) a, tx))))"

definition handle_mouse_event ::
  "ui_geometry \<Rightarrow> mouse_event \<Rightarrow> app \<times> command_tx \<Rightarrow> input_outcome \<times> (app \<times> command_tx)" where
  "handle_mouse_event g mouse s = (case s of (a, tx) \<Rightarrow>
     if mouse_kind_of mouse \<noteq> LeftDown then (idle, s)
     else case geometry_modal g of
       Some mg \<Rightarrow>
         (case target_at mg (mouse_column mouse) (mouse_row mouse) of
            Some target \<Rightarrow> (redraw, click_target target s)
          | None \<Rightarrow>
              if \<not> modal_contains mg (mouse_column mouse) (mouse_row mouse)
              then (redraw, (a\<lparr>app_modal := None\<rparr>, tx)) else (idle, s))
     | None \<Rightarrow>
         (case geometry_table g of
            None \<Rightarrow> (idle, s)
          | Some tg \<Rightarrow> click_row tg (mouse_column mouse) (mouse_row mouse) s))"

definition handle_event ::
  "ui_geometry \<Rightarrow> terminal_event \<Rightarrow> app \<times> command_tx \<Rightarrow> input_outcome \<times> (app \<times> command_tx)" where
  "handle_event g event s =
     (case event of
        Key_Event key \<Rightarrow> handle_key_event key s
      | Mouse_Event mouse \<Rightarrow> handle_mouse_event g mouse s
      | Resize_Event \<Rightarrow> (redraw, s)
      | Ignored_Event \<Rightarrow> (idle, s))"

text \<open>
  What the loop of \<open>main\<close> does to this state (\<open>qup-test-tui/src/main.rs\<close>, modelled in Tui_Draw):
  network updates that have arrived and terminal events, with the geometry of the last frame drawn.
\<close>

datatype viewer_event = Network network_event | Terminal ui_geometry terminal_event | Worker_Stops

fun viewer_step :: "viewer_event \<Rightarrow> app \<times> command_tx \<Rightarrow> app \<times> command_tx" where
  "viewer_step (Network update) (a, tx) = (apply_update update a, tx)"
| "viewer_step (Terminal g event) s = snd (handle_event g event s)"
| "viewer_step Worker_Stops (a, tx) = (a, tx\<lparr>tx_closed := True\<rparr>)"

definition viewer_start :: "rtext \<Rightarrow> u64 \<Rightarrow> app \<times> command_tx" where
  "viewer_start addr retry_secs = (app_new (text_bytes addr) retry_secs, \<lparr>tx_sent = [], tx_closed = False\<rparr>)"

definition viewer_run :: "viewer_event list \<Rightarrow> app \<times> command_tx \<Rightarrow> app \<times> command_tx" where
  "viewer_run events s = fold viewer_step events s"

end
