(* ===== verification/Tui_Network.thy ===== *)
theory Tui_Network
  imports Error_Text Client_Timeout Tui_App
begin

text \<open>
  The connection worker of the terminal viewer (\<open>qup-test-tui/src/network.rs\<close>): it connects,
  reads the key table, keeps the list of keys with a pending change, serves the commands of the
  viewer and sends it events. The client, the events sent and the pending keys are its state;
  the clock, the timers, the arrival of commands and the moment at which the viewer is gone
  are parameters that look at the state of the connection.
\<close>

section \<open>Data\<close>

text \<open>Durations and instants in nanoseconds.\<close>

definition NETWORK_POLL :: nat where "NETWORK_POLL = 1000000000"
definition HEARTBEAT_IDLE :: nat where "HEARTBEAT_IDLE = 3000000000"
definition REQUEST_TIMEOUT :: nat where "REQUEST_TIMEOUT = 2000000000"

datatype write_command_error = Write_Request rstr | Write_Connection rstr

record ('s, 'io) worker_env =
  env_host :: "('s, 'io) host"
  env_tables :: char_tables
  env_io_text :: "'io \<Rightarrow> rstr"
  env_clock :: "'s \<Rightarrow> nat \<times> 's"
  env_try_recv :: "'s \<Rightarrow> worker_command option \<times> 's"
  env_viewer_gone :: "'s \<Rightarrow> bool"

record 's worker =
  wk_client :: "'s client"
  wk_events :: "network_event list"
  wk_pending :: "u16 list"

section \<open>Texts of the display\<close>

text \<open>\<open>format_value\<close> of \<open>ui.rs\<close>.\<close>

definition display_value :: "char_tables \<Rightarrow> client_value \<Rightarrow> rstr" where
  "display_value tables v = (case v of
     Value_Bool b \<Rightarrow> bool_display b
   | Value_I64 i \<Rightarrow> text_of_i64 i
   | Value_Str s \<Rightarrow> escape_debug tables s)"

definition unreadable_text :: "key_info \<Rightarrow> rstr" where
  "unreadable_text key =
     (if is_observable (info_keyflags key) then ascii ''<observable; unreadable>'' else ascii ''<unreadable>'')"

definition initial_display_value :: "key_info \<Rightarrow> rstr" where
  "initial_display_value key =
     (if \<not> is_readable (info_keyflags key) then unreadable_text key
      else if is_observable (info_keyflags key) then ascii ''<waiting for update>''
      else ascii ''<loading>'')"

section \<open>Pending changes\<close>

definition enqueue_changed_key :: "u16 list \<Rightarrow> u16 \<Rightarrow> u16 list" where
  "enqueue_changed_key pending keyref = (if keyref \<notin> set pending then pending @ [keyref] else pending)"

definition enqueue_changed_keys :: "u16 list \<Rightarrow> u16 list \<Rightarrow> u16 list" where
  "enqueue_changed_keys pending keyrefs = foldl enqueue_changed_key pending keyrefs"

section \<open>Requests that collect notifications\<close>

definition client_now :: "('s, 'io) worker_env \<Rightarrow> 's client \<Rightarrow> nat \<times> 's client" where
  "client_now env c = (case env_clock env (client_stream c) of (now, s) \<Rightarrow> (now, c\<lparr>client_stream := s\<rparr>))"

definition request_failed_text :: "u8 \<Rightarrow> rstr" where
  "request_failed_text code = ascii ''request failed with error code '' @ hex_code code"

text \<open>
  The loop of the three wait functions. They differ in the response they wait for, given by
  \<open>select\<close>, and in the name of it in the text of a timeout.
\<close>

partial_function (option) wait_loop ::
  "('s, 'io) worker_env \<Rightarrow> string \<Rightarrow> (message \<Rightarrow> 'a option) \<Rightarrow> nat \<Rightarrow> u16 list \<Rightarrow>
     ('s client, write_command_error, 'a \<times> u16 list) proc" where
  "wait_loop env expected select started changed c =
     (case client_now env c of (now, c) \<Rightarrow>
        let time_left = REQUEST_TIMEOUT - (now - started) in
        if time_left = 0
        then Some (Inl (Write_Connection (ascii ''timed out waiting for '' @ ascii expected)), c)
        else (case next_message_timeout (env_host env) time_left c of
            (Inl e, c) \<Rightarrow> Some (Inl (Write_Connection (client_error_display (env_io_text env) (env_tables env) e)), c)
          | (Inr None, c) \<Rightarrow> Some (Inl (Write_Connection (ascii ''timed out waiting for response'')), c)
          | (Inr (Some m), c) \<Rightarrow>
              (case select m of
                 Some a \<Rightarrow> Some (Inr (a, changed), c)
               | None \<Rightarrow>
                   (case m of
                      Message_Changed keyref \<Rightarrow>
                        wait_loop env expected select started (enqueue_changed_key changed keyref) c
                    | Message_Error code \<Rightarrow> Some (Inl (Write_Request (request_failed_text code)), c)
                    | other \<Rightarrow>
                        Some (Inl (Write_Connection
                          (ascii ''unexpected response: '' @ message_debug (env_tables env) other)), c)))))"

fun error_text :: "write_command_error \<Rightarrow> rstr" where
  "error_text (Write_Request t) = t"
| "error_text (Write_Connection t) = t"

definition wait_for_written_with_changes ::
  "('s, 'io) worker_env \<Rightarrow> ('s client, write_command_error, client_value \<times> u16 list) proc" where
  "wait_for_written_with_changes env c =
     (case client_now env c of (started, c) \<Rightarrow> wait_loop env ''WRITTEN'' select_written started [] c)"

definition wait_for_value_with_changes ::
  "('s, 'io) worker_env \<Rightarrow> ('s client, rstr, client_value \<times> u16 list) proc" where
  "wait_for_value_with_changes env c =
     (case client_now env c of (started, c) \<Rightarrow>
        map_option (apfst (res_map_err error_text)) (wait_loop env ''VALUE'' select_value started [] c))"

definition wait_for_ok_with_changes :: "('s, 'io) worker_env \<Rightarrow> ('s client, rstr, u16 list) proc" where
  "wait_for_ok_with_changes env c =
     (case client_now env c of (started, c) \<Rightarrow>
        map_option (apfst (res_map snd \<circ> res_map_err error_text)) (wait_loop env ''OK'' select_ok started [] c))"

definition send_failed :: "('s, 'io) worker_env \<Rightarrow> 'io io_error \<Rightarrow> rstr" where
  "send_failed env e = ascii ''send failed: '' @ io_error_display (env_io_text env) e"

definition observe_with_changes :: "('s, 'io) worker_env \<Rightarrow> u16 \<Rightarrow> ('s client, rstr, u16 list) proc" where
  "observe_with_changes env keyref =
     proc_bind (proc_of (act_map_err (send_failed env) (send_keyref_request (host_write (env_host env)) OBSERVE keyref)))
       (\<lambda>_. wait_for_ok_with_changes env)"

definition read_value_with_changes ::
  "('s, 'io) worker_env \<Rightarrow> u16 \<Rightarrow> ('s client, rstr, client_value \<times> u16 list) proc" where
  "read_value_with_changes env keyref =
     proc_bind (proc_of (act_map_err (send_failed env) (send_keyref_request (host_write (env_host env)) GET keyref)))
       (\<lambda>_. wait_for_value_with_changes env)"

definition write_value_with_changes ::
  "('s, 'io) worker_env \<Rightarrow> u16 \<Rightarrow> client_value \<Rightarrow> ('s client, write_command_error, client_value \<times> u16 list) proc" where
  "write_value_with_changes env keyref v =
     proc_bind (proc_of (act_map_err (Write_Connection \<circ> send_failed env)
         (send_write_request (host_write (env_host env)) keyref v)))
       (\<lambda>_. wait_for_written_with_changes env)"

definition ping_with_changes :: "('s, 'io) worker_env \<Rightarrow> ('s client, rstr, u16 list) proc" where
  "ping_with_changes env =
     proc_bind (proc_of (act_map_err (send_failed env) (send_empty_request (host_write (env_host env)) PING)))
       (\<lambda>_. wait_for_ok_with_changes env)"

section \<open>The worker\<close>

text \<open>A call on the client of the worker, with the conversion of its error.\<close>

definition on_worker :: "('e \<Rightarrow> rstr) \<Rightarrow> ('s client, 'e, 'a) proc \<Rightarrow> ('s worker, rstr, 'a) proc" where
  "on_worker text_of p w = (case p (wk_client w) of
     None \<Rightarrow> None
   | Some (r, c) \<Rightarrow> Some (res_map_err text_of r, w\<lparr>wk_client := c\<rparr>))"

definition worker_now :: "('s, 'io) worker_env \<Rightarrow> ('s worker, rstr, nat) action" where
  "worker_now env w = (case client_now env (wk_client w) of (now, c) \<Rightarrow> (Inr now, w\<lparr>wk_client := c\<rparr>))"

definition send_event :: "('s, 'io) worker_env \<Rightarrow> network_event \<Rightarrow> ('s worker, rstr, unit) action" where
  "send_event env event w =
     (if env_viewer_gone env (client_stream (wk_client w)) then (Inl (ascii ''viewer closed''), w)
      else (Inr (), w\<lparr>wk_events := wk_events w @ [event]\<rparr>))"

definition enqueue :: "u16 list \<Rightarrow> ('s worker, rstr, unit) action" where
  "enqueue changed = act_modify (\<lambda>w. w\<lparr>wk_pending := enqueue_changed_keys (wk_pending w) changed\<rparr>)"

text \<open>\<open>"<what> <name> failed: <error>"\<close>.\<close>

definition named_failure :: "string \<Rightarrow> key_info \<Rightarrow> rstr \<Rightarrow> rstr" where
  "named_failure what key error = ascii what @ info_name key @ ascii '' failed: '' @ error"

text \<open>Read a key, queue what changed meanwhile, and send the value to the viewer.\<close>

definition refresh_key :: "('s, 'io) worker_env \<Rightarrow> key_info \<Rightarrow> u16 \<Rightarrow> ('s worker, rstr, unit) proc" where
  "refresh_key env key keyref =
     proc_bind (on_worker (named_failure ''refresh '' key) (read_value_with_changes env keyref)) (\<lambda>(v, changed).
       proc_of (act_bind (enqueue changed) (\<lambda>_.
         act_bind (worker_now env) (\<lambda>now.
           send_event env (Value_Updated keyref (display_value (env_tables env) v) (Some now))))))"

fun reread_all_readable_keys :: "('s, 'io) worker_env \<Rightarrow> key_info list \<Rightarrow> ('s worker, rstr, unit) proc" where
  "reread_all_readable_keys env [] = proc_of (act_ok ())"
| "reread_all_readable_keys env (key # keys) =
     (if \<not> is_readable (info_keyflags key) then reread_all_readable_keys env keys
      else proc_bind (refresh_key env key (info_keyref key)) (\<lambda>_. reread_all_readable_keys env keys))"

text \<open>The map of the keys by reference is a sorted association list.\<close>

type_synonym key_map = "(u16 \<times> key_info) list"

fun key_insert :: "u16 \<Rightarrow> key_info \<Rightarrow> key_map \<Rightarrow> key_map" where
  "key_insert k info [] = [(k, info)]"
| "key_insert k info ((j, other) # m) =
     (if k < j then (k, info) # (j, other) # m
      else if k = j then (k, info) # m
      else (j, other) # key_insert k info m)"

text \<open>One turn of \<open>drain_changed_keys\<close>, for the key that \<open>pop\<close> has returned.\<close>

definition drain_key :: "('s, 'io) worker_env \<Rightarrow> key_map \<Rightarrow> u16 \<Rightarrow> ('s worker, rstr, unit) proc" where
  "drain_key env keys_by_ref keyref =
     (case map_of keys_by_ref keyref of
        None \<Rightarrow> proc_of (act_ok ())
      | Some key \<Rightarrow>
          if is_readable (info_keyflags key) then refresh_key env key keyref
          else proc_of (send_event env (Value_Updated keyref (ascii ''<changed; unreadable>'') None)))"

partial_function (option) drain_changed_keys ::
  "('s, 'io) worker_env \<Rightarrow> key_map \<Rightarrow> ('s worker, rstr, unit) proc" where
  "drain_changed_keys env keys_by_ref w =
     (if wk_pending w = [] then Some (Inr (), w)
      else case drain_key env keys_by_ref (last (wk_pending w)) (w\<lparr>wk_pending := butlast (wk_pending w)\<rparr>) of
        None \<Rightarrow> None
      | Some (Inl e, w) \<Rightarrow> Some (Inl e, w)
      | Some (Inr _, w) \<Rightarrow> drain_changed_keys env keys_by_ref w)"

definition write_command ::
  "('s, 'io) worker_env \<Rightarrow> u16 \<Rightarrow> client_value \<Rightarrow> ('s worker, rstr, unit) proc" where
  "write_command env keyref v w =
     (case write_value_with_changes env keyref v (wk_client w) of
        None \<Rightarrow> None
      | Some (Inr (written, changed), c) \<Rightarrow>
          proc_of (act_bind (enqueue changed) (\<lambda>_.
            act_bind (worker_now env) (\<lambda>now.
              send_event env (Write_Succeeded keyref (display_value (env_tables env) written) now)))) (w\<lparr>wk_client := c\<rparr>)
      | Some (Inl (Write_Request error), c) \<Rightarrow>
          proc_of (send_event env (Write_Failed keyref error)) (w\<lparr>wk_client := c\<rparr>)
      | Some (Inl (Write_Connection error), c) \<Rightarrow> Some (Inl error, w\<lparr>wk_client := c\<rparr>))"

definition try_recv :: "('s, 'io) worker_env \<Rightarrow> 's worker \<Rightarrow> worker_command option \<times> 's worker" where
  "try_recv env w = (case env_try_recv env (client_stream (wk_client w)) of
     (command, s) \<Rightarrow> (command, w\<lparr>wk_client := (wk_client w)\<lparr>client_stream := s\<rparr>\<rparr>))"

definition process_command ::
  "('s, 'io) worker_env \<Rightarrow> key_map \<Rightarrow> worker_command \<Rightarrow> ('s worker, rstr, unit) proc" where
  "process_command env keys_by_ref command =
     (case command of
        RefreshAllReadable \<Rightarrow> reread_all_readable_keys env (map snd keys_by_ref)
      | WriteValue keyref v \<Rightarrow> write_command env keyref v)"

partial_function (option) process_commands ::
  "('s, 'io) worker_env \<Rightarrow> key_map \<Rightarrow> ('s worker, rstr, unit) proc" where
  "process_commands env keys_by_ref w =
     (case try_recv env w of
        (None, w) \<Rightarrow> Some (Inr (), w)
      | (Some command, w) \<Rightarrow>
          (case process_command env keys_by_ref command w of
             None \<Rightarrow> None
           | Some (Inl e, w) \<Rightarrow> Some (Inl e, w)
           | Some (Inr _, w) \<Rightarrow> process_commands env keys_by_ref w))"

section \<open>A connection\<close>

text \<open>Observe and read one key of the table, before the viewer is told of the connection.\<close>

definition start_row :: "('s, 'io) worker_env \<Rightarrow> key_row \<Rightarrow> ('s worker, rstr, key_row) proc" where
  "start_row env row =
     (let key = row_info row; flags = info_keyflags key; keyref = info_keyref key in
      proc_bind
        (if is_observable flags
         then proc_bind (on_worker (named_failure ''observe '' key) (observe_with_changes env keyref)) (\<lambda>changed.
           proc_of (enqueue changed))
         else proc_of (act_ok ())) (\<lambda>_.
      if is_readable flags
      then proc_bind (on_worker (named_failure ''initial read '' key) (read_value_with_changes env keyref)) (\<lambda>(v, changed).
        proc_of (act_bind (worker_now env) (\<lambda>now.
          act_bind (enqueue changed) (\<lambda>_.
            act_ok (row\<lparr>row_value := display_value (env_tables env) v, row_last_read := Some now\<rparr>)))))
      else proc_of (act_ok row)))"

fun start_rows :: "('s, 'io) worker_env \<Rightarrow> key_row list \<Rightarrow> ('s worker, rstr, key_row list) proc" where
  "start_rows env [] = proc_of (act_ok [])"
| "start_rows env (row # rows) =
     proc_bind (start_row env row) (\<lambda>row'. proc_bind (start_rows env rows) (\<lambda>rows'. proc_of (act_ok (row' # rows'))))"

definition new_row :: "key_info \<Rightarrow> key_row" where
  "new_row key = \<lparr>row_info = key, row_value = initial_display_value key, row_last_read = None\<rparr>"

text \<open>The start of \<open>run_connection\<close>, up to the event \<open>Connected\<close>; it returns the map of the keys.\<close>

definition start_connection :: "('s, 'io) worker_env \<Rightarrow> ('s worker, rstr, key_map) proc" where
  "start_connection env =
     (let rd = host_read (env_host env); wr = host_write (env_host env);
          failure = (\<lambda>what e. ascii what @ client_error_display (env_io_text env) (env_tables env) e)
      in proc_bind (on_worker (failure ''identify failed: '') (client_identify rd wr)) (\<lambda>node_id.
         proc_bind (on_worker (failure ''key enumeration failed: '') (client_list_keys rd wr)) (\<lambda>keys.
         proc_bind (start_rows env (map new_row keys)) (\<lambda>rows.
         proc_bind (proc_of (send_event env (Net_Connected node_id rows))) (\<lambda>_.
           proc_of (act_ok (foldl (\<lambda>m key. key_insert (info_keyref key) key m) [] keys)))))))"

text \<open>One turn of the loop; its result is the time of the last traffic.\<close>

definition poll_connection :: "('s, 'io) worker_env \<Rightarrow> nat \<Rightarrow> ('s worker, rstr, nat) proc" where
  "poll_connection env last_traffic w =
     (case next_message_timeout (env_host env) NETWORK_POLL (wk_client w) of
        (Inr (Some (Message_Changed keyref)), c) \<Rightarrow>
          proc_of (act_bind (enqueue [keyref]) (\<lambda>_. worker_now env)) (w\<lparr>wk_client := c\<rparr>)
      | (Inr (Some _), c) \<Rightarrow> Some (Inl (ascii ''unexpected unsolicited response from node''), w\<lparr>wk_client := c\<rparr>)
      | (Inr None, c) \<Rightarrow>
          proc_bind (proc_of (worker_now env)) (\<lambda>now.
            if HEARTBEAT_IDLE \<le> now - last_traffic
            then proc_bind (on_worker (\<lambda>e. ascii ''heartbeat failed: '' @ e) (ping_with_changes env)) (\<lambda>changed.
              proc_of (act_bind (enqueue changed) (\<lambda>_. worker_now env)))
            else proc_of (act_ok last_traffic)) (w\<lparr>wk_client := c\<rparr>)
      | (Inl e, c) \<Rightarrow>
          Some (Inl (ascii ''connection lost: '' @ client_error_display (env_io_text env) (env_tables env) e), w\<lparr>wk_client := c\<rparr>))"

definition connection_turn :: "('s, 'io) worker_env \<Rightarrow> key_map \<Rightarrow> nat \<Rightarrow> ('s worker, rstr, nat) proc" where
  "connection_turn env keys_by_ref last_traffic =
     proc_bind (process_commands env keys_by_ref) (\<lambda>_.
       proc_bind (drain_changed_keys env keys_by_ref) (\<lambda>_. poll_connection env last_traffic))"

text \<open>The loop ends only with an error.\<close>

partial_function (option) connection_loop ::
  "('s, 'io) worker_env \<Rightarrow> key_map \<Rightarrow> nat \<Rightarrow> 's worker \<Rightarrow> (rstr \<times> 's worker) option" where
  "connection_loop env keys_by_ref last_traffic w =
     (case connection_turn env keys_by_ref last_traffic w of
        None \<Rightarrow> None
      | Some (Inl e, w) \<Rightarrow> Some (e, w)
      | Some (Inr last_traffic, w) \<Rightarrow> connection_loop env keys_by_ref last_traffic w)"

definition run_connection :: "('s, 'io) worker_env \<Rightarrow> 's worker \<Rightarrow> (rstr \<times> 's worker) option" where
  "run_connection env w =
     (case proc_bind (start_connection env) (\<lambda>keys_by_ref.
        proc_bind (proc_of (worker_now env)) (\<lambda>last_traffic.
          proc_bind (drain_changed_keys env keys_by_ref) (\<lambda>_. proc_of (act_ok (keys_by_ref, last_traffic))))) w of
        None \<Rightarrow> None
      | Some (Inl e, w) \<Rightarrow> Some (e, w)
      | Some (Inr (keys_by_ref, last_traffic), w) \<Rightarrow> connection_loop env keys_by_ref last_traffic w)"

text \<open>
  \<open>connection_manager\<close> over a finite history of connection attempts: what connecting returns,
  and whether the viewer is gone when the manager sends its own events before and after. The
  result is the events sent, with a flag that the manager has returned.
\<close>

record ('s, 'io) attempt =
  attempt_gone_before :: bool
  attempt_result :: "'io + 's"
  attempt_gone_after :: bool

definition run_attempt ::
  "('s, 'io) worker_env \<Rightarrow> 'io + 's \<Rightarrow> network_event list \<Rightarrow> (rstr \<times> network_event list) option" where
  "run_attempt env connected events =
     (case connected of
        Inl e \<Rightarrow> Some (ascii ''connect failed: '' @ env_io_text env e, events)
      | Inr s \<Rightarrow>
          map_option (\<lambda>(e, w). (e, wk_events w))
            (run_connection env \<lparr>wk_client = client_new s, wk_events = events, wk_pending = []\<rparr>))"

fun connection_manager ::
  "('s, 'io) worker_env \<Rightarrow> ('s, 'io) attempt list \<Rightarrow> network_event list \<Rightarrow> (bool \<times> network_event list) option" where
  "connection_manager env [] events = Some (False, events)"
| "connection_manager env (a # attempts) events =
     (if attempt_gone_before a then Some (True, events)
      else case run_attempt env (attempt_result a) (events @ [Net_Connecting]) of
        None \<Rightarrow> None
      | Some (error, events) \<Rightarrow>
          if attempt_gone_after a then Some (True, events)
          else connection_manager env attempts (events @ [Net_Disconnected error]))"

end
