(* ===== verification/Tui_Network_Props.thy ===== *)
theory Tui_Network_Props
  imports Tui_Network Pipe_Host
begin

text \<open>
  Properties of the viewer's connection worker: what the wait loops take off the stream, that
  every notification the worker receives leads to a refresh of its key, with the one exception
  of a rejected write, and that the table the viewer is sent after connecting to the test node
  is the node's key table with its values.
\<close>

section \<open>Pending changes\<close>

lemma set_enqueue: "set (enqueue_changed_key pending k) = insert k (set pending)"
  by (auto simp: enqueue_changed_key_def)

lemma enqueue_keys_Nil [simp]: "enqueue_changed_keys pending [] = pending"
  by (simp add: enqueue_changed_keys_def)

lemma enqueue_keys_Cons: "enqueue_changed_keys pending (k # ks) = enqueue_changed_keys (enqueue_changed_key pending k) ks"
  by (simp add: enqueue_changed_keys_def)

lemma set_enqueue_keys: "set (enqueue_changed_keys pending ks) = set pending \<union> set ks"
  by (induction ks arbitrary: pending) (auto simp: enqueue_keys_Cons set_enqueue)

lemma distinct_enqueue: "distinct (enqueue_changed_key pending k) = distinct pending"
  by (simp add: enqueue_changed_key_def)

lemma distinct_enqueue_keys: "distinct (enqueue_changed_keys pending ks) = distinct pending"
  by (induction ks arbitrary: pending) (simp_all add: enqueue_keys_Cons distinct_enqueue)

text \<open>Queueing what a wait has collected is queueing each notification.\<close>

lemma enqueue_collected:
  "set (enqueue_changed_keys pending (enqueue_changed_keys [] js)) = set pending \<union> set js"
  by (simp add: set_enqueue_keys)

section \<open>The wait loops\<close>

text \<open>The bytes of a response after notifications of the given keys.\<close>

definition answered :: "u16 list \<Rightarrow> message_ref \<Rightarrow> bytes" where
  "answered js m = concat (map message_bytes (map Changed js @ [m]))"

lemma answered_simps [simp]:
  "answered [] m = message_bytes m"
  "answered (j # js) m = message_bytes (Changed j) @ answered js m"
  by (simp_all add: answered_def)

text \<open>A host whose clock and command channel leave the stream alone.\<close>

locale worker_host = client_host "env_host env" pending valid
  for env :: "('s, 'io) worker_env" and pending :: "'s \<Rightarrow> bytes" and valid :: "'s \<Rightarrow> bool" +
  assumes clock_keeps: "valid s \<Longrightarrow> env_clock env s = (t, s') \<Longrightarrow> valid s' \<and> pending s' = pending s"
    and recv_keeps: "valid s \<Longrightarrow> env_try_recv env s = (command, s') \<Longrightarrow> valid s' \<and> pending s' = pending s"
begin

lemma client_now_keeps:
  "client_valid c \<Longrightarrow> client_now env c = (t, c') \<Longrightarrow> client_valid c' \<and> pending (client_stream c') = pending (client_stream c)"
  using clock_keeps [of "client_stream c"] by (auto simp: client_now_def split: prod.splits)

text \<open>
  A wait ends. When it returns, it has taken notifications and the response off the stream; so
  it has when the request was refused.
\<close>

definition wait_result ::
  "(message \<Rightarrow> 'b option) \<Rightarrow> u16 list \<Rightarrow> 's client \<Rightarrow> (write_command_error + 'b \<times> u16 list) \<times> 's client \<Rightarrow> bool" where
  "wait_result select changed c result \<longleftrightarrow> (case result of
     (Inr (a, ks), c') \<Rightarrow> client_valid c' \<and> (\<exists>js m x. wire_message NodeToClient m \<and>
        owned_message m = (Inr x :: 'io client_error + message) \<and> select x = Some a \<and>
        ks = enqueue_changed_keys changed js \<and> pending (client_stream c) = answered js m @ pending (client_stream c'))
   | (Inl (Write_Request t), c') \<Rightarrow> client_valid c' \<and> (\<exists>js code. t = request_failed_text (error_code code) \<and>
        pending (client_stream c) = answered js (Error code) @ pending (client_stream c'))
   | (Inl (Write_Connection t), c') \<Rightarrow> True)"

lemma wait_result_changed:
  assumes "pending (client_stream c) = message_bytes (Changed j) @ pending (client_stream c1)"
    and "wait_result select (enqueue_changed_key changed j) c1 result"
  shows "wait_result select changed c result"
proof -
  obtain r c' where result: "result = (r, c')" by (cases result)
  have more: "pending (client_stream c) = answered (j # js) m @ pending (client_stream c')"
    if "pending (client_stream c1) = answered js m @ pending (client_stream c')" for js m
    using that assms(1) by simp
  show ?thesis
  proof (cases r)
    case (Inl e)
    then show ?thesis
      using assms(2) more unfolding wait_result_def result by (cases e) (auto simp del: answered_simps)
  next
    case (Inr p)
    then show ?thesis
      using assms(2) more unfolding wait_result_def result enqueue_keys_Cons [symmetric]
      by (cases p) (auto simp del: answered_simps, blast)
  qed
qed

lemma wait_loop_returns:
  assumes select: "\<And>k. select (Message_Changed k) = None" "\<And>code. select (Message_Error code) = None"
  shows "client_valid c \<Longrightarrow>
     \<exists>result. wait_loop env expected select started changed c = Some result \<and> wait_result select changed c result"
proof (induction "length (pending (client_stream c))" arbitrary: c changed rule: less_induct)
  case less
  obtain now c0 where now: "client_now env c = (now, c0)" by (cases "client_now env c")
  with less.prems client_now_keeps have c0: "client_valid c0" "pending (client_stream c0) = pending (client_stream c)" by auto
  let ?left = "REQUEST_TIMEOUT - (now - started)"
  obtain r c1 where next_eq: "next_message_timeout (env_host env) ?left c0 = (r, c1)"
    by (cases "next_message_timeout (env_host env) ?left c0")
  consider (failed) "?left = 0 \<or> isl r \<or> r = Inr None" | (received) m where "?left \<noteq> 0" "r = Inr (Some m)"
    by (cases r) auto
  then show ?case
  proof cases
    case failed
    then show ?thesis
      using now next_eq by (cases r) (auto simp: wait_result_def wait_loop.simps [of env expected select started changed c] Let_def)
  next
    case received
    from next_message_timeout_Some [OF next_eq [unfolded received]]
    have nm: "next_message (host_read (env_host env)) c0 = (Inr m, c1)" .
    from next_message_received [OF c0(1) nm] obtain mr where mr: "wire_message NodeToClient mr"
      "owned_message mr = (Inr m :: 'io client_error + message)"
      "pending (client_stream c) = message_bytes mr @ pending (client_stream c1)" "client_valid c1"
      using c0(2) by auto
    have step: "wait_loop env expected select started changed c =
       (case select m of Some a \<Rightarrow> Some (Inr (a, changed), c1)
        | None \<Rightarrow> (case m of
            Message_Changed keyref \<Rightarrow> wait_loop env expected select started (enqueue_changed_key changed keyref) c1
          | Message_Error code \<Rightarrow> Some (Inl (Write_Request (request_failed_text code)), c1)
          | other \<Rightarrow> Some (Inl (Write_Connection (ascii ''unexpected response: '' @ message_debug (env_tables env) other)), c1)))"
      using now next_eq received by (simp add: wait_loop.simps [of env expected select started changed c] Let_def)
    consider (found) a where "select m = Some a" | (changed) j where "select m = None" "m = Message_Changed j"
      | (refused) code where "select m = None" "m = Message_Error code"
      | (other) "select m = None" "\<not> is_changed m" "\<And>code. m \<noteq> Message_Error code"
      by (cases "select m"; cases m) auto
    then show ?thesis
    proof cases
      case found
      then have "wait_result select changed c (Inr (a, changed), c1)"
        unfolding wait_result_def using mr by (auto intro!: exI [of _ "[]"] exI [of _ mr] exI [of _ m])
      with found step show ?thesis by simp
    next
      case (changed j)
      then have mrj: "mr = Changed j" using mr(2) owned_message_changed [OF mr(2)] by auto
      have "length (pending (client_stream c1)) < length (pending (client_stream c))"
        using mr(3) by (simp add: message_bytes_def)
      from less.hyps [OF this mr(4)] obtain result where
        rec: "wait_loop env expected select started (enqueue_changed_key changed j) c1 = Some result"
          "wait_result select (enqueue_changed_key changed j) c1 result" by blast
      have "wait_result select changed c result"
        by (rule wait_result_changed [OF _ rec(2)]) (use mr(3) mrj in simp)
      with rec(1) changed step show ?thesis by simp
    next
      case refused
      from owned_message_error [of mr] mr(2) refused obtain e where "mr = Error e" "code = error_code e" by auto
      with mr have "wait_result select changed c (Inl (Write_Request (request_failed_text code)), c1)"
        unfolding wait_result_def by (auto intro!: exI [of _ "[]"] exI [of _ e])
      with refused step show ?thesis by simp
    next
      case other
      then show ?thesis by (cases m) (auto simp: wait_result_def step)
    qed
  qed
qed

end

section \<open>Every notification leads to a refresh\<close>

text \<open>
  What a complete drain takes off the stream and sends to the viewer, from the pending keys:
  the last pending key is dropped when it is unknown, reported when it is unreadable, and
  otherwise read, with the notifications that come before its value queued again.
\<close>

inductive drain_script ::
  "(client_value \<Rightarrow> rstr) \<Rightarrow> key_map \<Rightarrow> u16 list \<Rightarrow> message_ref list \<Rightarrow> network_event list \<Rightarrow> bool"
  for display keys where
  drain_done: "drain_script display keys [] [] []"
| drain_unknown: "map_of keys k = None \<Longrightarrow> drain_script display keys waiting ms evs \<Longrightarrow>
    drain_script display keys (waiting @ [k]) ms evs"
| drain_unreadable: "map_of keys k = Some key \<Longrightarrow> \<not> is_readable (info_keyflags key) \<Longrightarrow>
    drain_script display keys waiting ms evs \<Longrightarrow>
    drain_script display keys (waiting @ [k]) ms (Value_Updated k (ascii ''<changed; unreadable>'') None # evs)"
| drain_refresh: "map_of keys k = Some key \<Longrightarrow> is_readable (info_keyflags key) \<Longrightarrow>
    drain_script display keys (enqueue_changed_keys waiting (enqueue_changed_keys [] js)) ms evs \<Longrightarrow>
    drain_script display keys (waiting @ [k]) (map Changed js @ OrdinaryResponse (Value v) # ms)
      (Value_Updated k (display (owned_value v)) (Some t) # evs)"

text \<open>The viewer is told of a value of the key that is among the given messages.\<close>

definition refreshed :: "(client_value \<Rightarrow> rstr) \<Rightarrow> key_info \<Rightarrow> u16 \<Rightarrow> message_ref list \<Rightarrow> network_event list \<Rightarrow> bool" where
  "refreshed display key k ms evs \<longleftrightarrow>
     (if is_readable (info_keyflags key)
      then \<exists>v t. OrdinaryResponse (Value v) \<in> set ms \<and> Value_Updated k (display (owned_value v)) (Some t) \<in> set evs
      else Value_Updated k (ascii ''<changed; unreadable>'') None \<in> set evs)"

lemma refreshed_mono: "refreshed display key k ms evs \<Longrightarrow> set ms \<subseteq> set ms' \<Longrightarrow> set evs \<subseteq> set evs' \<Longrightarrow> refreshed display key k ms' evs'"
  by (auto simp: refreshed_def split: if_splits)

lemma drain_script_waiting:
  "drain_script display keys waiting ms evs \<Longrightarrow> k \<in> set waiting \<Longrightarrow> map_of keys k = Some key \<Longrightarrow> refreshed display key k ms evs"
proof (induction rule: drain_script.induct)
  case (drain_refresh j key' waiting js ms evs v t)
  show ?case
  proof (cases "k = j")
    case True
    then show ?thesis using drain_refresh by (auto simp: refreshed_def)
  next
    case False
    then have "refreshed display key k ms evs" using drain_refresh by (simp add: enqueue_collected)
    then show ?thesis by (rule refreshed_mono) auto
  qed
next
  case (drain_unreadable j key' waiting ms evs)
  then show ?case by (cases "k = j") (auto simp: refreshed_def split: if_splits)
qed auto

text \<open>The value shown was sent after the notification.\<close>

lemma drain_script_changed:
  "drain_script display keys waiting ms evs \<Longrightarrow> ms = ms1 @ Changed k # ms2 \<Longrightarrow> map_of keys k = Some key \<Longrightarrow>
     refreshed display key k ms2 evs"
proof (induction arbitrary: ms1 ms2 rule: drain_script.induct)
  case (drain_refresh j key' waiting js ms evs v t)
  have mono: "refreshed display key k ms2 (Value_Updated j (display (owned_value v)) (Some t) # evs)"
    if "refreshed display key k ms2' evs" "set ms2' \<subseteq> set ms2" for ms2'
    using that by (rule refreshed_mono) auto
  from drain_refresh.prems(1) show ?case
  proof (cases "length ms1 < length js")
    case True
    have "(map Changed js @ OrdinaryResponse (Value v) # ms) ! length ms1 = Changed k"
      unfolding drain_refresh.prems(1) by simp
    with True have "k \<in> set js" by (auto simp: nth_append)
    then have "refreshed display key k ms evs"
      using drain_script_waiting [OF drain_refresh.hyps(3) _ drain_refresh.prems(2)] by (simp add: enqueue_collected)
    moreover have "set ms \<subseteq> set ms2"
    proof -
      have "ms = drop (Suc (length js)) (ms1 @ Changed k # ms2)" unfolding drain_refresh.prems(1) [symmetric] by simp
      also have "\<dots> = drop (length js - length ms1) ms2" using True by (simp add: Suc_diff_le less_imp_le)
      finally show ?thesis by (metis set_drop_subset)
    qed
    ultimately show ?thesis by (rule mono)
  next
    case False
    have "length ms1 \<noteq> length js"
    proof
      assume "length ms1 = length js"
      then show False using drain_refresh.prems(1) by (simp add: append_eq_append_conv)
    qed
    with False have long: "Suc (length js) \<le> length ms1" by simp
    have "ms = drop (Suc (length js)) (ms1 @ Changed k # ms2)" unfolding drain_refresh.prems(1) [symmetric] by simp
    with long have "ms = drop (Suc (length js)) ms1 @ Changed k # ms2" by simp
    from drain_refresh.IH [OF this drain_refresh.prems(2)] show ?thesis by (rule mono) simp
  qed
next
  case (drain_unreadable j key' waiting ms evs)
  from drain_unreadable.IH [OF drain_unreadable.prems] show ?case by (rule refreshed_mono) auto
qed auto

locale recorded_worker = worker_host env pending valid + recorded_host "env_host env" pending valid
  for env :: "('s, 'io) worker_env" and pending :: "'s \<Rightarrow> bytes" and valid :: "'s \<Rightarrow> bool"
begin

lemma read_value_recorded:
  assumes "client_valid c"
  obtains r c' where "read_value_with_changes env k c = Some (r, c')"
    and "\<And>v ks. r = Inr (v, ks) \<Longrightarrow> client_valid c' \<and> (\<exists>js w. v = owned_value w \<and> ks = enqueue_changed_keys [] js \<and>
        pending (client_stream c) = answered js (OrdinaryResponse (Value w)) @ pending (client_stream c'))"
proof -
  obtain c1 where c1: "send_keyref_request (host_write (env_host env)) GET k c = (Inr (), c1)" "client_valid c1"
    "pending (client_stream c1) = pending (client_stream c)"
    by (rule send_recorded [OF assms])
  obtain started c2 where now: "client_now env c1 = (started, c2)" by (cases "client_now env c1")
  with client_now_keeps [OF c1(2)] c1(3) have c2: "client_valid c2" "pending (client_stream c2) = pending (client_stream c)" by auto
  obtain r c' where wait: "wait_loop env ''VALUE'' select_value started [] c2 = Some (r, c')" "wait_result select_value [] c2 (r, c')"
    using wait_loop_returns [of select_value, OF _ _ c2(1), of "''VALUE''" started "[]"] by (auto simp: select_value_def)
  have "read_value_with_changes env k c = Some (res_map_err error_text r, c')"
    using c1(1) now wait(1)
    by (simp add: read_value_with_changes_def proc_bind_def proc_of_def act_map_err_def wait_for_value_with_changes_def)
  moreover have "client_valid c' \<and> (\<exists>js w. v = owned_value w \<and> ks = enqueue_changed_keys [] js \<and>
        pending (client_stream c) = answered js (OrdinaryResponse (Value w)) @ pending (client_stream c'))"
    if "res_map_err error_text r = Inr (v, ks)" for v ks
  proof -
    from that have "r = Inr (v, ks)" by simp
    with wait(2) c2(2) obtain js m x where m: "client_valid c'" "owned_message m = (Inr x :: 'io client_error + message)"
      "select_value x = Some v" "ks = enqueue_changed_keys [] js"
      "pending (client_stream c) = answered js m @ pending (client_stream c')"
      by (auto simp: wait_result_def)
    then have "x = Message_Value v" by (auto simp: select_value_def split: message.splits)
    with owned_message_value [of m v] m show ?thesis by blast
  qed
  ultimately show ?thesis by (rule that)
qed

lemma worker_now_keeps:
  assumes "client_valid (wk_client w)"
  obtains t c where "worker_now env w = (Inr t, w\<lparr>wk_client := c\<rparr>)" and "client_valid c"
    and "pending (client_stream c) = pending (client_stream (wk_client w))"
  using client_now_keeps [OF assms] by (cases "client_now env (wk_client w)") (auto simp: worker_now_def)

lemma refresh_key_recorded:
  assumes "client_valid (wk_client w)"
  obtains r w' where "refresh_key env key k w = Some (r, w')"
    and "r = Inr () \<Longrightarrow> client_valid (wk_client w') \<and> (\<exists>js v t.
      pending (client_stream (wk_client w)) = answered js (OrdinaryResponse (Value v)) @ pending (client_stream (wk_client w')) \<and>
      wk_pending w' = enqueue_changed_keys (wk_pending w) (enqueue_changed_keys [] js) \<and>
      wk_events w' = wk_events w @ [Value_Updated k (display_value (env_tables env) (owned_value v)) (Some t)])"
proof -
  obtain r c where read: "read_value_with_changes env k (wk_client w) = Some (r, c)"
    and ok: "\<And>v ks. r = Inr (v, ks) \<Longrightarrow> client_valid c \<and> (\<exists>js u. v = owned_value u \<and> ks = enqueue_changed_keys [] js \<and>
        pending (client_stream (wk_client w)) = answered js (OrdinaryResponse (Value u)) @ pending (client_stream c))"
    by (rule read_value_recorded [OF assms]) blast
  show ?thesis
  proof (cases r)
    case (Inl e)
    then show ?thesis using read
      by (intro that [of "Inl (named_failure ''refresh '' key e)" "w\<lparr>wk_client := c\<rparr>"])
        (simp_all add: refresh_key_def proc_bind_def on_worker_def)
  next
    case (Inr p)
    then obtain v ks where p: "r = Inr (v, ks)" by (cases p) auto
    let ?w1 = "w\<lparr>wk_client := c, wk_pending := enqueue_changed_keys (wk_pending w) ks\<rparr>"
    from ok [OF p] obtain js u where u: "client_valid c" "v = owned_value u" "ks = enqueue_changed_keys [] js"
      "pending (client_stream (wk_client w)) = answered js (OrdinaryResponse (Value u)) @ pending (client_stream c)" by blast
    obtain t c2 where now: "worker_now env ?w1 = (Inr t, ?w1\<lparr>wk_client := c2\<rparr>)" "client_valid c2"
      "pending (client_stream c2) = pending (client_stream c)"
      using worker_now_keeps [of ?w1] u(1) by auto
    let ?event = "Value_Updated k (display_value (env_tables env) v) (Some t)"
    have eq: "refresh_key env key k w = Some (send_event env ?event (?w1\<lparr>wk_client := c2\<rparr>))"
      using read p now(1)
      by (simp add: refresh_key_def proc_bind_def on_worker_def proc_of_def act_bind_def enqueue_def act_modify_def)
    show ?thesis
      by (rule that [of "fst (send_event env ?event (?w1\<lparr>wk_client := c2\<rparr>))" "snd (send_event env ?event (?w1\<lparr>wk_client := c2\<rparr>))"])
        (use eq now(2,3) u in \<open>auto simp: send_event_def split: if_splits intro!: exI [of _ js] exI [of _ u]\<close>)
  qed
qed

lemma drain_key_recorded:
  assumes "client_valid (wk_client w)"
  obtains r w' where "drain_key env keys k w = Some (r, w')"
    and "r = Inr () \<Longrightarrow> client_valid (wk_client w') \<and>
      (length (pending (client_stream (wk_client w'))) < length (pending (client_stream (wk_client w))) \<or>
       length (pending (client_stream (wk_client w'))) = length (pending (client_stream (wk_client w))) \<and> wk_pending w' = wk_pending w) \<and>
      (\<exists>ms evs. pending (client_stream (wk_client w)) = concat (map message_bytes ms) @ pending (client_stream (wk_client w')) \<and>
         wk_events w' = wk_events w @ evs \<and>
         (\<forall>ms' evs'. drain_script (display_value (env_tables env)) keys (wk_pending w') ms' evs' \<longrightarrow>
            drain_script (display_value (env_tables env)) keys (wk_pending w @ [k]) (ms @ ms') (evs @ evs')))"
proof (cases "map_of keys k")
  case None
  then show ?thesis using assms
    by (intro that [of "Inr ()" w])
      (auto simp: drain_key_def proc_of_def intro: drain_unknown intro!: exI [of _ "[]"])
next
  case (Some key)
  show ?thesis
  proof (cases "is_readable (info_keyflags key)")
    case True
    obtain r w' where eq: "refresh_key env key k w = Some (r, w')"
      and ok: "r = Inr () \<Longrightarrow> client_valid (wk_client w') \<and> (\<exists>js v t.
        pending (client_stream (wk_client w)) = answered js (OrdinaryResponse (Value v)) @ pending (client_stream (wk_client w')) \<and>
        wk_pending w' = enqueue_changed_keys (wk_pending w) (enqueue_changed_keys [] js) \<and>
        wk_events w' = wk_events w @ [Value_Updated k (display_value (env_tables env) (owned_value v)) (Some t)])"
      by (rule refresh_key_recorded [OF assms]) blast
    show ?thesis
    proof (rule that [of r w'])
      show "drain_key env keys k w = Some (r, w')" using eq Some True by (simp add: drain_key_def)
      assume "r = Inr ()"
      from ok [OF this] obtain js v t where c: "client_valid (wk_client w')"
        "pending (client_stream (wk_client w)) = answered js (OrdinaryResponse (Value v)) @ pending (client_stream (wk_client w'))"
        "wk_pending w' = enqueue_changed_keys (wk_pending w) (enqueue_changed_keys [] js)"
        "wk_events w' = wk_events w @ [Value_Updated k (display_value (env_tables env) (owned_value v)) (Some t)]" by blast
      let ?ms = "map Changed js @ [OrdinaryResponse (Value v)]"
      have "length (pending (client_stream (wk_client w'))) < length (pending (client_stream (wk_client w)))"
        using c(2) by (simp add: answered_def message_bytes_def)
      moreover have "pending (client_stream (wk_client w)) = concat (map message_bytes ?ms) @ pending (client_stream (wk_client w'))"
        using c(2) by (simp add: answered_def)
      moreover have "drain_script (display_value (env_tables env)) keys (wk_pending w @ [k]) (?ms @ ms')
          ([Value_Updated k (display_value (env_tables env) (owned_value v)) (Some t)] @ evs')"
        if "drain_script (display_value (env_tables env)) keys (wk_pending w') ms' evs'" for ms' evs'
        using drain_refresh [where waiting = "wk_pending w", OF Some True that [unfolded c(3)]] by simp
      ultimately show "client_valid (wk_client w') \<and>
        (length (pending (client_stream (wk_client w'))) < length (pending (client_stream (wk_client w))) \<or>
         length (pending (client_stream (wk_client w'))) = length (pending (client_stream (wk_client w))) \<and> wk_pending w' = wk_pending w) \<and>
        (\<exists>ms evs. pending (client_stream (wk_client w)) = concat (map message_bytes ms) @ pending (client_stream (wk_client w')) \<and>
         wk_events w' = wk_events w @ evs \<and>
         (\<forall>ms' evs'. drain_script (display_value (env_tables env)) keys (wk_pending w') ms' evs' \<longrightarrow>
            drain_script (display_value (env_tables env)) keys (wk_pending w @ [k]) (ms @ ms') (evs @ evs')))"
        using c(1,4) by blast
    qed
  next
    case False
    let ?event = "Value_Updated k (ascii ''<changed; unreadable>'') None"
    have eq: "drain_key env keys k w = Some (send_event env ?event w)"
      using Some False by (simp add: drain_key_def proc_of_def)
    have script: "drain_script (display_value (env_tables env)) keys (wk_pending w @ [k]) ([] @ ms') ([?event] @ evs')"
      if "drain_script (display_value (env_tables env)) keys (wk_pending w) ms' evs'" for ms' evs'
      using drain_unreadable [OF Some False that] by simp
    show ?thesis
      by (rule that [of "fst (send_event env ?event w)" "snd (send_event env ?event w)"])
        (use eq assms script in \<open>auto simp: send_event_def split: if_splits intro!: exI [of _ "[]"]\<close>)
  qed
qed

definition drain_result :: "key_map \<Rightarrow> 's worker \<Rightarrow> (rstr + unit) \<times> 's worker \<Rightarrow> bool" where
  "drain_result keys w result \<longleftrightarrow> (fst result = Inr () \<longrightarrow>
     client_valid (wk_client (snd result)) \<and> wk_pending (snd result) = [] \<and>
     (\<exists>ms evs. drain_script (display_value (env_tables env)) keys (wk_pending w) ms evs \<and>
        pending (client_stream (wk_client w)) = concat (map message_bytes ms) @ pending (client_stream (wk_client (snd result))) \<and>
        wk_events (snd result) = wk_events w @ evs))"

lemma drain_returns:
  "client_valid (wk_client w) \<Longrightarrow> \<exists>result. drain_changed_keys env keys w = Some result \<and> drain_result keys w result"
proof (induction w rule: wf_induct_rule [OF wf_measures
      [of "[\<lambda>w. length (pending (client_stream (wk_client w))), \<lambda>w. length (wk_pending w)]"]])
  case (1 w)
  show ?case
  proof (cases "wk_pending w = []")
    case True
    then show ?thesis using 1(2)
      by (auto simp: drain_changed_keys.simps drain_result_def intro: drain_done intro!: exI [of _ "[]"])
  next
    case False
    let ?k = "last (wk_pending w)" and ?w = "w\<lparr>wk_pending := butlast (wk_pending w)\<rparr>"
    have waiting: "wk_pending ?w @ [?k] = wk_pending w" using False by simp
    obtain r w1 where key: "drain_key env keys ?k ?w = Some (r, w1)"
      and ok: "r = Inr () \<Longrightarrow> client_valid (wk_client w1) \<and>
        (length (pending (client_stream (wk_client w1))) < length (pending (client_stream (wk_client ?w))) \<or>
         length (pending (client_stream (wk_client w1))) = length (pending (client_stream (wk_client ?w))) \<and> wk_pending w1 = wk_pending ?w) \<and>
        (\<exists>ms evs. pending (client_stream (wk_client ?w)) = concat (map message_bytes ms) @ pending (client_stream (wk_client w1)) \<and>
         wk_events w1 = wk_events ?w @ evs \<and>
         (\<forall>ms' evs'. drain_script (display_value (env_tables env)) keys (wk_pending w1) ms' evs' \<longrightarrow>
            drain_script (display_value (env_tables env)) keys (wk_pending ?w @ [?k]) (ms @ ms') (evs @ evs')))"
      by (rule drain_key_recorded [of ?w keys ?k]) (use 1(2) in auto)
    show ?thesis
    proof (cases r)
      case (Inl e)
      with key False show ?thesis by (simp add: drain_changed_keys.simps [of env keys w] drain_result_def)
    next
      case (Inr u)
      then have "r = Inr ()" by simp
      from ok [OF this, unfolded waiting] obtain ms evs where w1: "client_valid (wk_client w1)"
        "length (pending (client_stream (wk_client w1))) < length (pending (client_stream (wk_client ?w))) \<or>
         length (pending (client_stream (wk_client w1))) = length (pending (client_stream (wk_client ?w))) \<and> wk_pending w1 = wk_pending ?w"
        "pending (client_stream (wk_client ?w)) = concat (map message_bytes ms) @ pending (client_stream (wk_client w1))"
        "wk_events w1 = wk_events ?w @ evs"
        "\<And>ms' evs'. drain_script (display_value (env_tables env)) keys (wk_pending w1) ms' evs' \<Longrightarrow>
            drain_script (display_value (env_tables env)) keys (wk_pending w) (ms @ ms') (evs @ evs')"
        by (elim conjE exE) (rule that, assumption+, blast)
      from w1(2) False have "(w1, w) \<in> measures [\<lambda>w. length (pending (client_stream (wk_client w))), \<lambda>w. length (wk_pending w)]"
        by (auto simp: diff_less)
      from "1.IH" [OF this w1(1)] obtain r' w' where rest: "drain_changed_keys env keys w1 = Some (r', w')" "drain_result keys w1 (r', w')"
        by auto
      have "drain_changed_keys env keys w = Some (r', w')"
        using key \<open>r = Inr ()\<close> False rest(1) by (simp add: drain_changed_keys.simps [of env keys w])
      moreover have "drain_result keys w (r', w')"
        unfolding drain_result_def
      proof
        assume "fst (r', w') = Inr ()"
        with rest(2) obtain ms' evs' where r': "client_valid (wk_client w')" "wk_pending w' = []"
          "drain_script (display_value (env_tables env)) keys (wk_pending w1) ms' evs'"
          "pending (client_stream (wk_client w1)) = concat (map message_bytes ms') @ pending (client_stream (wk_client w'))"
          "wk_events w' = wk_events w1 @ evs'"
          by (auto simp: drain_result_def)
        from w1(5) [OF r'(3)] r' w1(3,4)
        show "client_valid (wk_client (snd (r', w'))) \<and> wk_pending (snd (r', w')) = [] \<and>
          (\<exists>ms evs. drain_script (display_value (env_tables env)) keys (wk_pending w) ms evs \<and>
            pending (client_stream (wk_client w)) = concat (map message_bytes ms) @ pending (client_stream (wk_client (snd (r', w')))) \<and>
            wk_events (snd (r', w')) = wk_events w @ evs)"
          by (auto intro!: exI [of _ "ms @ ms'"] exI [of _ "evs @ evs'"])
      qed
      ultimately show ?thesis by blast
    qed
  qed
qed

end

section \<open>Hosts that answer at once\<close>

text \<open>No timer fires and the clock stands still.\<close>

definition immediate :: "('s, 'io) worker_env \<Rightarrow> bool" where
  "immediate env \<longleftrightarrow> (\<forall>d s. host_expiry (env_host env) d s = None) \<and> (\<forall>s. env_clock env s = (0, s)) \<and>
     (\<forall>s. \<not> env_viewer_gone env s)"

text \<open>What a wait makes of the response.\<close>

definition wait_answer ::
  "('s, 'io) worker_env \<Rightarrow> (message \<Rightarrow> 'a option) \<Rightarrow> u16 list \<Rightarrow> message \<Rightarrow> write_command_error + 'a \<times> u16 list" where
  "wait_answer env select ks x = (case select x of
     Some a \<Rightarrow> Inr (a, ks)
   | None \<Rightarrow> (case x of
       Message_Error code \<Rightarrow> Inl (Write_Request (request_failed_text code))
     | other \<Rightarrow> Inl (Write_Connection (ascii ''unexpected response: '' @ message_debug (env_tables env) other))))"

lemma client_now_immediate: "immediate env \<Longrightarrow> client_now env c = (0, c)"
  by (simp add: immediate_def client_now_def)

context byte_source
begin

lemma wait_loop_immediate:
  assumes env: "immediate env" "host_read (env_host env) = read_exact"
    and select: "\<And>k. select (Message_Changed k) = None"
    and m: "wire_message NodeToClient m" "owned_message m = (Inr x :: 'e client_error + message)" "\<not> is_changed x"
  shows "valid (client_stream c) \<Longrightarrow> pending (client_stream c) = answered js m @ rest \<Longrightarrow>
     \<exists>c'. wait_loop env expected select 0 changed c = Some (wait_answer env select (enqueue_changed_keys changed js) x, c') \<and>
       pending (client_stream c') = rest \<and> valid (client_stream c')"
proof (induction js arbitrary: c changed)
  case Nil
  then obtain c' where c': "next_message read_exact c = (Inr x, c')" "pending (client_stream c') = rest" "valid (client_stream c')"
    using next_message_wire [OF Nil(1) _ m(1)] m(2) by auto
  have "wait_loop env expected select 0 changed c = Some (wait_answer env select (enqueue_changed_keys changed []) x, c')"
    using c'(1) env m(3)
    by (cases x) (auto simp: wait_loop.simps [of env expected select 0 changed c] client_now_immediate immediate_def
        next_message_timeout_def act_bind_def Let_def REQUEST_TIMEOUT_def wait_answer_def split: option.split)
  with c' show ?case by blast
next
  case (Cons j js)
  then obtain c1 where c1: "next_message read_exact c = (Inr (Message_Changed j), c1)" "valid (client_stream c1)"
    "pending (client_stream c1) = answered js m @ rest"
    using next_message_wire [OF _ _ wire_changed, of c j] by auto
  have "wait_loop env expected select 0 changed c = wait_loop env expected select 0 (enqueue_changed_key changed j) c1"
    using c1(1) env select
    by (simp add: wait_loop.simps [of env expected select 0 changed c] client_now_immediate immediate_def
        next_message_timeout_def act_bind_def Let_def REQUEST_TIMEOUT_def)
  then show ?case using Cons.IH [OF c1(2,3)] by (simp add: enqueue_keys_Cons)
qed

end

text \<open>A worker over bytes that have arrived.\<close>

definition list_env :: "(bytes, unit) worker_env" where
  "list_env = \<lparr>env_host = list_host (\<lambda>_ _. None), env_tables = sample_tables, env_io_text = (\<lambda>_. []),
     env_clock = (\<lambda>s. (0, s)), env_try_recv = (\<lambda>s. (None, s)), env_viewer_gone = (\<lambda>_. False)\<rparr>"

lemma list_env_simps [simp]:
  "env_host list_env = list_host (\<lambda>_ _. None)" "env_tables list_env = sample_tables"
  "env_clock list_env s = (0, s)" "env_try_recv list_env s = (None, s)" "\<not> env_viewer_gone list_env s"
  "host_read (list_host expiry) = list_read" "host_write (list_host expiry) bs s = (Inr (), s)"
  "immediate list_env"
  by (simp_all add: list_env_def list_host_def immediate_def)

interpretation list_env: recorded_worker list_env "\<lambda>bs. bs" "\<lambda>_. True"
  by (rule recorded_worker.intro; (rule worker_host.intro)?)
    (auto simp: worker_host_axioms_def list_host.client_host_axioms list_host.recorded_host_axioms)

section \<open>Properties\<close>

text \<open>
  C11: when the worker has drained its pending keys, every known key that was pending, and every
  one announced by a notification that arrived meanwhile, has been reported to the viewer: a
  readable key with a value that the node sent after the notification, an unreadable one as
  changed. Over a finite stream the drain ends, and only an error of the connection leaves a
  notification unserved.
\<close>

theorem drain_refreshes_changes:
  assumes "recorded_worker (env :: ('s, 'io) worker_env) pending valid" and "valid (client_stream (wk_client w))"
  shows "\<exists>r w'. drain_changed_keys env keys w = Some (r, w') \<and> (r = Inr () \<longrightarrow> wk_pending w' = [] \<and>
     (\<exists>ms evs. pending (client_stream (wk_client w)) = concat (map message_bytes ms) @ pending (client_stream (wk_client w')) \<and>
        wk_events w' = wk_events w @ evs \<and>
        (\<forall>k key. k \<in> set (wk_pending w) \<longrightarrow> map_of keys k = Some key \<longrightarrow>
           refreshed (display_value (env_tables env)) key k ms evs) \<and>
        (\<forall>ms1 k ms2 key. ms = ms1 @ Changed k # ms2 \<longrightarrow> map_of keys k = Some key \<longrightarrow>
           refreshed (display_value (env_tables env)) key k ms2 evs)))"
proof -
  obtain r w' where drain: "drain_changed_keys env keys w = Some (r, w')"
    and result: "recorded_worker.drain_result env pending valid keys w (r, w')"
    using recorded_worker.drain_returns [OF assms, of keys] by auto
  have "wk_pending w' = [] \<and>
     (\<exists>ms evs. pending (client_stream (wk_client w)) = concat (map message_bytes ms) @ pending (client_stream (wk_client w')) \<and>
        wk_events w' = wk_events w @ evs \<and>
        (\<forall>k key. k \<in> set (wk_pending w) \<longrightarrow> map_of keys k = Some key \<longrightarrow>
           refreshed (display_value (env_tables env)) key k ms evs) \<and>
        (\<forall>ms1 k ms2 key. ms = ms1 @ Changed k # ms2 \<longrightarrow> map_of keys k = Some key \<longrightarrow>
           refreshed (display_value (env_tables env)) key k ms2 evs))" if "r = Inr ()"
  proof -
    from result that obtain ms evs where "wk_pending w' = []"
      and script: "drain_script (display_value (env_tables env)) keys (wk_pending w) ms evs"
      and "pending (client_stream (wk_client w)) = concat (map message_bytes ms) @ pending (client_stream (wk_client w'))"
        "wk_events w' = wk_events w @ evs"
      by (auto simp: recorded_worker.drain_result_def [OF assms(1)])
    then show ?thesis
      using drain_script_waiting [OF script] drain_script_changed [OF script] by blast
  qed
  with drain show ?thesis by blast
qed

lemma drain_refreshes_changes_witness:
  "\<exists>r w'. drain_changed_keys list_env [(1, \<lparr>info_keyref = 1, info_keyflags = KeyFlags 5, info_name = []\<rparr>)]
       \<lparr>wk_client = client_new (message_bytes (OrdinaryResponse (Value (Bool True)))), wk_events = [], wk_pending = [1]\<rparr> = Some (r, w')
     \<and> (r = Inr () \<longrightarrow> wk_pending w' = [])"
  using drain_refreshes_changes [OF list_env.recorded_worker_axioms TrueI,
      where keys = "[(1, \<lparr>info_keyref = 1, info_keyflags = KeyFlags 5, info_name = []\<rparr>)]" and
        w = "\<lparr>wk_client = client_new (message_bytes (OrdinaryResponse (Value (Bool True)))), wk_events = [], wk_pending = [1]\<rparr>"]
  by blast

text \<open>
  C31: a write that the node refuses drops the notifications that arrive before the refusal: the
  worker takes the \<open>CHANGED\<close> and the \<open>ERROR\<close> off the stream, reports the failed write and goes on,
  with nothing pending, so the viewer keeps showing the old value of the changed key.
\<close>

theorem refused_write_drops_notification:
  "\<exists>c'. process_command list_env keys (WriteValue keyref (Value_Bool b))
       \<lparr>wk_client = client_new (message_bytes (Changed k) @ message_bytes (Error code)), wk_events = [], wk_pending = []\<rparr> =
     Some (Inr (), \<lparr>wk_client = c', wk_events = [Write_Failed keyref (request_failed_text (error_code code))], wk_pending = []\<rparr>) \<and>
     client_stream c' = []"
proof -
  let ?c = "client_new (message_bytes (Changed k) @ message_bytes (Error code))"
  have send: "send_write_request (host_write (env_host list_env)) keyref (Value_Bool b) ?c = (Inr (), ?c)"
    by (simp add: send_write_request_def push_value_def send_frame_eq act_bind_def on_stream_def trace_frame_def client_new_def)
  have wire: "wire_message NodeToClient (Error code)"
    by (simp add: wire_message_def opcodes_of_def node_opcodes_def)
  obtain c' where "wait_loop list_env ''WRITTEN'' select_written 0 [] ?c =
      Some (wait_answer list_env select_written (enqueue_changed_keys [] [k]) (Message_Error (error_code code)), c')"
    "client_stream c' = []"
    using list_source.wait_loop_immediate [of list_env select_written "Error code" "Message_Error (error_code code)" ?c "[k]" "[]" "''WRITTEN''" "[]"]
      wire by (auto simp: select_written_def client_new_def)
  with send show ?thesis
    by (intro exI [of _ c'])
      (simp add: process_command_def write_command_def write_value_with_changes_def proc_bind_def proc_of_def act_map_err_def
        wait_for_written_with_changes_def client_now_immediate wait_answer_def select_written_def send_event_def)
qed

end
