(* ===== verification/Tui_Connect.thy ===== *)
theory Tui_Connect
  imports Tui_Network_Props
begin

text \<open>
  The viewer's worker connecting to the test node over the pipe: the start of a connection is
  followed through identification, the enumeration of the key table and the observation and
  first read of every key, up to the event that shows the table to the viewer.
\<close>

definition pipe_env :: "char_tables \<Rightarrow> (nat \<Rightarrow> u64) \<Rightarrow> u64 \<Rightarrow> (pipe, unit) worker_env" where
  "pipe_env tables clock cid = \<lparr>env_host = pipe_host clock cid, env_tables = tables, env_io_text = (\<lambda>_. []),
     env_clock = (\<lambda>s. (0, s)), env_try_recv = (\<lambda>s. (None, s)), env_viewer_gone = (\<lambda>_. False)\<rparr>"

lemma pipe_env_simps [simp]:
  "env_host (pipe_env tables clock cid) = pipe_host clock cid" "env_tables (pipe_env tables clock cid) = tables"
  "env_clock (pipe_env tables clock cid) s = (0, s)" "\<not> env_viewer_gone (pipe_env tables clock cid) s"
  "env_try_recv (pipe_env tables clock cid) s = (None, s)" "immediate (pipe_env tables clock cid)"
  by (simp_all add: pipe_env_def immediate_def)

interpretation pipe_env: worker_host "pipe_env tables clock cid" "pipe_pending cid" "\<lambda>_. True" for tables clock cid
  by (rule worker_host.intro) (auto simp: worker_host_axioms_def pipe_host.client_host_axioms)

section \<open>One request\<close>

lemma wait_over_pipe:
  assumes idle: "pipe_idle cid (client_stream c)" and unread: "unread cid (client_stream c) ks"
    and wire: "wire_message ClientToNode m"
    and send: "send c = on_stream (pipe_write clock cid (message_bytes m)) (trace_frame Tx (message_bytes m) c)"
    and st: "st = pipe_node (client_stream c)" and e: "e = clock (pipe_count (client_stream c))"
    and x: "owned_message (response_of e st m) = (Inr x :: unit client_error + message)"
    and select: "\<And>k. select (Message_Changed k) = None"
  obtains c1 c' where "send c = (Inr (), c1)"
    and "wait_loop (pipe_env tables clock cid) expected select 0 [] c1 =
      Some (wait_answer (pipe_env tables clock cid) select (enqueue_changed_keys [] ks) x, c')"
    and "pipe_idle cid (client_stream c')" and "pipe_node (client_stream c') = node_after e cid m st"
    and "unread cid (client_stream c') (own_notifications cid m st)"
proof -
  obtain c1 where c1: "send c = (Inr (), c1)" "\<not> is_changed x" "wire_message NodeToClient (response_of e st m)"
    "pipe_at cid (node_after e cid m st) (Suc (pipe_count (client_stream c))) (client_stream c1)"
    "pipe_pending cid (client_stream c1) = concat (map (\<lambda>k. message_bytes (Changed k)) ks)
       @ message_bytes (response_of e st m) @ concat (map (\<lambda>k. message_bytes (Changed k)) (own_notifications cid m st))"
    by (rule send_over_pipe [where send = send and clock = clock, OF idle unread wire send st e]) (use x in auto)
  have "pipe_pending cid (client_stream c1) = answered ks (response_of e st m) @
      concat (map (\<lambda>k. message_bytes (Changed k)) (own_notifications cid m st))"
    using c1(5) by (simp add: answered_def o_def)
  from pipe.wait_loop_immediate [where env = "pipe_env tables clock cid" and cid = cid and select = select and
      expected = expected and changed = "[]", OF _ _ select c1(3) x c1(2,4) this]
  obtain c' where "wait_loop (pipe_env tables clock cid) expected select 0 [] c1 =
      Some (wait_answer (pipe_env tables clock cid) select (enqueue_changed_keys [] ks) x, c')"
    "pipe_pending cid (client_stream c') = concat (map (\<lambda>k. message_bytes (Changed k)) (own_notifications cid m st))"
    "pipe_at cid (node_after e cid m st) (Suc (pipe_count (client_stream c))) (client_stream c')" by auto
  with c1(1) that show ?thesis by (auto simp: pipe_at_def unread_def)
qed

text \<open>The connection observes the key.\<close>

definition observes :: "u64 \<Rightarrow> u16 \<Rightarrow> pipe \<Rightarrow> bool" where
  "observes cid k p \<longleftrightarrow> (\<exists>h. connection cid (pipe_node p) = Some h \<and> is_observing k h)"

lemma connection_sent: "connection c (sent_to cid f st) =
    (if c = cid then map_option (\<lambda>h. h\<lparr>channel := channel h @ [f]\<rparr>) (connection c st) else connection c st)"
  by (simp add: sent_to_def connection_effects)

lemma observes_after:
  "pipe_node q = node_after e cid (Request (Get j)) (pipe_node p) \<Longrightarrow> observes cid k q \<longleftrightarrow> observes cid k p"
  "pipe_node q = node_after e cid (Request (Observe j)) (pipe_node p) \<Longrightarrow> observes cid k p \<Longrightarrow> observes cid k q"
  by (auto simp: observes_def node_after_def connection_effects connection_sent is_observing_updates)

lemma observes_observed:
  assumes "pipe_node q = node_after e cid (Request (Observe k)) (pipe_node p)" and "k \<in> observable_keys" and "pipe_idle cid p"
  shows "observes cid k q"
  using assms observable_keys_small [OF assms(2)]
  by (auto simp: observes_def node_after_def connection_effects connection_sent is_observing_updates pipe_idle_def serving_def
      open_connection_def)

lemma observe_over_pipe:
  assumes "pipe_idle cid (client_stream c)" and "unread cid (client_stream c) []" and "k \<in> observable_keys"
  obtains c' where "observe_with_changes (pipe_env tables clock cid) k c = Some (Inr [], c')"
    and "pipe_idle cid (client_stream c')" and "unread cid (client_stream c') []"
    and "same_values (client_stream c) (client_stream c')" and "observes cid k (client_stream c')"
    and "\<And>j. observes cid j (client_stream c) \<Longrightarrow> observes cid j (client_stream c')"
proof -
  let ?e = "clock (pipe_count (client_stream c))"
  obtain c1 c' where c: "send_keyref_request (pipe_write clock cid) OBSERVE k c = (Inr (), c1)"
    "wait_loop (pipe_env tables clock cid) ''OK'' select_ok 0 [] c1 =
      Some (wait_answer (pipe_env tables clock cid) select_ok (enqueue_changed_keys [] []) Message_Ok, c')"
    "pipe_idle cid (client_stream c')"
    "pipe_node (client_stream c') = node_after ?e cid (Request (Observe k)) (pipe_node (client_stream c))"
    "unread cid (client_stream c') []"
    using wait_over_pipe [where clock = clock and tables = tables and send = "send_keyref_request (pipe_write clock cid) OBSERVE k"
        and select = select_ok and x = Message_Ok and expected = "''OK''",
        OF assms(1,2) wire_requests(4) send_keyref_frame(3) refl refl] assms(3)
    by (auto simp: select_ok_def)
  show ?thesis
    by (rule that [of c'])
      (use c same_values_table(5) [OF c(4)] observes_observed [OF c(4) assms(3,1)] observes_after(2) [OF c(4)] in
        \<open>simp_all add: observe_with_changes_def proc_bind_def proc_of_def act_map_err_def wait_for_ok_with_changes_def
          client_now_immediate wait_answer_def select_ok_def\<close>)
qed

lemma read_over_pipe:
  assumes "pipe_idle cid (client_stream c)" and "unread cid (client_stream c) []" and "k \<in> readable_keys"
  obtains c' v e where "read_value_with_changes (pipe_env tables clock cid) k c = Some (Inr (owned_value (value_of_wire v), []), c')"
    and "get_value e k (pipe_node (client_stream c)) = Inr v"
    and "pipe_idle cid (client_stream c')" and "unread cid (client_stream c') []"
    and "same_values (client_stream c) (client_stream c')"
    and "\<And>j. observes cid j (client_stream c) \<Longrightarrow> observes cid j (client_stream c')"
proof -
  let ?e = "clock (pipe_count (client_stream c))"
  obtain v where v: "get_value ?e k (pipe_node (client_stream c)) = Inr v"
    using get_value_Inl [of ?e k "pipe_node (client_stream c)"] assms(3)
    by (cases "get_value ?e k (pipe_node (client_stream c))") auto
  let ?x = "Message_Value (owned_value (value_of_wire v))"
  obtain c1 c' where c: "send_keyref_request (pipe_write clock cid) GET k c = (Inr (), c1)"
    "wait_loop (pipe_env tables clock cid) ''VALUE'' select_value 0 [] c1 =
      Some (wait_answer (pipe_env tables clock cid) select_value (enqueue_changed_keys [] []) ?x, c')"
    "pipe_idle cid (client_stream c')"
    "pipe_node (client_stream c') = node_after ?e cid (Request (Get k)) (pipe_node (client_stream c))"
    "unread cid (client_stream c') []"
    using wait_over_pipe [where clock = clock and tables = tables and send = "send_keyref_request (pipe_write clock cid) GET k"
        and select = select_value and x = ?x and expected = "''VALUE''",
        OF assms(1,2) wire_requests(2) send_keyref_frame(1) refl refl] v
    by (auto simp: select_value_def)
  show ?thesis
    by (rule that [of v c' ?e])
      (use c v same_values_table(3) [OF c(4)] observes_after(1) [OF c(4)] in
        \<open>simp_all add: read_value_with_changes_def proc_bind_def proc_of_def act_map_err_def wait_for_value_with_changes_def
          client_now_immediate wait_answer_def select_value_def\<close>)
qed

section \<open>The table\<close>

lemma info_of_flags:
  assumes "unat k < 14"
  shows "is_readable (info_keyflags (info_of k)) \<longleftrightarrow> k \<in> readable_keys"
    and "is_observable (info_keyflags (info_of k)) \<longleftrightarrow> k \<in> observable_keys"
proof -
  have "key_spec k = Some (KEY_SPECS ! unat k)" by (rule key_spec_index [OF assms])
  then have flags: "info_keyflags (info_of k) = KeyFlags (spec_flags (the (key_spec k)))" by (simp add: info_of_def)
  from keyref_cases [OF assms]
  show "is_readable (info_keyflags (info_of k)) \<longleftrightarrow> k \<in> readable_keys"
    unfolding flags
    by (elim insertE emptyE) (simp_all add: key_spec_simps is_readable_def flag_tests readable_keys_def key_defs)
  from keyref_cases [OF assms]
  show "is_observable (info_keyflags (info_of k)) \<longleftrightarrow> k \<in> observable_keys"
    unfolding flags
    by (elim insertE emptyE) (simp_all add: key_spec_simps is_observable_def flag_tests observable_keys_def key_defs)
qed

text \<open>The row of a key shows what the node stores, or that the key cannot be read.\<close>

definition row_shows :: "char_tables \<Rightarrow> pipe \<Rightarrow> u16 \<Rightarrow> key_row \<Rightarrow> bool" where
  "row_shows tables p k row \<longleftrightarrow> row_info row = info_of k \<and>
     (if k \<in> readable_keys
      then \<exists>e v. get_value e k (pipe_node p) = Inr v \<and> row_value row = display_value tables (owned_value (value_of_wire v))
      else row_value row = unreadable_text (info_of k))"

lemma row_shows_same: "same_values p q \<Longrightarrow> row_shows tables q k row \<Longrightarrow> row_shows tables p k row"
  by (simp add: row_shows_def same_values_def)

definition worker_idle :: "u64 \<Rightarrow> pipe worker \<Rightarrow> bool" where
  "worker_idle cid w \<longleftrightarrow> pipe_idle cid (client_stream (wk_client w)) \<and> unread cid (client_stream (wk_client w)) []"

lemma start_row_over_pipe:
  assumes idle: "worker_idle cid w" and k: "unat k < 14"
  obtains row w' where "start_row (pipe_env tables clock cid) (new_row (info_of k)) w = Some (Inr row, w')"
    and "worker_idle cid w'" and "same_values (client_stream (wk_client w)) (client_stream (wk_client w'))"
    and "row_shows tables (client_stream (wk_client w)) k row"
    and "k \<in> observable_keys \<Longrightarrow> observes cid k (client_stream (wk_client w'))"
    and "\<And>j. observes cid j (client_stream (wk_client w)) \<Longrightarrow> observes cid j (client_stream (wk_client w'))"
    and "wk_events w' = wk_events w" and "wk_pending w' = wk_pending w"
proof -
  let ?env = "pipe_env tables clock cid" and ?key = "info_of k"
  define first where "first = (if is_observable (info_keyflags ?key)
         then proc_bind (on_worker (named_failure ''observe '' ?key) (observe_with_changes ?env k)) (\<lambda>changed. proc_of (enqueue changed))
         else proc_of (act_ok ()))"
  obtain c1 where c1: "first w = Some (Inr (), w\<lparr>wk_client := c1\<rparr>)" "pipe_idle cid (client_stream c1)"
    "unread cid (client_stream c1) []" "same_values (client_stream (wk_client w)) (client_stream c1)"
    "k \<in> observable_keys \<Longrightarrow> observes cid k (client_stream c1)"
    "\<And>j. observes cid j (client_stream (wk_client w)) \<Longrightarrow> observes cid j (client_stream c1)"
  proof (cases "k \<in> observable_keys")
    case True
    obtain c' where "observe_with_changes ?env k (wk_client w) = Some (Inr [], c')" "pipe_idle cid (client_stream c')"
      "unread cid (client_stream c') []" "same_values (client_stream (wk_client w)) (client_stream c')"
      "observes cid k (client_stream c')"
      "\<And>j. observes cid j (client_stream (wk_client w)) \<Longrightarrow> observes cid j (client_stream c')"
      by (rule observe_over_pipe [OF _ _ True, of cid "wk_client w" tables clock]) (use idle in \<open>auto simp: worker_idle_def\<close>)
    then show ?thesis
      using True by (intro that [of c'])
        (simp_all add: first_def info_of_flags(2) [OF k] proc_bind_def on_worker_def proc_of_def enqueue_def act_modify_def)
  next
    case False
    then show ?thesis
      using idle by (intro that [of "wk_client w"])
        (simp_all add: first_def info_of_flags(2) [OF k] proc_of_def worker_idle_def same_values_def)
  qed
  have fields: "info_keyref ?key = k" "row_info (new_row ?key) = ?key" by (simp_all add: info_of_def new_row_def)
  have step: "start_row ?env (new_row ?key) w =
      (if is_readable (info_keyflags ?key)
       then proc_bind (on_worker (named_failure ''initial read '' ?key) (read_value_with_changes ?env k)) (\<lambda>(v, changed).
         proc_of (act_bind (worker_now ?env) (\<lambda>now.
           act_bind (enqueue changed) (\<lambda>_.
             act_ok ((new_row ?key)\<lparr>row_value := display_value (env_tables ?env) v, row_last_read := Some now\<rparr>)))))
       else proc_of (act_ok (new_row ?key))) (w\<lparr>wk_client := c1\<rparr>)"
    unfolding start_row_def Let_def fields first_def [symmetric] by (simp only: proc_bind_step(3) [where m = first and s = w, OF c1(1)])
  show ?thesis
  proof (cases "k \<in> readable_keys")
    case True
    obtain c2 v e where c2: "read_value_with_changes ?env k c1 = Some (Inr (owned_value (value_of_wire v), []), c2)"
      "get_value e k (pipe_node (client_stream c1)) = Inr v" "pipe_idle cid (client_stream c2)" "unread cid (client_stream c2) []"
      "same_values (client_stream c1) (client_stream c2)"
      "\<And>j. observes cid j (client_stream c1) \<Longrightarrow> observes cid j (client_stream c2)"
      by (rule read_over_pipe [OF c1(2,3) True, of tables clock]) blast
    let ?row = "(new_row ?key)\<lparr>row_value := display_value tables (owned_value (value_of_wire v)), row_last_read := Some 0\<rparr>"
    have "start_row ?env (new_row ?key) w = Some (Inr ?row, w\<lparr>wk_client := c2\<rparr>)"
      unfolding step using c2(1) True
      by (simp add: info_of_flags(1) [OF k] proc_bind_def on_worker_def proc_of_def act_bind_def worker_now_def client_now_def
          enqueue_def act_modify_def)
    moreover have "get_value e k (pipe_node (client_stream (wk_client w))) = Inr v"
      using c2(2) c1(4) by (simp add: same_values_def)
    ultimately show ?thesis
      using c1 c2 True by (intro that [of ?row "w\<lparr>wk_client := c2\<rparr>"])
        (auto simp: worker_idle_def row_shows_def new_row_def intro: same_values_trans)
  next
    case False
    have "start_row ?env (new_row ?key) w = Some (Inr (new_row ?key), w\<lparr>wk_client := c1\<rparr>)"
      unfolding step using False by (simp add: info_of_flags(1) [OF k] proc_of_def)
    then show ?thesis
      using c1 False by (intro that [of "new_row ?key" "w\<lparr>wk_client := c1\<rparr>"])
        (auto simp: worker_idle_def row_shows_def new_row_def initial_display_value_def info_of_flags(1) [OF k])
  qed
qed

lemma start_rows_over_pipe:
  "list_all (\<lambda>k. unat k < 14) ks \<Longrightarrow> worker_idle cid w \<Longrightarrow>
     \<exists>rows w'. start_rows (pipe_env tables clock cid) (map (\<lambda>k. new_row (info_of k)) ks) w = Some (Inr rows, w') \<and>
       worker_idle cid w' \<and> same_values (client_stream (wk_client w)) (client_stream (wk_client w')) \<and>
       list_all2 (row_shows tables (client_stream (wk_client w))) ks rows \<and>
       list_all (\<lambda>k. k \<in> observable_keys \<longrightarrow> observes cid k (client_stream (wk_client w'))) ks \<and>
       (\<forall>j. observes cid j (client_stream (wk_client w)) \<longrightarrow> observes cid j (client_stream (wk_client w'))) \<and>
       wk_events w' = wk_events w \<and> wk_pending w' = wk_pending w"
proof (induction ks arbitrary: w)
  case Nil
  then show ?case by (simp add: proc_of_def same_values_def)
next
  case (Cons k ks)
  obtain row w1 where row: "start_row (pipe_env tables clock cid) (new_row (info_of k)) w = Some (Inr row, w1)"
    "worker_idle cid w1" "same_values (client_stream (wk_client w)) (client_stream (wk_client w1))"
    "row_shows tables (client_stream (wk_client w)) k row"
    "k \<in> observable_keys \<Longrightarrow> observes cid k (client_stream (wk_client w1))"
    "\<And>j. observes cid j (client_stream (wk_client w)) \<Longrightarrow> observes cid j (client_stream (wk_client w1))"
    "wk_events w1 = wk_events w" "wk_pending w1 = wk_pending w"
    by (rule start_row_over_pipe [OF Cons.prems(2), of k tables clock]) (use Cons.prems(1) in auto)
  have "list_all (\<lambda>k. unat k < 14) ks" using Cons.prems(1) by simp
  from Cons.IH [OF this row(2)] obtain rows w' where rows:
    "start_rows (pipe_env tables clock cid) (map (\<lambda>k. new_row (info_of k)) ks) w1 = Some (Inr rows, w')"
    "worker_idle cid w'" "same_values (client_stream (wk_client w1)) (client_stream (wk_client w'))"
    "list_all2 (row_shows tables (client_stream (wk_client w1))) ks rows"
    "list_all (\<lambda>k. k \<in> observable_keys \<longrightarrow> observes cid k (client_stream (wk_client w'))) ks"
    "\<And>j. observes cid j (client_stream (wk_client w1)) \<Longrightarrow> observes cid j (client_stream (wk_client w'))"
    "wk_events w' = wk_events w1" "wk_pending w' = wk_pending w1" by blast
  have "list_all2 (row_shows tables (client_stream (wk_client w))) ks rows"
    using rows(4) by (rule list_all2_mono) (rule row_shows_same [OF row(3)])
  then show ?case
    using row rows by (intro exI [of _ "row # rows"] exI [of _ w'])
      (auto simp: proc_bind_def proc_of_def intro: same_values_trans)
qed

section \<open>The start of a connection\<close>

lemma map_of_key_insert: "map_of (key_insert k info m) = (map_of m)(k \<mapsto> info)"
  by (induction k info m rule: key_insert.induct) auto

lemma map_of_keys:
  "map_of (foldl (\<lambda>m key. key_insert (info_keyref key) key m) m (map info_of ks)) k =
     (if k \<in> set ks then Some (info_of k) else map_of m k)"
  by (induction ks arbitrary: m) (auto simp: map_of_key_insert info_of_def)

lemma client_identify_over_pipe:
  assumes "pipe_idle cid (client_stream c)" and "unread cid (client_stream c) ks"
  obtains c' where "client_identify (pipe_read cid) (pipe_write clock cid) c = Some (Inr node_id, c')"
    and "pipe_idle cid (client_stream c')" and "unread cid (client_stream c') []"
    and "same_values (client_stream c) (client_stream c')"
proof -
  let ?e = "clock (pipe_count (client_stream c))"
  have send: "send_empty_request (pipe_write clock cid) IDENTIFY c =
      on_stream (pipe_write clock cid (message_bytes (Request Identify))) (trace_frame Tx (message_bytes (Request Identify)) c)"
    by (simp add: send_empty_request_def send_frame_eq message_bytes_def)
  obtain c' where "client_identify (pipe_read cid) (pipe_write clock cid) c =
      Some (call_result IDENTIFY ''IDENTIFIED'' select_identified (response_of ?e (pipe_node (client_stream c)) (Request Identify)), c')"
    "pipe_idle cid (client_stream c')" "unread cid (client_stream c') []"
    "pipe_node (client_stream c') = node_after ?e cid (Request Identify) (pipe_node (client_stream c))"
    using call_over_pipe [where clock = clock and cid = cid and send = "send_empty_request (pipe_write clock cid) IDENTIFY",
        OF assms wire_requests(6) send refl refl, of IDENTIFY "''IDENTIFIED''" select_identified]
    by (auto simp: client_identify_def)
  then show ?thesis
    by (intro that [of c']) (simp_all add: call_result_def select_identified_def same_values_table(4))
qed

lemma start_connection_over_pipe:
  assumes "pipe_idle cid (client_stream (wk_client w))" and "unread cid (client_stream (wk_client w)) ks"
  obtains keys rows w' where "start_connection (pipe_env tables clock cid) w = Some (Inr keys, w')"
    and "wk_events w' = wk_events w @ [Net_Connected node_id rows]" and "wk_pending w' = wk_pending w"
    and "list_all2 (row_shows tables (client_stream (wk_client w))) (keyrefs_below KEY_COUNT) rows"
    and "\<And>k. map_of keys k = (if unat k < 14 then Some (info_of k) else None)"
    and "\<And>k. k \<in> observable_keys \<Longrightarrow> observes cid k (client_stream (wk_client w'))"
    and "worker_idle cid w'" and "same_values (client_stream (wk_client w)) (client_stream (wk_client w'))"
proof -
  let ?env = "pipe_env tables clock cid" and ?ks = "keyrefs_below KEY_COUNT"
  obtain c1 where c1: "client_identify (pipe_read cid) (pipe_write clock cid) (wk_client w) = Some (Inr node_id, c1)"
    "pipe_idle cid (client_stream c1)" "unread cid (client_stream c1) []" "same_values (client_stream (wk_client w)) (client_stream c1)"
    by (rule client_identify_over_pipe [OF assms, of clock])
  obtain c2 where c2: "client_list_keys (pipe_read cid) (pipe_write clock cid) c1 = Some (Inr (map info_of ?ks), c2)"
    "pipe_idle cid (client_stream c2)" "unread cid (client_stream c2) []" "same_values (client_stream c1) (client_stream c2)"
    using client_list_keys_over_pipe [OF c1(2,3), of clock] by blast
  let ?w2 = "w\<lparr>wk_client := c2\<rparr>"
  have "list_all (\<lambda>k. unat k < 14) ?ks" by (simp add: list_all_iff keyrefs_below_KEY_COUNT(1))
  moreover have "worker_idle cid ?w2" using c2 by (simp add: worker_idle_def)
  ultimately obtain rows w3 where rows: "start_rows ?env (map (\<lambda>k. new_row (info_of k)) ?ks) ?w2 = Some (Inr rows, w3)"
    "worker_idle cid w3" "same_values (client_stream (wk_client ?w2)) (client_stream (wk_client w3))"
    "list_all2 (row_shows tables (client_stream (wk_client ?w2))) ?ks rows"
    "list_all (\<lambda>k. k \<in> observable_keys \<longrightarrow> observes cid k (client_stream (wk_client w3))) ?ks"
    "wk_events w3 = wk_events ?w2" "wk_pending w3 = wk_pending ?w2"
    using start_rows_over_pipe [of ?ks cid ?w2 tables clock] by blast
  let ?keys = "foldl (\<lambda>m key. key_insert (info_keyref key) key m) [] (map info_of ?ks)"
  let ?w' = "w3\<lparr>wk_events := wk_events w3 @ [Net_Connected node_id rows]\<rparr>"
  have same: "same_values (client_stream (wk_client w)) (client_stream c2)" by (rule same_values_trans [OF c1(4) c2(4)])
  have "start_connection ?env w = Some (Inr ?keys, ?w')"
    using c1(1) c2(1) rows(1)
    by (simp add: start_connection_def Let_def proc_bind_def on_worker_def proc_of_def send_event_def comp_def del: foldl_map)
  moreover have "list_all2 (row_shows tables (client_stream (wk_client w))) ?ks rows"
    using rows(4) by (rule list_all2_mono) (use row_shows_same [OF same] in simp)
  moreover have "map_of ?keys k = (if unat k < 14 then Some (info_of k) else None)" for k
    by (simp only: map_of_keys keyrefs_below_KEY_COUNT(1)) simp
  moreover have "observes cid k (client_stream (wk_client ?w'))" if "k \<in> observable_keys" for k
  proof -
    have "unat k < 14" using that by (auto simp: observable_keys_def)
    with rows(5) that show ?thesis by (auto simp: list_all_iff keyrefs_below_KEY_COUNT(1))
  qed
  moreover have "worker_idle cid ?w'" using rows(2) by (simp add: worker_idle_def)
  moreover have "same_values (client_stream (wk_client w)) (client_stream (wk_client ?w'))"
    using same_values_trans [OF same] rows(3) by simp
  ultimately show ?thesis using rows(6,7) by (intro that [of ?keys ?w' rows]) simp_all
qed

text \<open>The same of the row at an index of the table, with the description written out.\<close>

lemma list_all2_upt: "list_all2 P [0..<n] ys \<longleftrightarrow> length ys = n \<and> (\<forall>i<n. P i (ys ! i))"
  by (auto simp: list_all2_conv_all_nth)

lemma row_shows_index:
  assumes "row_shows tables p (word_of_nat i) row" and "i < 14"
  shows "row_info row = \<lparr>info_keyref = word_of_nat i, info_keyflags = KeyFlags (spec_flags (KEY_SPECS ! i)),
            info_name = spec_name (KEY_SPECS ! i)\<rparr> \<and>
         (if word_of_nat i \<in> readable_keys
          then \<exists>e v. get_value e (word_of_nat i) (pipe_node p) = Inr v \<and>
             row_value row = display_value tables (owned_value (value_of_wire v))
          else row_value row = unreadable_text (row_info row))"
proof -
  have index: "unat (word_of_nat i :: u16) = i" using assms(2) by (simp add: unat_of_nat)
  then have spec: "key_spec (word_of_nat i) = Some (KEY_SPECS ! i)" using key_spec_index [of "word_of_nat i"] assms(2) by presburger
  have "info_of (word_of_nat i) = \<lparr>info_keyref = word_of_nat i, info_keyflags = KeyFlags (spec_flags (KEY_SPECS ! i)),
            info_name = spec_name (KEY_SPECS ! i)\<rparr>" unfolding info_of_def spec index by simp
  then show ?thesis using assms(1) unfolding row_shows_def by auto
qed

section \<open>Property\<close>

text \<open>
  C10: connecting to the node, the worker sends one event that puts the node's key table into
  the viewer: a row for each key of the table in its order, with the value the node stores, or
  the mark of an unreadable key; when the viewer has it, every observable key is observed by
  the connection, and nothing is pending.
\<close>

theorem viewer_connects_to_node:
  assumes "pipe_idle cid p" and "unread cid p ks"
  shows "\<exists>keys rows w'. start_connection (pipe_env tables clock cid)
       \<lparr>wk_client = client_new p, wk_events = [Net_Connecting], wk_pending = []\<rparr> = Some (Inr keys, w') \<and>
     app_keys (fold apply_update (wk_events w') (app_new addr retry_secs)) = rows \<and>
     app_status_of (fold apply_update (wk_events w') (app_new addr retry_secs)) = Status_Connected \<and>
     list_all2 (\<lambda>i row. row_info row = \<lparr>info_keyref = word_of_nat i, info_keyflags = KeyFlags (spec_flags (KEY_SPECS ! i)),
                          info_name = spec_name (KEY_SPECS ! i)\<rparr> \<and>
        (if word_of_nat i \<in> readable_keys
         then \<exists>e v. get_value e (word_of_nat i) (pipe_node p) = Inr v \<and>
            row_value row = display_value tables (owned_value (value_of_wire v))
         else row_value row = unreadable_text (row_info row))) [0..<length KEY_SPECS] rows \<and>
     list_all (\<lambda>k. observes cid k (client_stream (wk_client w'))) [0, 2, 3, 4, 6, 7, 8] \<and> wk_pending w' = []"
proof -
  let ?w = "\<lparr>wk_client = client_new p, wk_events = [Net_Connecting], wk_pending = []\<rparr>"
  obtain keys rows w' where start: "start_connection (pipe_env tables clock cid) ?w = Some (Inr keys, w')"
    "wk_events w' = wk_events ?w @ [Net_Connected node_id rows]" "wk_pending w' = wk_pending ?w"
    "list_all2 (row_shows tables (client_stream (wk_client ?w))) (keyrefs_below KEY_COUNT) rows"
    "\<And>k. k \<in> observable_keys \<Longrightarrow> observes cid k (client_stream (wk_client w'))"
    by (rule start_connection_over_pipe [of cid ?w ks tables clock]) (use assms in \<open>simp_all add: client_new_def\<close>)
  have refs: "keyrefs_below KEY_COUNT = map word_of_nat [0..<length KEY_SPECS]"
    by (simp add: keyrefs_below_def KEY_COUNT_def length_KEY_SPECS)
  have nth: "length rows = 14" "\<And>i. i < 14 \<Longrightarrow> row_shows tables p (word_of_nat i) (rows ! i)"
    using start(4) unfolding refs list_all2_map1 list_all2_upt by (simp_all add: length_KEY_SPECS client_new_def)
  have table: "list_all2 (\<lambda>i row. row_info row = \<lparr>info_keyref = word_of_nat i, info_keyflags = KeyFlags (spec_flags (KEY_SPECS ! i)),
                          info_name = spec_name (KEY_SPECS ! i)\<rparr> \<and>
        (if word_of_nat i \<in> readable_keys
         then \<exists>e v. get_value e (word_of_nat i) (pipe_node p) = Inr v \<and>
            row_value row = display_value tables (owned_value (value_of_wire v))
         else row_value row = unreadable_text (row_info row))) [0..<length KEY_SPECS] rows"
    unfolding list_all2_upt length_KEY_SPECS by (intro conjI [OF nth(1)] allI impI row_shows_index nth(2))
  have events: "wk_events w' = [Net_Connecting, Net_Connected node_id rows]" using start(2) by simp
  have viewer: "app_keys (fold apply_update (wk_events w') (app_new addr retry_secs)) = rows"
    "app_status_of (fold apply_update (wk_events w') (app_new addr retry_secs)) = Status_Connected"
    unfolding events by (simp_all add: apply_update_def)
  have observed: "list_all (\<lambda>k. observes cid k (client_stream (wk_client w'))) [0, 2, 3, 4, 6, 7, 8]"
    using start(5) by (simp add: observable_keys_def)
  show ?thesis
    by (rule exI [of _ keys], rule exI [of _ rows], rule exI [of _ w'], intro conjI)
      (rule start(1), rule viewer(1), rule viewer(2), rule table, rule observed, use start(3) in simp)
qed

lemma viewer_connects_to_node_witness:
  "\<exists>keys rows w'. start_connection (pipe_env sample_tables (\<lambda>_. 0) 1)
       \<lparr>wk_client = client_new fresh_pipe, wk_events = [Net_Connecting], wk_pending = []\<rparr> = Some (Inr keys, w') \<and>
     app_keys (fold apply_update (wk_events w') (app_new [] 3)) = rows \<and> length rows = 14 \<and>
     list_all (\<lambda>k. observes 1 k (client_stream (wk_client w'))) [0, 2, 3, 4, 6, 7, 8]"
  using viewer_connects_to_node [OF fresh_pipe_idle fresh_pipe_unread, of sample_tables "\<lambda>_. 0" "[]" 3]
  by (fastforce dest: list_all2_lengthD simp: length_KEY_SPECS)

end
