(* ===== verification/Tui_Draw.thy ===== *)
theory Tui_Draw
  imports Error_Text Tui_App "HOL-Library.Monad_Syntax"
begin

text \<open>
  The screen of the terminal viewer (\<open>qup-test-tui/src/ui.rs\<close>) and the loop of its \<open>main\<close>
  (\<open>qup-test-tui/src/main.rs\<close>). A screen is the list of the widgets drawn with their areas, in
  the order in which they are drawn. The layout solver and the areas of the crate \<open>ratatui\<close> and
  the terminal operations of \<open>crossterm\<close> are parameters. \<open>None\<close> is a panic: an index into the
  areas of a layout that is out of range.
\<close>

section \<open>What the screen is made of\<close>

datatype color = DarkGray | Yellow | Cyan | Red

record style =
  style_fg :: "color option"
  style_bold :: bool

definition default_style :: style where "default_style = \<lparr>style_fg = None, style_bold = False\<rparr>"
definition fg :: "color \<Rightarrow> style" where "fg c = default_style\<lparr>style_fg := Some c\<rparr>"
definition bold :: style where "bold = default_style\<lparr>style_bold := True\<rparr>"

datatype layout_direction = Vertical | Horizontal
datatype constraint = Length_Is u16 | Min_Is u16 | Fill_By u16

text \<open>A block has borders on all sides.\<close>

record block =
  block_title :: "rstr option"
  block_border :: style

record table_view =
  view_header :: "rstr list"
  view_header_style :: style
  view_rows :: "rstr list list"
  view_block :: block
  view_spacing :: u16
  view_widths :: "constraint list"

datatype widget = Cleared | Bordered block | Paragraph rstr style "block option" | Table table_view

type_synonym screen = "(widget \<times> rect) list"

text \<open>\<open>Layout::split\<close>, \<open>Rect::inner\<close> with a horizontal and a vertical margin, and \<open>Rect::new\<close>.\<close>

record ratatui =
  rt_split :: "layout_direction \<Rightarrow> constraint list \<Rightarrow> rect \<Rightarrow> rect list"
  rt_inner :: "u16 \<Rightarrow> u16 \<Rightarrow> rect \<Rightarrow> rect"
  rt_rect :: "u16 \<Rightarrow> u16 \<Rightarrow> u16 \<Rightarrow> u16 \<Rightarrow> rect"

definition titled :: "string \<Rightarrow> block" where
  "titled title = \<lparr>block_title = Some (ascii title), block_border = default_style\<rparr>"

section \<open>Texts and styles\<close>

text \<open>\<open>format_flags\<close> of \<open>ui.rs\<close>.\<close>

definition display_flags :: "key_flags \<Rightarrow> rstr" where
  "display_flags flags =
     [if is_readable flags then 0x72 else 0x2D, if is_writable flags then 0x77 else 0x2D,
      if is_observable flags then 0x6F else 0x2D]"

text \<open>Instants are nanoseconds.\<close>

definition format_last_read :: "nat option \<Rightarrow> nat \<Rightarrow> rstr" where
  "format_last_read last_read now =
     (case last_read of
        None \<Rightarrow> ascii ''never''
      | Some read \<Rightarrow>
          let elapsed = (now - read) div 1000000000 in
          if elapsed < 60 then text_of_nat elapsed @ ascii ''s''
          else let minutes = elapsed div 60 in
          if minutes < 60 then text_of_nat minutes @ ascii ''m''
          else let hours = minutes div 60 in
          if hours < 24 then text_of_nat hours @ ascii ''h''
          else text_of_nat (hours div 24) @ ascii ''d'')"

definition input_border_style :: "bool \<Rightarrow> bool \<Rightarrow> style" where
  "input_border_style focused disabled =
     (if disabled then fg DarkGray else if focused then fg Yellow else default_style)"

definition button_border_style :: style where "button_border_style = fg Cyan"

definition button_text_style :: "bool \<Rightarrow> style" where
  "button_text_style disabled = (if disabled then fg DarkGray else bold)"

section \<open>The dialog\<close>

definition u16_max :: "u16 \<Rightarrow> u16 \<Rightarrow> u16" where "u16_max a b = (if a \<le> b then b else a)"
definition u16_min :: "u16 \<Rightarrow> u16 \<Rightarrow> u16" where "u16_min a b = (if a \<le> b then a else b)"

definition centered_rect :: "ratatui \<Rightarrow> rect \<Rightarrow> u16 \<Rightarrow> u16 \<Rightarrow> rect option" where
  "centered_rect rt area desired_width desired_height =
     (let width = u16_max (u16_min desired_width (u16_saturating_sub (rect_width area) 2)) 20;
          height = u16_max (u16_min desired_height (u16_saturating_sub (rect_height area) 2)) 8
      in do {
        horizontal \<leftarrow> list_get (rt_split rt Horizontal [Fill_By 1, Length_Is width, Fill_By 1] area) 1;
        list_get (rt_split rt Vertical [Fill_By 1, Length_Is height, Fill_By 1] horizontal) 1
      })"

definition input_field :: "string \<Rightarrow> modal_focus \<Rightarrow> rtext \<Rightarrow> edit_modal \<Rightarrow> widget" where
  "input_field title focus input m =
     Paragraph (text_bytes input) default_style
       (Some ((titled title)\<lparr>block_border := input_border_style (modal_focus_of m = focus) (modal_submitting m)\<rparr>))"

definition button :: "string \<Rightarrow> rstr option \<Rightarrow> edit_modal \<Rightarrow> widget" where
  "button label title m =
     Paragraph (ascii label) (button_text_style (modal_submitting m))
       (Some \<lparr>block_title = title, block_border = button_border_style\<rparr>)"

definition footer_text :: "edit_modal \<Rightarrow> rstr" where
  "footer_text m =
     (case (modal_error m, modal_submitting m) of
        (Some e, _) \<Rightarrow> e
      | (None, True) \<Rightarrow> ascii ''writing...''
      | (None, False) \<Rightarrow> ascii ''click a button or press Enter in the focused input; Esc closes'')"

definition footer_style :: "edit_modal \<Rightarrow> style" where
  "footer_style m = (if modal_error m \<noteq> None then fg Red else default_style)"

definition draw_modal :: "ratatui \<Rightarrow> rect \<Rightarrow> edit_modal \<Rightarrow> (modal_geometry \<times> screen) option" where
  "draw_modal rt area m = do {
     dialog \<leftarrow> centered_rect rt area 72 15;
     let sections = rt_split rt Vertical [Length_Is 1, Length_Is 3, Length_Is 3, Length_Is 3, Min_Is 2] (rt_inner rt 1 1 dialog);
     section0 \<leftarrow> list_get sections 0;
     section1 \<leftarrow> list_get sections 1;
     let string_row = rt_split rt Horizontal [Min_Is 1, Length_Is 10] section1;
     string0 \<leftarrow> list_get string_row 0;
     string1 \<leftarrow> list_get string_row 1;
     section2 \<leftarrow> list_get sections 2;
     let bool_row = rt_split rt Horizontal [Length_Is 12, Length_Is 12, Min_Is 1] section2;
     bool0 \<leftarrow> list_get bool_row 0;
     bool1 \<leftarrow> list_get bool_row 1;
     section3 \<leftarrow> list_get sections 3;
     let number_row = rt_split rt Horizontal [Min_Is 1, Length_Is 10] section3;
     number0 \<leftarrow> list_get number_row 0;
     number1 \<leftarrow> list_get number_row 1;
     section4 \<leftarrow> list_get sections 4;
     Some
       (\<lparr>outer = dialog, string_input = string0, string_set_button = string1, bool_true_button = bool0,
         bool_false_button = bool1, number_input = number0, number_set_button = number1\<rparr>,
        [(Cleared, dialog),
         (Bordered \<lparr>block_title = Some (ascii ''Set Value: '' @ modal_key_name m), block_border = default_style\<rparr>, dialog),
         (Paragraph (ascii ''current: '' @ modal_current_value m) default_style None, section0),
         (input_field ''String'' StringInput (modal_string_input m) m, string0),
         (button ''set'' None m, string1),
         (button ''true'' (Some (ascii ''Bool'')) m, bool0),
         (button ''false'' None m, bool1),
         (input_field ''Number'' NumberInput (modal_number_input m) m, number0),
         (button ''set'' None m, number1),
         (Paragraph (footer_text m) (footer_style m) None, section4)])
   }"

section \<open>The screen\<close>

definition build_table_geometry :: "ratatui \<Rightarrow> rect \<Rightarrow> table_geometry option" where
  "build_table_geometry rt table_area =
     (let inside = rt_inner rt 1 1 table_area;
          body_height = u16_saturating_sub (rect_height inside) 1
      in if body_height = 0 then None
         else Some \<lparr>table_body = rt_rect rt (rect_x inside) (u16_saturating_add (rect_y inside) 1) (rect_width inside) body_height,
                    visible_rows = unat body_height\<rparr>)"

definition key_cells :: "nat \<Rightarrow> key_row \<Rightarrow> rstr list" where
  "key_cells now row =
     [text_of_u16 (info_keyref (row_info row)), display_flags (info_keyflags (row_info row)),
      info_name (row_info row), row_value row, format_last_read (row_last_read row) now]"

definition key_table :: "nat \<Rightarrow> app \<Rightarrow> widget" where
  "key_table now a =
     Table \<lparr>view_header = map ascii [''Key'', ''Flags'', ''Name'', ''Value'', ''Last Read''],
       view_header_style = bold, view_rows = map (key_cells now) (app_keys a),
       view_block = titled ''Keys'', view_spacing = 1,
       view_widths = [Length_Is 6, Length_Is 5, Length_Is 22, Min_Is 18, Length_Is 10]\<rparr>"

definition draw :: "ratatui \<Rightarrow> nat \<Rightarrow> rect \<Rightarrow> app \<Rightarrow> (ui_geometry \<times> screen) option" where
  "draw rt now area a = do {
     let layout = rt_split rt Vertical [Length_Is 3, Min_Is 1] area;
     status_area \<leftarrow> list_get layout 0;
     table_area \<leftarrow> list_get layout 1;
     let table = build_table_geometry rt table_area;
     let widgets = [(Paragraph (status_line a) default_style (Some (titled ''Connection'')), status_area),
                    (key_table now a, table_area)];
     (case app_modal a of
        None \<Rightarrow> Some (\<lparr>geometry_table = table, geometry_modal = None\<rparr>, widgets)
      | Some m \<Rightarrow> do {
          (modal, dialog) \<leftarrow> draw_modal rt area m;
          Some (\<lparr>geometry_table = table, geometry_modal = Some modal\<rparr>, widgets @ dialog)
        })
   }"

section \<open>The terminal\<close>

datatype terminal_op =
    EnableRawMode | EnterAlternateScreen | EnableMouseCapture | NewTerminal | ClearTerminal | HideCursor
  | ShowCursor | DisableRawMode | DisableMouseCapture | LeaveAlternateScreen

record terminal_modes =
  raw_mode :: bool
  alternate_screen :: bool
  mouse_capture :: bool
  cursor_hidden :: bool

definition shell_modes :: terminal_modes where
  "shell_modes = \<lparr>raw_mode = False, alternate_screen = False, mouse_capture = False, cursor_hidden = False\<rparr>"

fun op_effect :: "terminal_op \<Rightarrow> terminal_modes \<Rightarrow> terminal_modes" where
  "op_effect EnableRawMode t = t\<lparr>raw_mode := True\<rparr>"
| "op_effect EnterAlternateScreen t = t\<lparr>alternate_screen := True\<rparr>"
| "op_effect EnableMouseCapture t = t\<lparr>mouse_capture := True\<rparr>"
| "op_effect NewTerminal t = t"
| "op_effect ClearTerminal t = t"
| "op_effect HideCursor t = t\<lparr>cursor_hidden := True\<rparr>"
| "op_effect ShowCursor t = t\<lparr>cursor_hidden := False\<rparr>"
| "op_effect DisableRawMode t = t\<lparr>raw_mode := False\<rparr>"
| "op_effect DisableMouseCapture t = t\<lparr>mouse_capture := False\<rparr>"
| "op_effect LeaveAlternateScreen t = t\<lparr>alternate_screen := False\<rparr>"

text \<open>Operations up to the first that fails; a failing operation has no effect.\<close>

fun run_ops :: "(terminal_op \<Rightarrow> 'io option) \<Rightarrow> terminal_op list \<Rightarrow> terminal_modes \<Rightarrow> 'io option \<times> terminal_modes" where
  "run_ops fails [] t = (None, t)"
| "run_ops fails (op # ops) t =
     (case fails op of Some e \<Rightarrow> (Some e, t) | None \<Rightarrow> run_ops fails ops (op_effect op t))"

definition tui_new :: "(terminal_op \<Rightarrow> 'io option) \<Rightarrow> terminal_modes \<Rightarrow> 'io option \<times> terminal_modes" where
  "tui_new fails = run_ops fails
     [EnableRawMode, EnterAlternateScreen, EnableMouseCapture, NewTerminal, ClearTerminal, HideCursor]"

definition tui_drop :: "(terminal_op \<Rightarrow> 'io option) \<Rightarrow> terminal_modes \<Rightarrow> terminal_modes" where
  "tui_drop fails t = snd (run_ops fails [DisableMouseCapture, LeaveAlternateScreen]
     (snd (run_ops fails [DisableRawMode] (snd (run_ops fails [ShowCursor] t)))))"

section \<open>The main loop\<close>

definition LAST_READ_TICK :: nat where "LAST_READ_TICK = 1000000000"

text \<open>
  One turn of the loop as its environment sees it: the updates that have arrived, the time, the
  area of the frame or the error of drawing it, whether the worker is gone, and what polling the
  terminal returns.
\<close>

record 'io turn =
  turn_updates :: "network_event list"
  turn_now :: nat
  turn_frame :: "'io + rect"
  turn_worker_gone :: bool
  turn_poll :: "'io + terminal_event option"

record viewer =
  vw_app :: app
  vw_tx :: command_tx
  vw_geometry :: ui_geometry
  vw_last_clock :: nat
  vw_needs_redraw :: bool
  vw_screen :: screen

datatype 'io turn_result = Goes_On | Quits | Fails 'io | Panics

text \<open>Updates and clock: what happens before the screen is drawn.\<close>

definition receive_updates :: "'io turn \<Rightarrow> viewer \<Rightarrow> viewer" where
  "receive_updates t v = v\<lparr>vw_app := fold apply_update (turn_updates t) (vw_app v),
     vw_needs_redraw := vw_needs_redraw v \<or> turn_updates t \<noteq> []\<rparr>"

definition tick_clock :: "'io turn \<Rightarrow> viewer \<Rightarrow> viewer" where
  "tick_clock t v =
     (if LAST_READ_TICK \<le> turn_now t - vw_last_clock v
      then v\<lparr>vw_last_clock := turn_now t, vw_needs_redraw := True\<rparr> else v)"

definition redraw_screen :: "ratatui \<Rightarrow> 'io turn \<Rightarrow> viewer \<Rightarrow> 'io turn_result \<times> viewer" where
  "redraw_screen rt t v =
     (if \<not> vw_needs_redraw v then (Goes_On, v)
      else case turn_frame t of
        Inl e \<Rightarrow> (Fails e, v)
      | Inr area \<Rightarrow>
          (case draw rt (turn_now t) area (vw_app v) of
             None \<Rightarrow> (Panics, v)
           | Some (g, screen) \<Rightarrow>
               (Goes_On, v\<lparr>vw_geometry := g, vw_screen := screen, vw_needs_redraw := False\<rparr>)))"

definition take_input :: "'io turn \<Rightarrow> viewer \<Rightarrow> 'io turn_result \<times> viewer" where
  "take_input t v =
     (case turn_poll t of
        Inl e \<Rightarrow> (Fails e, v)
      | Inr None \<Rightarrow> (Goes_On, v)
      | Inr (Some event) \<Rightarrow>
          (case handle_event (vw_geometry v) event (vw_app v, (vw_tx v)\<lparr>tx_closed := tx_closed (vw_tx v) \<or> turn_worker_gone t\<rparr>) of
             (outcome, (a, tx)) \<Rightarrow>
               (if quit outcome then Quits else Goes_On,
                v\<lparr>vw_app := a, vw_tx := tx, vw_needs_redraw := vw_needs_redraw v \<or> needs_redraw outcome\<rparr>)))"

definition viewer_turn :: "ratatui \<Rightarrow> 'io turn \<Rightarrow> viewer \<Rightarrow> 'io turn_result \<times> viewer" where
  "viewer_turn rt t v =
     (case redraw_screen rt t (tick_clock t (receive_updates t v)) of
        (Goes_On, v) \<Rightarrow> take_input t v
      | stopped \<Rightarrow> stopped)"

fun viewer_loop :: "ratatui \<Rightarrow> 'io turn list \<Rightarrow> viewer \<Rightarrow> 'io turn_result \<times> viewer" where
  "viewer_loop rt [] v = (Goes_On, v)"
| "viewer_loop rt (t # ts) v =
     (case viewer_turn rt t v of (Goes_On, v) \<Rightarrow> viewer_loop rt ts v | stopped \<Rightarrow> stopped)"

definition viewer_init :: "rtext \<Rightarrow> u64 \<Rightarrow> nat \<Rightarrow> viewer" where
  "viewer_init addr retry_secs now =
     \<lparr>vw_app = app_new (text_bytes addr) retry_secs, vw_tx = \<lparr>tx_sent = [], tx_closed = False\<rparr>,
      vw_geometry = \<lparr>geometry_table = None, geometry_modal = None\<rparr>, vw_last_clock = now, vw_needs_redraw = True,
      vw_screen = []\<rparr>"

text \<open>\<open>main\<close>: its result, the modes in which it leaves the terminal, and the viewer, if it has started.\<close>

definition tui_main ::
  "ratatui \<Rightarrow> (terminal_op \<Rightarrow> 'io option) \<Rightarrow> rtext \<Rightarrow> u64 \<Rightarrow> nat \<Rightarrow> 'io turn list \<Rightarrow> terminal_modes
     \<Rightarrow> 'io turn_result \<times> terminal_modes \<times> viewer option" where
  "tui_main rt fails addr retry_secs now turns modes =
     (case tui_new fails modes of
        (Some e, modes) \<Rightarrow> (Fails e, modes, None)
      | (None, modes) \<Rightarrow>
          (case viewer_loop rt turns (viewer_init addr retry_secs now) of
             (Goes_On, v) \<Rightarrow> (Goes_On, modes, Some v)
           | (stopped, v) \<Rightarrow> (stopped, tui_drop fails modes, Some v)))"

end
