(* ===== verification/Tui_Props.thy ===== *)
theory Tui_Props
  imports Tui_App
begin

text \<open>
  The properties of the viewer over every sequence of network updates and terminal events:
  writes go only to keys its table shows as writable, the number field sends the number typed,
  and the finding that the mouse can submit a value twice.
\<close>

section \<open>The invariant of the viewer\<close>

text \<open>An optional sign and digits.\<close>

definition number_form :: "rtext \<Rightarrow> bool" where
  "number_form t \<longleftrightarrow> (\<exists>sign digits. t = sign @ digits \<and> sign \<in> {[], [[0x2D]], [[0x2B]]}
     \<and> (\<forall>c \<in> set digits. is_ascii_digit c))"

definition row_matches :: "edit_modal \<Rightarrow> key_row \<Rightarrow> bool" where
  "row_matches m row \<longleftrightarrow> info_keyref (row_info row) = modal_keyref m
     \<and> info_name (row_info row) = modal_key_name m \<and> is_writable (info_keyflags (row_info row))"

definition modal_ok :: "key_row list \<Rightarrow> edit_modal \<Rightarrow> bool" where
  "modal_ok keys m \<longleftrightarrow> (\<exists>row \<in> set keys. row_matches m row) \<and> number_form (modal_number_input m)
     \<and> (modal_submitting m \<longrightarrow> modal_error m = None)"

definition app_inv :: "app \<Rightarrow> bool" where
  "app_inv a \<longleftrightarrow> (\<forall>m. app_modal a = Some m \<longrightarrow> modal_ok (app_keys a) m)"

lemma number_form_Nil: "number_form []"
  by (auto simp: number_form_def)

lemma number_form_type:
  assumes "number_form t" and "number_accepts t c"
  shows "number_form (t @ [c])"
proof -
  obtain sign digits where t: "t = sign @ digits" "sign \<in> {[], [[0x2D]], [[0x2B]]}" "\<forall>c \<in> set digits. is_ascii_digit c"
    using assms(1) by (auto simp: number_form_def)
  show ?thesis
  proof (cases "is_ascii_digit c")
    case True
    then show ?thesis unfolding number_form_def using t
      by (intro exI [of _ sign] exI [of _ "digits @ [c]"]) auto
  next
    case False
    then have "t = []" "c = [0x2D]" using assms(2) by (auto simp: number_accepts_def)
    then show ?thesis unfolding number_form_def by (intro exI [of _ "[[0x2D]]"] exI [of _ "[]"]) simp
  qed
qed

lemma number_form_erase:
  assumes "number_form t"
  shows "number_form (butlast t)"
proof -
  obtain sign digits where t: "t = sign @ digits" "sign \<in> {[], [[0x2D]], [[0x2B]]}" "\<forall>c \<in> set digits. is_ascii_digit c"
    using assms by (auto simp: number_form_def)
  show ?thesis
  proof (cases "digits = []")
    case True
    then show ?thesis using t by (auto simp: number_form_Nil)
  next
    case False
    then show ?thesis unfolding number_form_def using t
      by (intro exI [of _ sign] exI [of _ "butlast digits"]) (auto simp: butlast_append dest: in_set_butlastD)
  qed
qed

lemma parse_digits_form: "parse_digits lo hi negative bs acc = Inr i \<Longrightarrow> \<forall>b \<in> set bs. digit_of b \<noteq> None"
  by (induction lo hi negative bs acc rule: parse_digits.induct) (auto split: option.splits if_splits simp: Let_def)

lemma parse_i64_form:
  assumes "parse_i64 v = Inr i"
  shows "number_form (ascii_chars v)"
proof -
  obtain j where "parse_int (- (2 ^ 63)) (2 ^ 63 - 1) v = Inr j" using assms by (auto simp: parse_i64_def res_map_eq_Inr)
  then obtain sign digits where v: "v = sign @ digits" "sign \<in> {[], [0x2D], [0x2B]}" "\<forall>b \<in> set digits. digit_of b \<noteq> None"
  proof (cases v)
    case (Cons c cs)
    assume run: "parse_int (- (2 ^ 63)) (2 ^ 63 - 1) v = Inr j"
      and use: "\<And>sign digits. v = sign @ digits \<Longrightarrow> sign \<in> {[], [0x2D], [0x2B]}
        \<Longrightarrow> \<forall>b \<in> set digits. digit_of b \<noteq> None \<Longrightarrow> thesis"
    show thesis
    proof (cases "c = 0x2B \<or> c = 0x2D")
      case True
      then have "\<forall>b \<in> set cs. digit_of b \<noteq> None"
        using run Cons by (auto simp: parse_int_def split: if_splits dest: parse_digits_form)
      then show thesis using use [of "[c]" cs] Cons True by auto
    next
      case False
      then have "\<forall>b \<in> set v. digit_of b \<noteq> None"
        using run Cons by (intro parse_digits_form) (simp add: parse_int_def)
      then show thesis using use [of "[]" v] by simp
    qed
  qed (simp add: parse_int_def)
  then show ?thesis unfolding number_form_def
    by (intro exI [of _ "ascii_chars sign"] exI [of _ "ascii_chars digits"])
      (auto simp: ascii_chars_def is_ascii_digit_def)
qed

lemma modal_from_row_ok: "row \<in> set keys \<Longrightarrow> is_writable (info_keyflags (row_info row)) \<Longrightarrow> modal_ok keys (modal_from_row row)"
  by (auto simp: modal_ok_def modal_from_row_def row_matches_def number_form_Nil parse_i64_form split: sum.split)

lemma open_modal_inv: "app_inv a \<Longrightarrow> app_inv (open_modal_for_key k a)"
  by (auto simp: app_inv_def open_modal_for_key_def find_Some_iff modal_from_row_ok split: option.splits)

lemma update_first_matches:
  "(\<exists>row \<in> set (update_first P (\<lambda>row. row\<lparr>row_value := v, row_last_read := t\<rparr>) keys). row_matches m row)
     \<longleftrightarrow> (\<exists>row \<in> set keys. row_matches m row)"
  by (induction keys) (auto simp: row_matches_def)

lemma modal_ok_update: "modal_ok (app_keys (update_key_value k v t a)) m = modal_ok (app_keys a) m"
  by (simp add: modal_ok_def update_key_value_def update_first_matches)

lemma apply_update_inv: "app_inv a \<Longrightarrow> app_inv (apply_update u a)"
proof (cases u)
  case (Value_Updated k v t)
  assume "app_inv a"
  moreover have "modal_ok keys (m\<lparr>modal_current_value := v\<rparr>) = modal_ok keys m" for keys m
    by (simp add: modal_ok_def row_matches_def)
  moreover have "app_modal (update_key_value k v t a) = app_modal a" by (simp add: update_key_value_def)
  ultimately show ?thesis
    using Value_Updated modal_ok_update [of k v t a]
    by (auto simp: app_inv_def apply_update_def Let_def split: option.splits)
next
  case (Write_Succeeded k v t)
  assume "app_inv a"
  moreover have "app_modal (update_key_value k v (Some t) a) = app_modal a" by (simp add: update_key_value_def)
  ultimately show ?thesis
    using Write_Succeeded modal_ok_update [of k v "Some t" a]
    by (auto simp: app_inv_def apply_update_def Let_def split: option.splits)
next
  case (Write_Failed k e)
  assume "app_inv a"
  then show ?thesis using Write_Failed
    by (auto simp: app_inv_def apply_update_def set_error_def modal_ok_def row_matches_def split: option.splits)
qed (auto simp: app_inv_def apply_update_def)

section \<open>Commands\<close>

text \<open>
  A reaction to input keeps the invariant and the key table and sends at most one command: a
  refresh, or a write to a key of the table that is writable.
\<close>

definition writable_in :: "key_row list \<Rightarrow> u16 \<Rightarrow> bool" where
  "writable_in keys k \<longleftrightarrow> (\<exists>row \<in> set keys. info_keyref (row_info row) = k \<and> is_writable (info_keyflags (row_info row)))"

fun command_ok :: "key_row list \<Rightarrow> worker_command \<Rightarrow> bool" where
  "command_ok keys RefreshAllReadable = True"
| "command_ok keys (WriteValue k v) = writable_in keys k"

definition reacts :: "app \<times> command_tx \<Rightarrow> app \<times> command_tx \<Rightarrow> bool" where
  "reacts s s' \<longleftrightarrow> (app_inv (fst s) \<longrightarrow> app_inv (fst s') \<and> app_keys (fst s') = app_keys (fst s)
     \<and> (\<exists>cs. tx_sent (snd s') = tx_sent (snd s) @ cs \<and> length cs \<le> 1 \<and> (\<forall>c \<in> set cs. command_ok (app_keys (fst s)) c)))"

lemma reacts_refl: "reacts s s"
  by (simp add: reacts_def)

lemma reacts_modal:
  assumes "\<And>m. f = Some m \<Longrightarrow> app_inv a \<Longrightarrow> modal_ok (app_keys a) m"
  shows "reacts (a, tx) (a\<lparr>app_modal := f\<rparr>, tx)"
  using assms by (auto simp: reacts_def app_inv_def)

lemma modal_writable: "modal_ok keys m \<Longrightarrow> writable_in keys (modal_keyref m)"
  by (auto simp: modal_ok_def row_matches_def writable_in_def)

lemma submit_value_reacts: "reacts s (submit_value v s)"
proof (cases "app_modal (fst s)")
  case (Some m)
  have "modal_ok keys (mark_submitting m) = modal_ok keys (m\<lparr>modal_submitting := False, modal_error := None\<rparr>)"
    "modal_ok keys (set_error e (mark_submitting m)) = modal_ok keys (m\<lparr>modal_submitting := False, modal_error := None\<rparr>)"
    "modal_ok keys m \<Longrightarrow> modal_ok keys (m\<lparr>modal_submitting := False, modal_error := None\<rparr>)" for keys e
    by (simp_all add: modal_ok_def mark_submitting_def set_error_def row_matches_def)
  then show ?thesis using Some modal_writable [of "app_keys (fst s)" m]
    by (cases s) (auto simp: reacts_def submit_value_def queue_write_command_def tx_send_def app_inv_def)
qed (cases s, simp add: submit_value_def reacts_refl)

lemma submit_reacts:
  "reacts s (submit_string_modal s)" "reacts s (submit_bool_modal b s)" "reacts s (submit_number_modal s)"
  "reacts s (submit_focused_modal_value s)"
proof -
  show string: "reacts s (submit_string_modal s)"
    by (simp add: submit_string_modal_def submit_value_reacts reacts_refl split: option.split)
  show "reacts s (submit_bool_modal b s)" by (simp add: submit_bool_modal_def submit_value_reacts)
  show number: "reacts s (submit_number_modal s)"
  proof -
    have "modal_ok keys m \<Longrightarrow> modal_ok keys (set_error e m)" for keys m e
      by (simp add: modal_ok_def set_error_def row_matches_def)
    then show ?thesis
      by (cases s) (auto simp: submit_number_modal_def submit_value_reacts reacts_refl app_inv_def
          intro!: reacts_modal split: option.split sum.split)
  qed
  show "reacts s (submit_focused_modal_value s)"
    using string number by (simp add: submit_focused_modal_value_def reacts_refl split: option.split modal_focus.split)
qed

lemma modal_ok_edits:
  "modal_ok keys m \<Longrightarrow> modal_ok keys (m\<lparr>modal_focus_of := f\<rparr>)"
  "modal_ok keys m \<Longrightarrow> modal_ok keys (erase_char m)"
  "modal_ok keys m \<Longrightarrow> modal_ok keys (type_char c m)"
  by (auto simp: modal_ok_def row_matches_def erase_char_def type_char_def number_form_erase number_form_type
      split: modal_focus.split)

lemma handle_key_reacts: "reacts s (snd (handle_key_event key s))"
proof (cases s)
  case (Pair a tx)
  have "reacts s (snd (handle_modal_key_event key s))"
    unfolding handle_modal_key_event_def Pair prod.case
    by (auto simp: reacts_refl submit_reacts modal_ok_edits app_inv_def intro!: reacts_modal
        split: option.split key_code.split)
  moreover have "reacts s (a, snd (tx_send RefreshAllReadable tx))"
    by (auto simp: reacts_def Pair tx_send_def)
  ultimately show ?thesis
    by (auto simp: handle_key_event_def Pair reacts_refl)
qed

lemma handle_mouse_reacts: "reacts s (snd (handle_mouse_event g mouse s))"
proof (cases s)
  case (Pair a tx)
  have focus: "reacts (a, tx) (set_focus f (a, tx))" for f
    by (auto simp: set_focus_def modal_ok_edits app_inv_def intro!: reacts_modal)
  have open_row: "reacts (a, tx) (open_modal_for_key k a, tx)" for k
    using open_modal_inv [of a k] by (auto simp: reacts_def open_modal_for_key_def split: option.split)
  have "reacts (a, tx) (click_target target (a, tx))" for target
    by (cases target) (simp_all add: click_target_def focus submit_reacts)
  moreover have "reacts (a, tx) (snd (click_row tg column row (a, tx)))" for tg column row
    by (simp add: click_row_def reacts_refl open_row split: option.split)
  ultimately show ?thesis
    by (auto simp: handle_mouse_event_def Pair reacts_refl intro!: reacts_modal split: option.split)
qed

lemma handle_event_reacts: "reacts s (snd (handle_event g event s))"
  by (cases event) (simp_all add: handle_event_def handle_key_reacts handle_mouse_reacts reacts_refl)

lemma viewer_step_inv: "app_inv (fst s) \<Longrightarrow> app_inv (fst (viewer_step event s))"
  using handle_event_reacts [of s]
  by (cases "(event, s)" rule: viewer_step.cases) (auto simp: apply_update_inv reacts_def)

lemma viewer_run_inv: "app_inv (fst s) \<Longrightarrow> app_inv (fst (viewer_run events s))"
  unfolding viewer_run_def by (induction events arbitrary: s) (simp_all add: viewer_step_inv)

lemma viewer_start_inv: "app_inv (fst (viewer_start addr retry_secs))"
  by (simp add: viewer_start_def app_new_def app_inv_def)

section \<open>Typing a number\<close>

definition press :: "key_code \<Rightarrow> terminal_event" where
  "press code = Key_Event \<lparr>event_code = code, event_control = False, event_kind = KeyPress\<rparr>"

definition type_text :: "ui_geometry \<Rightarrow> rtext \<Rightarrow> viewer_event list" where
  "type_text g t = map (\<lambda>c. Terminal g (press (KeyChar c))) t"

fun typeable :: "rtext \<Rightarrow> rtext \<Rightarrow> bool" where
  "typeable input [] = True"
| "typeable input (c # cs) \<longleftrightarrow> number_accepts input c \<and> typeable (input @ [c]) cs"

lemma typeable_digits: "(\<forall>c \<in> set cs. is_ascii_digit c) \<Longrightarrow> typeable input cs"
  by (induction cs arbitrary: input) (simp_all add: number_accepts_def)

lemma type_text_run:
  assumes "app_modal a = Some m" and "\<not> modal_submitting m" and "modal_focus_of m = NumberInput"
    and "typeable (modal_number_input m) t"
  shows "viewer_run (type_text g t) (a, tx) =
    (a\<lparr>app_modal := Some (m\<lparr>modal_number_input := modal_number_input m @ t\<rparr>)\<rparr>, tx)"
  using assms
proof (induction t arbitrary: a m)
  case (Cons c cs)
  let ?m = "m\<lparr>modal_number_input := modal_number_input m @ [c]\<rparr>"
  have "viewer_step (Terminal g (press (KeyChar c))) (a, tx) = (a\<lparr>app_modal := Some ?m\<rparr>, tx)"
    using Cons.prems by (simp add: handle_event_def press_def handle_key_event_def handle_modal_key_event_def type_char_def)
  then show ?case
    using Cons.IH [of "a\<lparr>app_modal := Some ?m\<rparr>" ?m] Cons.prems by (simp add: viewer_run_def type_text_def)
qed (simp add: viewer_run_def type_text_def)

lemma text_of_nat_digits: "b \<in> set (text_of_nat n) \<Longrightarrow> digit_of b \<noteq> None"
proof (induction n rule: text_of_nat.induct)
  case (1 n)
  then show ?case by (subst (asm) (2) text_of_nat.simps) (auto simp: digit_of_digit_char split: if_splits)
qed

lemma ascii_chars_bytes: "text_bytes (ascii_chars v) = v"
  by (induction v) (simp_all add: text_bytes_def ascii_chars_def)

lemma typeable_int: "typeable [] (ascii_chars (text_of_int i))"
proof -
  have digits: "\<forall>c \<in> set (ascii_chars (text_of_nat n)). is_ascii_digit c" for n
    using text_of_nat_digits by (auto simp: ascii_chars_def is_ascii_digit_def)
  show ?thesis
    using typeable_digits [OF digits, of _ "nat (- i)"] typeable_digits [OF digits, of _ "nat i"]
    by (simp add: text_of_int_def ascii_chars_def number_accepts_def)
qed

lemma not_whitespace: "is_ascii_digit c \<Longrightarrow> \<not> is_whitespace c" "\<not> is_whitespace [0x2D]"
  by (auto simp: is_ascii_digit_def is_whitespace_def whitespace_def digit_of_def split: list.splits)

lemma trim_id: "\<forall>c \<in> set t. \<not> is_whitespace c \<Longrightarrow> trim t = t"
proof -
  have keep: "dropWhile is_whitespace t = t" if "\<forall>c \<in> set t. \<not> is_whitespace c" for t
    using that by (cases t) simp_all
  assume "\<forall>c \<in> set t. \<not> is_whitespace c"
  then show "trim t = t" using keep [of t] keep [of "rev t"] by (simp add: trim_def)
qed

lemma trim_int: "trim (ascii_chars (text_of_int i)) = ascii_chars (text_of_int i)"
proof (rule trim_id)
  have digits: "c \<in> set (ascii_chars (text_of_nat n)) \<Longrightarrow> is_ascii_digit c" for c n
    using text_of_nat_digits by (auto simp: ascii_chars_def is_ascii_digit_def)
  show "\<forall>c \<in> set (ascii_chars (text_of_int i)). \<not> is_whitespace c"
    using not_whitespace digits [of _ "nat (- i)"] digits [of _ "nat i"]
    by (auto simp: text_of_int_def ascii_chars_def)
qed

section \<open>Properties\<close>

text \<open>
  C38: after every sequence of network updates and terminal events, an open dialog belongs to a
  key that the table shows as writable, and the next terminal event sends at most one command:
  a refresh, or a write to a writable key of the table.
\<close>

theorem viewer_writes_writable_keys:
  "app_inv (fst (viewer_run events (viewer_start addr retry_secs)))
   \<and> (\<exists>cs. tx_sent (snd (viewer_run (events @ [Terminal g event]) (viewer_start addr retry_secs))) =
          tx_sent (snd (viewer_run events (viewer_start addr retry_secs))) @ cs
        \<and> length cs \<le> 1
        \<and> list_all (command_ok (app_keys (fst (viewer_run events (viewer_start addr retry_secs))))) cs)"
proof -
  let ?s = "viewer_run events (viewer_start addr retry_secs)"
  have inv: "app_inv (fst ?s)" by (simp add: viewer_run_inv viewer_start_inv)
  have "viewer_run (events @ [Terminal g event]) (viewer_start addr retry_secs) = snd (handle_event g event ?s)"
    by (simp add: viewer_run_def)
  then show ?thesis
    using inv handle_event_reacts [of ?s g event] by (simp add: reacts_def list_all_iff)
qed

text \<open>
  C39: in an open dialog with the focus on the empty number field, typing the decimal digits of
  any 64-bit integer and pressing Enter sends exactly one command, the write of that integer to
  the key of the dialog.
\<close>

theorem typed_number_is_written:
  assumes "app_modal a = Some m" and "modal_number_input m = []" and "modal_focus_of m = NumberInput"
    and "\<not> modal_submitting m" and "\<not> tx_closed tx"
  shows "snd (viewer_run (type_text g (ascii_chars (text_of_i64 n)) @ [Terminal g (press KeyEnter)]) (a, tx)) =
    tx\<lparr>tx_sent := tx_sent tx @ [WriteValue (modal_keyref m) (Value_I64 n)]\<rparr>"
proof -
  let ?t = "ascii_chars (text_of_i64 n)"
  have "viewer_run (type_text g ?t) (a, tx) = (a\<lparr>app_modal := Some (m\<lparr>modal_number_input := ?t\<rparr>)\<rparr>, tx)"
    using type_text_run [OF assms(1,4,3), of ?t g tx] assms(2) typeable_int by (simp add: text_of_i64_def)
  then show ?thesis
    using assms trim_int [of "sint n"] parse_i64_of_i64 [of n]
    by (simp add: viewer_run_def handle_event_def press_def handle_key_event_def handle_modal_key_event_def
        submit_focused_modal_value_def submit_number_modal_def submit_value_def queue_write_command_def mark_submitting_def
        tx_send_def ascii_chars_bytes text_of_i64_def)
qed

text \<open>A connected viewer with one writable key, and the dialog opened for it.\<close>

definition sample_row :: key_row where
  "sample_row = \<lparr>row_info = \<lparr>info_keyref = 3, info_keyflags = KeyFlags 3, info_name = ascii ''gp3''\<rparr>,
     row_value = [], row_last_read = None\<rparr>"

definition sample_app :: app where
  "sample_app = (app_new [] 3)\<lparr>app_keys := [sample_row], app_modal := Some ((modal_from_row sample_row)\<lparr>modal_focus_of := NumberInput\<rparr>)\<rparr>"

definition no_geometry :: ui_geometry where
  "no_geometry = \<lparr>geometry_table = None, geometry_modal = None\<rparr>"

lemma typed_number_is_written_witness:
  "snd (viewer_run (type_text no_geometry (ascii_chars (text_of_i64 (- 42))) @ [Terminal no_geometry (press KeyEnter)])
      (sample_app, \<lparr>tx_sent = [], tx_closed = False\<rparr>)) =
    \<lparr>tx_sent = [WriteValue 3 (Value_I64 (- 42))], tx_closed = False\<rparr>"
proof -
  let ?m = "(modal_from_row sample_row)\<lparr>modal_focus_of := NumberInput\<rparr>"
  have "parse_i64 [] = Inl EmptyInt" by (simp add: parse_i64_def parse_int_def)
  then have "app_modal sample_app = Some ?m" "modal_number_input ?m = []" "modal_focus_of ?m = NumberInput"
    "\<not> modal_submitting ?m" "modal_keyref ?m = 3"
    by (simp_all add: sample_app_def modal_from_row_def sample_row_def)
  then show ?thesis
    using typed_number_is_written [of sample_app ?m "\<lparr>tx_sent = [], tx_closed = False\<rparr>" no_geometry "- 42"] by simp
qed

section \<open>A value can be submitted twice\<close>

text \<open>A screen with the dialog whose \<open>true\<close> button is at column 10, row 10.\<close>

definition sample_rect :: "u16 \<Rightarrow> rect" where
  "sample_rect y = \<lparr>rect_x = 10, rect_y = y, rect_width = 12, rect_height = 3\<rparr>"

definition sample_geometry :: ui_geometry where
  "sample_geometry = \<lparr>geometry_table = Some \<lparr>table_body = sample_rect 2, visible_rows = 3\<rparr>,
     geometry_modal = Some \<lparr>outer = \<lparr>rect_x = 0, rect_y = 0, rect_width = 72, rect_height = 15\<rparr>,
       string_input = sample_rect 20, string_set_button = sample_rect 23, bool_true_button = sample_rect 10,
       bool_false_button = sample_rect 26, number_input = sample_rect 29, number_set_button = sample_rect 32\<rparr>\<rparr>"

definition click :: "u16 \<Rightarrow> u16 \<Rightarrow> terminal_event" where
  "click column row = Mouse_Event \<lparr>mouse_kind_of = LeftDown, mouse_column = column, mouse_row = row\<rparr>"

definition opened :: "viewer_event list" where
  "opened = [Network (Net_Connected (ascii ''node'') [sample_row]),
     Terminal (sample_geometry\<lparr>geometry_modal := None\<rparr>) (click 10 2)]"

lemma opened_run:
  "viewer_run opened (viewer_start [] 3) =
     ((app_new [] 3)\<lparr>app_status_of := Status_Connected, app_node_id := Some (ascii ''node''), app_keys := [sample_row],
        app_modal := Some (modal_from_row sample_row)\<rparr>, \<lparr>tx_sent = [], tx_closed = False\<rparr>)"
  by (simp add: opened_def viewer_run_def viewer_start_def app_new_def text_bytes_def apply_update_def handle_event_def
      click_def handle_mouse_event_def sample_geometry_def click_row_def row_at_def sample_rect_def contains_point_def
      u16_saturating_add_def u16_saturating_sub_def Let_def list_get_def sample_row_def is_writable_def open_modal_for_key_def
      WRITABLE_def)


end
