(* ===== verification/Tui_Dialog.thy ===== *)
theory Tui_Dialog
  imports Tui_Draw Tui_Props
begin

text \<open>
  The dialog of the viewer on the screen: under the promises of the layout, stated as a
  hypothesis and kept by a sample layout, the six controls are drawn in areas that do not
  overlap, and a click on a control has its effect.
\<close>

section \<open>What the layout promises\<close>

definition rect_valid :: "rect \<Rightarrow> bool" where
  "rect_valid r \<longleftrightarrow> unat (rect_x r) + unat (rect_width r) < 2 ^ 16 \<and> unat (rect_y r) + unat (rect_height r) < 2 ^ 16"

definition within :: "rect \<Rightarrow> rect \<Rightarrow> bool" where
  "within r s \<longleftrightarrow> (\<forall>column row. contains_point r column row \<longrightarrow> contains_point s column row)"

definition apart :: "rect \<Rightarrow> rect \<Rightarrow> bool" where
  "apart r s \<longleftrightarrow> (\<forall>column row. \<not> (contains_point r column row \<and> contains_point s column row))"

text \<open>
  \<open>Layout::split\<close> returns one area for each constraint, inside the area that is split, and no two
  of them share a cell; \<open>Rect::inner\<close> returns an area inside the given one.
\<close>

definition layout_ok :: "ratatui \<Rightarrow> bool" where
  "layout_ok rt \<longleftrightarrow>
     (\<forall>d cs area. rect_valid area \<longrightarrow>
        length (rt_split rt d cs area) = length cs \<and>
        list_all (\<lambda>r. rect_valid r \<and> within r area) (rt_split rt d cs area) \<and>
        sorted_wrt apart (rt_split rt d cs area)) \<and>
     (\<forall>h v area. rect_valid area \<longrightarrow> rect_valid (rt_inner rt h v area) \<and> within (rt_inner rt h v area) area)"

lemma split_two:
  assumes "layout_ok rt" and "rect_valid area"
  obtains r0 r1 where "rt_split rt d [c0, c1] area = [r0, r1]" "rect_valid r0" "rect_valid r1" "within r0 area" "within r1 area"
    and "apart r0 r1"
proof -
  have "length (rt_split rt d [c0, c1] area) = 2" using assms by (simp add: layout_ok_def)
  then obtain r0 r1 where split: "rt_split rt d [c0, c1] area = [r0, r1]"
    by (auto simp: numeral_2_eq_2 length_Suc_conv)
  moreover have "list_all (\<lambda>r. rect_valid r \<and> within r area) [r0, r1]" "sorted_wrt apart [r0, r1]"
    using assms unfolding layout_ok_def by (metis split)+
  ultimately show ?thesis using that by simp
qed

lemma split_three:
  assumes "layout_ok rt" and "rect_valid area"
  obtains r0 r1 r2 where "rt_split rt d [c0, c1, c2] area = [r0, r1, r2]" "rect_valid r1" "within r0 area" "within r1 area"
    and "apart r0 r1"
proof -
  have "length (rt_split rt d [c0, c1, c2] area) = 3" using assms by (simp add: layout_ok_def)
  then obtain r0 r1 r2 where split: "rt_split rt d [c0, c1, c2] area = [r0, r1, r2]"
    by (auto simp: numeral_3_eq_3 length_Suc_conv)
  moreover have "list_all (\<lambda>r. rect_valid r \<and> within r area) [r0, r1, r2]" "sorted_wrt apart [r0, r1, r2]"
    using assms unfolding layout_ok_def by (metis split)+
  ultimately show ?thesis using that by simp
qed

lemma split_five:
  assumes "layout_ok rt" and "rect_valid area"
  obtains r0 r1 r2 r3 r4 where "rt_split rt d [c0, c1, c2, c3, c4] area = [r0, r1, r2, r3, r4]"
    and "rect_valid r1" "rect_valid r2" "rect_valid r3" "within r1 area" "within r2 area" "within r3 area"
    and "apart r1 r2" "apart r1 r3" "apart r2 r3"
proof -
  have "length (rt_split rt d [c0, c1, c2, c3, c4] area) = 5" using assms by (simp add: layout_ok_def)
  then obtain r0 r1 r2 r3 r4 where split: "rt_split rt d [c0, c1, c2, c3, c4] area = [r0, r1, r2, r3, r4]"
    by (auto simp: eval_nat_numeral length_Suc_conv)
  moreover have "list_all (\<lambda>r. rect_valid r \<and> within r area) [r0, r1, r2, r3, r4]" "sorted_wrt apart [r0, r1, r2, r3, r4]"
    using assms unfolding layout_ok_def by (metis split)+
  ultimately show ?thesis using that by simp
qed

lemma inner_ok: "layout_ok rt \<Longrightarrow> rect_valid area \<Longrightarrow> rect_valid (rt_inner rt h v area) \<and> within (rt_inner rt h v area) area"
  by (simp add: layout_ok_def)

lemma within_trans: "within r s \<Longrightarrow> within s t \<Longrightarrow> within r t"
  by (simp add: within_def)

lemma apart_within: "apart s t \<Longrightarrow> within r s \<Longrightarrow> within q t \<Longrightarrow> apart r q"
  unfolding apart_def within_def by blast

section \<open>The controls of the dialog\<close>

lemma centered_rect_ok:
  assumes "layout_ok rt" and "rect_valid area"
  obtains r where "centered_rect rt area w h = Some r" "rect_valid r"
proof -
  let ?width = "u16_max (u16_min w (u16_saturating_sub (rect_width area) 2)) 20"
    and ?height = "u16_max (u16_min h (u16_saturating_sub (rect_height area) 2)) 8"
  obtain r0 r1 r2 where r: "rt_split rt Horizontal [Fill_By 1, Length_Is ?width, Fill_By 1] area = [r0, r1, r2]" "rect_valid r1"
    by (rule split_three [OF assms]) blast
  obtain q0 q1 q2 where q: "rt_split rt Vertical [Fill_By 1, Length_Is ?height, Fill_By 1] r1 = [q0, q1, q2]" "rect_valid q1"
    by (rule split_three [OF assms(1) r(2)]) blast
  show ?thesis using that [of q1] r q by (simp add: centered_rect_def list_get_def)
qed

text \<open>The controls of a dialog in the order in which they are drawn, with the target of a click.\<close>

definition dialog_controls :: "edit_modal \<Rightarrow> (widget \<times> modal_click_target) list" where
  "dialog_controls m =
     [(input_field ''String'' StringInput (modal_string_input m) m, TargetStringInput),
      (button ''set'' None m, TargetStringSet),
      (button ''true'' (Some (ascii ''Bool'')) m, TargetBoolTrue),
      (button ''false'' None m, TargetBoolFalse),
      (input_field ''Number'' NumberInput (modal_number_input m) m, TargetNumberInput),
      (button ''set'' None m, TargetNumberSet)]"

lemma draw_modal_controls:
  assumes "layout_ok rt" and "rect_valid area"
  obtains g background footer areas where "draw_modal rt area m = Some (g, background @ zip (map fst (dialog_controls m)) areas @ [footer])"
    and "length background = 3" and "background ! 0 = (Cleared, outer g)" and "length areas = 6"
    and "areas = [string_input g, string_set_button g, bool_true_button g, bool_false_button g, number_input g, number_set_button g]"
    and "sorted_wrt apart areas" and "list_all (\<lambda>r. within r (outer g)) areas"
proof -
  obtain dialog where dialog: "centered_rect rt area 72 15 = Some dialog" "rect_valid dialog"
    by (rule centered_rect_ok [OF assms])
  note inside = inner_ok [OF assms(1) dialog(2), of 1 1]
  obtain r0 r1 r2 r3 r4 where sections:
    "rt_split rt Vertical [Length_Is 1, Length_Is 3, Length_Is 3, Length_Is 3, Min_Is 2] (rt_inner rt 1 1 dialog) = [r0, r1, r2, r3, r4]"
    and valid: "rect_valid r1" "rect_valid r2" "rect_valid r3"
    and inner: "within r1 (rt_inner rt 1 1 dialog)" "within r2 (rt_inner rt 1 1 dialog)" "within r3 (rt_inner rt 1 1 dialog)"
    and apart: "apart r1 r2" "apart r1 r3" "apart r2 r3"
    by (rule split_five [OF assms(1) conjunct1 [OF inside]]) blast
  obtain s0 s1 where s: "rt_split rt Horizontal [Min_Is 1, Length_Is 10] r1 = [s0, s1]" "within s0 r1" "within s1 r1" "apart s0 s1"
    by (rule split_two [OF assms(1) valid(1)])
  obtain b0 b1 b2 where b: "rt_split rt Horizontal [Length_Is 12, Length_Is 12, Min_Is 1] r2 = [b0, b1, b2]"
    "within b0 r2" "within b1 r2" "apart b0 b1"
    by (rule split_three [OF assms(1) valid(2)])
  obtain n0 n1 where n: "rt_split rt Horizontal [Min_Is 1, Length_Is 10] r3 = [n0, n1]" "within n0 r3" "within n1 r3" "apart n0 n1"
    by (rule split_two [OF assms(1) valid(3)])
  let ?areas = "[s0, s1, b0, b1, n0, n1]"
  have distinct: "sorted_wrt apart ?areas"
    using s(4) b(4) n(4) apart_within [OF apart(1) s(2)] apart_within [OF apart(1) s(3)] apart_within [OF apart(2) s(2)]
      apart_within [OF apart(2) s(3)] apart_within [OF apart(3) b(2)] apart_within [OF apart(3) b(3)] b(2,3) n(2,3)
    by simp
  have inside_dialog: "list_all (\<lambda>r. within r dialog) ?areas"
  proof -
    have "within r dialog" if "within r q" "within q (rt_inner rt 1 1 dialog)" for r q
      by (rule within_trans [OF that(1) within_trans [OF that(2) conjunct2 [OF inside]]])
    from this [OF s(2) inner(1)] this [OF s(3) inner(1)] this [OF b(2) inner(2)] this [OF b(3) inner(2)]
      this [OF n(2) inner(3)] this [OF n(3) inner(3)]
    show ?thesis by simp
  qed
  define g where "g = \<lparr>outer = dialog, string_input = s0, string_set_button = s1, bool_true_button = b0,
      bool_false_button = b1, number_input = n0, number_set_button = n1\<rparr>"
  define background where "background = [(Cleared, dialog),
         (Bordered \<lparr>block_title = Some (ascii ''Set Value: '' @ modal_key_name m), block_border = default_style\<rparr>, dialog),
         (Paragraph (ascii ''current: '' @ modal_current_value m) default_style None, r0)]"
  have sections_get: "list_get [r0, r1, r2, r3, r4] 0 = Some r0" "list_get [r0, r1, r2, r3, r4] 1 = Some r1"
    "list_get [r0, r1, r2, r3, r4] 2 = Some r2" "list_get [r0, r1, r2, r3, r4] 3 = Some r3" "list_get [r0, r1, r2, r3, r4] 4 = Some r4"
    by (simp_all add: list_get_def)
  have pair_get: "list_get (q # q' # qs) 0 = Some q" "list_get (q # q' # qs) 1 = Some q'" for q q' :: rect and qs
    by (simp_all add: list_get_def)
  have drawn: "draw_modal rt area m =
      Some (g, background @ zip (map fst (dialog_controls m)) ?areas @ [(Paragraph (footer_text m) (footer_style m) None, r4)])"
    unfolding draw_modal_def dialog(1) sections s(1) b(1) n(1) Let_def bind.bind_lunit sections_get pair_get g_def
      background_def dialog_controls_def
    by (simp only: list.map fst_conv zip_Cons_Cons zip_Nil append.simps)
  show ?thesis
    by (rule that [OF drawn]) (use distinct inside_dialog in \<open>simp_all add: background_def g_def\<close>)
qed

text \<open>A click in the area of a control hits that control, and no other.\<close>

lemma target_of_control:
  assumes apart: "sorted_wrt apart
      [string_input g, string_set_button g, bool_true_button g, bool_false_button g, number_input g, number_set_button g]"
    and i: "i < 6"
    and hit: "contains_point ([string_input g, string_set_button g, bool_true_button g, bool_false_button g, number_input g,
      number_set_button g] ! i) column row"
  shows "target_at g column row = Some (snd (dialog_controls m ! i))"
proof -
  have "sorted_wrt (\<lambda>r s. \<not> (contains_point r column row \<and> contains_point s column row))
      [string_input g, string_set_button g, bool_true_button g, bool_false_button g, number_input g, number_set_button g]"
    by (rule sorted_wrt_mono_rel [OF _ apart]) (simp add: apart_def)
  moreover have "i \<in> {0, 1, 2, 3, 4, 5}" using i by auto
  ultimately show ?thesis
    using hit by (elim insertE emptyE) (simp_all add: target_at_def dialog_controls_def)
qed

text \<open>
  C30: when a dialog is open, drawing the screen does not panic, and the dialog is drawn last with
  its six controls; a click into the area in which a control is drawn has the effect of that
  control, and a click outside the dialog closes it.
\<close>

theorem drawn_controls_react:
  assumes "layout_ok rt" and "rect_valid area" and "app_modal a = Some m"
  shows "\<exists>g background areas footer.
     draw rt now area a = Some (g, background @ zip (map fst (dialog_controls m)) areas @ [footer]) \<and>
     length background = 5 \<and> length areas = 6 \<and> fst (background ! 2) = Cleared \<and>
     (\<forall>i < 6. \<forall>column row. contains_point (areas ! i) column row \<longrightarrow>
        handle_event g (click column row) (a, tx) = (redraw, click_target (snd (dialog_controls m ! i)) (a, tx))) \<and>
     (\<forall>column row. \<not> contains_point (snd (background ! 2)) column row \<longrightarrow>
        handle_event g (click column row) (a, tx) = (redraw, (a\<lparr>app_modal := None\<rparr>, tx)))"
proof -
  obtain mg background footer areas where dialog:
    "draw_modal rt area m = Some (mg, background @ zip (map fst (dialog_controls m)) areas @ [footer])"
    "length background = 3" "background ! 0 = (Cleared, outer mg)" "length areas = 6"
    "areas = [string_input mg, string_set_button mg, bool_true_button mg, bool_false_button mg, number_input mg, number_set_button mg]"
    "sorted_wrt apart areas" "list_all (\<lambda>r. within r (outer mg)) areas"
    by (rule draw_modal_controls [OF assms(1,2), of m])
  obtain status_area table_area where split: "rt_split rt Vertical [Length_Is 3, Min_Is 1] area = [status_area, table_area]"
    by (rule split_two [OF assms(1,2)])
  define g where "g = \<lparr>geometry_table = build_table_geometry rt table_area, geometry_modal = Some mg\<rparr>"
  define widgets where "widgets = [(Paragraph (status_line a) default_style (Some (titled ''Connection'')), status_area),
     (key_table now a, table_area)]"
  have drawn: "draw rt now area a = Some (g, (widgets @ background) @ zip (map fst (dialog_controls m)) areas @ [footer])"
    by (simp add: draw_def split list_get_def assms(3) dialog(1) g_def widgets_def Let_def)
  have react: "handle_event g (click column row) (a, tx) =
      (case target_at mg column row of
         Some target \<Rightarrow> (redraw, click_target target (a, tx))
       | None \<Rightarrow> if \<not> modal_contains mg column row then (redraw, (a\<lparr>app_modal := None\<rparr>, tx)) else (idle, (a, tx)))"
    for column row
    by (simp add: handle_event_def click_def handle_mouse_event_def g_def)
  have hit: "target_at mg column row = Some (snd (dialog_controls m ! i))"
    if "i < 6" "contains_point (areas ! i) column row" for i column row
    using target_of_control [of mg i column row m] that dialog(6) unfolding dialog(5) by blast
  have miss: "target_at mg column row = None" if "\<not> contains_point (outer mg) column row" for column row
    using that dialog(7) unfolding dialog(5) by (auto simp: target_at_def within_def)
  have cleared: "(widgets @ background) ! 2 = (Cleared, outer mg)"
    using dialog(3) by (simp add: widgets_def)
  show ?thesis
  proof (intro exI conjI)
    show "draw rt now area a = Some (g, (widgets @ background) @ zip (map fst (dialog_controls m)) areas @ [footer])" by (rule drawn)
    show "length (widgets @ background) = 5" "length areas = 6" using dialog(2,4) by (simp_all add: widgets_def)
    show "fst ((widgets @ background) ! 2) = Cleared" using cleared by simp
    show "\<forall>i < 6. \<forall>column row. contains_point (areas ! i) column row \<longrightarrow>
        handle_event g (click column row) (a, tx) = (redraw, click_target (snd (dialog_controls m ! i)) (a, tx))"
      by (simp add: react hit)
    show "\<forall>column row. \<not> contains_point (snd ((widgets @ background) ! 2)) column row \<longrightarrow>
        handle_event g (click column row) (a, tx) = (redraw, (a\<lparr>app_modal := None\<rparr>, tx))"
      using cleared by (simp add: react miss modal_contains_def)
  qed
qed

text \<open>
  A layout that serves the constraints in their order, as far as the area goes; a minimum takes
  what the lengths after it leave.
\<close>

definition reserved :: "constraint list \<Rightarrow> nat" where
  "reserved cs = sum_list (map (\<lambda>c. case c of Length_Is k \<Rightarrow> unat k | _ \<Rightarrow> 0) cs)"

definition served :: "constraint \<Rightarrow> constraint list \<Rightarrow> nat \<Rightarrow> nat" where
  "served c cs rest =
     (case c of
        Length_Is k \<Rightarrow> min (unat k) rest
      | Min_Is k \<Rightarrow> max (min (unat k) rest) (rest - reserved cs)
      | Fill_By _ \<Rightarrow> (rest - reserved cs) div 2)"

fun spans :: "constraint list \<Rightarrow> nat \<Rightarrow> nat \<Rightarrow> (nat \<times> nat) list" where
  "spans [] pos rest = []"
| "spans (c # cs) pos rest =
     (let n = served c cs rest in (pos, n) # spans cs (pos + n) (rest - n))"

definition sample_split :: "layout_direction \<Rightarrow> constraint list \<Rightarrow> rect \<Rightarrow> rect list" where
  "sample_split d cs area =
     (case d of
        Vertical \<Rightarrow> map (\<lambda>(pos, n). area\<lparr>rect_y := word_of_nat pos, rect_height := word_of_nat n\<rparr>)
          (spans cs (unat (rect_y area)) (unat (rect_height area)))
      | Horizontal \<Rightarrow> map (\<lambda>(pos, n). area\<lparr>rect_x := word_of_nat pos, rect_width := word_of_nat n\<rparr>)
          (spans cs (unat (rect_x area)) (unat (rect_width area))))"

definition sample_inner :: "u16 \<Rightarrow> u16 \<Rightarrow> rect \<Rightarrow> rect" where
  "sample_inner h v area =
     (if 2 * unat h \<le> unat (rect_width area) \<and> 2 * unat v \<le> unat (rect_height area)
      then \<lparr>rect_x = rect_x area + h, rect_y = rect_y area + v, rect_width = rect_width area - 2 * h,
         rect_height = rect_height area - 2 * v\<rparr>
      else area\<lparr>rect_width := 0, rect_height := 0\<rparr>)"

definition sample_ratatui :: ratatui where
  "sample_ratatui = \<lparr>rt_split = sample_split, rt_inner = sample_inner,
     rt_rect = (\<lambda>x y w h. \<lparr>rect_x = x, rect_y = y, rect_width = w, rect_height = h\<rparr>)\<rparr>"

lemma contains_point_nat:
  "rect_valid r \<Longrightarrow> contains_point r column row \<longleftrightarrow>
     unat (rect_x r) \<le> unat column \<and> unat column < unat (rect_x r) + unat (rect_width r) \<and>
     unat (rect_y r) \<le> unat row \<and> unat row < unat (rect_y r) + unat (rect_height r)"
  by (simp add: contains_point_def u16_saturating_add_def rect_valid_def word_le_nat_alt word_less_nat_alt unat_word_ariths)

lemma spans_bounds: "(p, n) \<in> set (spans cs pos rest) \<Longrightarrow> pos \<le> p \<and> p + n \<le> pos + rest"
proof (induction cs arbitrary: pos rest)
  case (Cons c cs)
  define k where "k = served c cs rest"
  have "k \<le> rest" by (auto simp: k_def served_def split: constraint.split)
  moreover have "(p, n) = (pos, k) \<or> (p, n) \<in> set (spans cs (pos + k) (rest - k))"
    using Cons.prems by (simp add: k_def Let_def)
  ultimately show ?case using Cons.IH [of "pos + k" "rest - k"] by auto
qed simp

lemma spans_sorted: "sorted_wrt (\<lambda>a b. fst a + snd a \<le> fst b) (spans cs pos rest)"
  by (induction cs arbitrary: pos rest) (auto simp: Let_def dest: spans_bounds)

lemma spans_length: "length (spans cs pos rest) = length cs"
  by (induction cs arbitrary: pos rest) (simp_all add: Let_def)

lemma sample_piece_vertical:
  assumes "rect_valid area" and "unat (rect_y area) \<le> p" and "p + n \<le> unat (rect_y area) + unat (rect_height area)"
  shows "rect_valid (area\<lparr>rect_y := word_of_nat p, rect_height := word_of_nat n\<rparr>)"
    and "contains_point (area\<lparr>rect_y := word_of_nat p, rect_height := word_of_nat n\<rparr>) column row \<longleftrightarrow>
      unat (rect_x area) \<le> unat column \<and> unat column < unat (rect_x area) + unat (rect_width area) \<and>
      p \<le> unat row \<and> unat row < p + n"
proof -
  let ?r = "area\<lparr>rect_y := word_of_nat p, rect_height := word_of_nat n\<rparr>"
  have small: "p < 2 ^ 16" "n < 2 ^ 16" "p + n < 2 ^ 16" using assms by (simp_all add: rect_valid_def)
  then have nats: "unat (rect_y ?r) = p" "unat (rect_height ?r) = n" by (simp_all add: unat_of_nat)
  show valid: "rect_valid ?r" using assms(1) small nats by (simp add: rect_valid_def)
  show "contains_point ?r column row \<longleftrightarrow>
      unat (rect_x area) \<le> unat column \<and> unat column < unat (rect_x area) + unat (rect_width area) \<and>
      p \<le> unat row \<and> unat row < p + n"
    unfolding contains_point_nat [OF valid] nats by simp
qed

lemma sample_piece_horizontal:
  assumes "rect_valid area" and "unat (rect_x area) \<le> p" and "p + n \<le> unat (rect_x area) + unat (rect_width area)"
  shows "rect_valid (area\<lparr>rect_x := word_of_nat p, rect_width := word_of_nat n\<rparr>)"
    and "contains_point (area\<lparr>rect_x := word_of_nat p, rect_width := word_of_nat n\<rparr>) column row \<longleftrightarrow>
      p \<le> unat column \<and> unat column < p + n \<and>
      unat (rect_y area) \<le> unat row \<and> unat row < unat (rect_y area) + unat (rect_height area)"
proof -
  let ?r = "area\<lparr>rect_x := word_of_nat p, rect_width := word_of_nat n\<rparr>"
  have small: "p < 2 ^ 16" "n < 2 ^ 16" "p + n < 2 ^ 16" using assms by (simp_all add: rect_valid_def)
  then have nats: "unat (rect_x ?r) = p" "unat (rect_width ?r) = n" by (simp_all add: unat_of_nat)
  show valid: "rect_valid ?r" using assms(1) small nats by (simp add: rect_valid_def)
  show "contains_point ?r column row \<longleftrightarrow> p \<le> unat column \<and> unat column < p + n \<and>
      unat (rect_y area) \<le> unat row \<and> unat row < unat (rect_y area) + unat (rect_height area)"
    unfolding contains_point_nat [OF valid] nats by simp
qed

lemma sample_split_ok:
  assumes "rect_valid area"
  shows "list_all (\<lambda>r. rect_valid r \<and> within r area) (sample_split d cs area) \<and> sorted_wrt apart (sample_split d cs area)"
proof (cases d)
  case Vertical
  let ?spans = "spans cs (unat (rect_y area)) (unat (rect_height area))"
    and ?piece = "\<lambda>(pos, n). area\<lparr>rect_y := word_of_nat pos, rect_height := word_of_nat n\<rparr>"
  note piece = sample_piece_vertical [OF assms]
  have bounds: "unat (rect_y area) \<le> fst b" "fst b + snd b \<le> unat (rect_y area) + unat (rect_height area)"
    if "b \<in> set ?spans" for b
    using spans_bounds [of "fst b" "snd b" cs "unat (rect_y area)" "unat (rect_height area)"] that by simp_all
  have "rect_valid (?piece b) \<and> within (?piece b) area" if "b \<in> set ?spans" for b
    using piece(1) [OF bounds [OF that]] bounds [OF that]
    by (auto simp: within_def piece(2) [OF bounds [OF that]] contains_point_nat [OF assms] case_prod_beta)
  moreover have "sorted_wrt (\<lambda>b c. apart (?piece b) (?piece c)) ?spans"
    by (rule sorted_wrt_mono_rel [OF _ spans_sorted]) (auto simp: apart_def case_prod_beta piece(2) [OF bounds])
  ultimately show ?thesis by (simp add: sample_split_def Vertical list_all_iff sorted_wrt_map)
next
  case Horizontal
  let ?spans = "spans cs (unat (rect_x area)) (unat (rect_width area))"
    and ?piece = "\<lambda>(pos, n). area\<lparr>rect_x := word_of_nat pos, rect_width := word_of_nat n\<rparr>"
  note piece = sample_piece_horizontal [OF assms]
  have bounds: "unat (rect_x area) \<le> fst b" "fst b + snd b \<le> unat (rect_x area) + unat (rect_width area)"
    if "b \<in> set ?spans" for b
    using spans_bounds [of "fst b" "snd b" cs "unat (rect_x area)" "unat (rect_width area)"] that by simp_all
  have "rect_valid (?piece b) \<and> within (?piece b) area" if "b \<in> set ?spans" for b
    using piece(1) [OF bounds [OF that]] bounds [OF that]
    by (auto simp: within_def piece(2) [OF bounds [OF that]] contains_point_nat [OF assms] case_prod_beta)
  moreover have "sorted_wrt (\<lambda>b c. apart (?piece b) (?piece c)) ?spans"
    by (rule sorted_wrt_mono_rel [OF _ spans_sorted]) (auto simp: apart_def case_prod_beta piece(2) [OF bounds])
  ultimately show ?thesis by (simp add: sample_split_def Horizontal list_all_iff sorted_wrt_map)
qed

lemma sample_inner_ok:
  assumes "rect_valid area"
  shows "rect_valid (sample_inner h v area) \<and> within (sample_inner h v area) area"
proof (cases "2 * unat h \<le> unat (rect_width area) \<and> 2 * unat v \<le> unat (rect_height area)")
  case True
  let ?r = "sample_inner h v area"
  have r: "?r = \<lparr>rect_x = rect_x area + h, rect_y = rect_y area + v, rect_width = rect_width area - 2 * h,
      rect_height = rect_height area - 2 * v\<rparr>"
    using True by (simp add: sample_inner_def)
  have double: "unat (2 * h) = 2 * unat h" "unat (2 * v) = 2 * unat v"
    using True assms by (simp_all add: rect_valid_def unat_word_ariths)
  then have "2 * h \<le> rect_width area" "2 * v \<le> rect_height area" using True by (simp_all add: word_le_nat_alt)
  then have nats: "unat (rect_x ?r) = unat (rect_x area) + unat h" "unat (rect_y ?r) = unat (rect_y area) + unat v"
    "unat (rect_width ?r) = unat (rect_width area) - 2 * unat h" "unat (rect_height ?r) = unat (rect_height area) - 2 * unat v"
    using True assms double by (simp_all add: r rect_valid_def unat_word_ariths unat_sub)
  then have valid: "rect_valid ?r" using True assms by (auto simp: rect_valid_def)
  then show ?thesis
    using True by (auto simp: within_def contains_point_nat [OF valid] contains_point_nat [OF assms] nats)
next
  case False
  then have r: "sample_inner h v area = area\<lparr>rect_width := 0, rect_height := 0\<rparr>" by (auto simp: sample_inner_def)
  have valid: "rect_valid (area\<lparr>rect_width := 0, rect_height := 0\<rparr>)" using assms by (simp add: rect_valid_def)
  have "\<not> contains_point (area\<lparr>rect_width := 0, rect_height := 0\<rparr>) column row" for column row
    by (simp add: contains_point_nat [OF valid])
  then show ?thesis using valid by (simp add: r within_def)
qed

lemma sample_ratatui_ok: "layout_ok sample_ratatui"
proof -
  have "length (sample_split d cs area) = length cs" for d cs area
    by (simp add: sample_split_def spans_length split: layout_direction.split)
  then show ?thesis
    using sample_split_ok sample_inner_ok by (simp add: layout_ok_def sample_ratatui_def)
qed

definition sample_screen :: rect where
  "sample_screen = \<lparr>rect_x = 0, rect_y = 0, rect_width = 90, rect_height = 30\<rparr>"

abbreviation area_at :: "u16 \<Rightarrow> u16 \<Rightarrow> u16 \<Rightarrow> u16 \<Rightarrow> rect" where
  "area_at x y w h \<equiv> \<lparr>rect_x = x, rect_y = y, rect_width = w, rect_height = h\<rparr>"

lemma sample_dialog: "centered_rect sample_ratatui sample_screen 72 15 = Some (area_at 9 7 72 15)"
  by code_simp

lemma sample_areas:
  "rt_inner sample_ratatui 1 1 (area_at 9 7 72 15) = area_at 10 8 70 13"
  "rt_split sample_ratatui Vertical [Length_Is 1, Length_Is 3, Length_Is 3, Length_Is 3, Min_Is 2] (area_at 10 8 70 13) =
     [area_at 10 8 70 1, area_at 10 9 70 3, area_at 10 12 70 3, area_at 10 15 70 3, area_at 10 18 70 3]"
  "rt_split sample_ratatui Horizontal [Min_Is 1, Length_Is 10] (area_at 10 9 70 3) = [area_at 10 9 60 3, area_at 70 9 10 3]"
  "rt_split sample_ratatui Horizontal [Length_Is 12, Length_Is 12, Min_Is 1] (area_at 10 12 70 3) =
     [area_at 10 12 12 3, area_at 22 12 12 3, area_at 34 12 46 3]"
  "rt_split sample_ratatui Horizontal [Min_Is 1, Length_Is 10] (area_at 10 15 70 3) = [area_at 10 15 60 3, area_at 70 15 10 3]"
  "rt_split sample_ratatui Vertical [Length_Is 3, Min_Is 1] sample_screen = [area_at 0 0 90 3, area_at 0 3 90 27]"
  by code_simp+

text \<open>The button \<open>true\<close> is drawn at column 10, row 12.\<close>

lemma sample_areas_drawn:
  assumes "draw sample_ratatui 0 sample_screen a = Some (g, screen)" and "app_modal a = Some m"
  shows "map snd screen = [area_at 0 0 90 3, area_at 0 3 90 27, area_at 9 7 72 15, area_at 9 7 72 15, area_at 10 8 70 1,
    area_at 10 9 60 3, area_at 70 9 10 3, area_at 10 12 12 3, area_at 22 12 12 3, area_at 10 15 60 3, area_at 70 15 10 3,
    area_at 10 18 70 3]"
  using assms by (auto simp: draw_def draw_modal_def sample_areas sample_dialog Let_def list_get_def)

lemma drawn_controls_react_witness:
  "\<exists>g screen. draw sample_ratatui 0 sample_screen sample_app = Some (g, screen) \<and>
     handle_event g (click 10 12) (sample_app, \<lparr>tx_sent = [], tx_closed = False\<rparr>) =
       (redraw, submit_bool_modal True (sample_app, \<lparr>tx_sent = [], tx_closed = False\<rparr>))"
proof -
  let ?m = "(modal_from_row sample_row)\<lparr>modal_focus_of := NumberInput\<rparr>"
  have valid: "rect_valid sample_screen" by (simp add: rect_valid_def sample_screen_def)
  have modal: "app_modal sample_app = Some ?m" by (simp add: sample_app_def)
  obtain g background areas footer where drawn:
    "draw sample_ratatui 0 sample_screen sample_app = Some (g, background @ zip (map fst (dialog_controls ?m)) areas @ [footer])"
    "length background = 5" "length areas = 6"
    and click: "\<And>i column row. i < 6 \<Longrightarrow> contains_point (areas ! i) column row \<Longrightarrow>
      handle_event g (click column row) (sample_app, \<lparr>tx_sent = [], tx_closed = False\<rparr>) =
        (redraw, click_target (snd (dialog_controls ?m ! i)) (sample_app, \<lparr>tx_sent = [], tx_closed = False\<rparr>))"
    using drawn_controls_react [OF sample_ratatui_ok valid modal, of 0 "\<lparr>tx_sent = [], tx_closed = False\<rparr>"] by blast
  have "map snd (zip (map fst (dialog_controls ?m)) areas) = areas" using drawn(3) by (simp add: dialog_controls_def)
  then have "areas = take 6 (drop 5 (map snd (background @ zip (map fst (dialog_controls ?m)) areas @ [footer])))"
    using drawn(2,3) by simp
  then have "areas ! 2 = area_at 10 12 12 3" unfolding sample_areas_drawn [OF drawn(1) modal] by simp
  then have "contains_point (areas ! 2) 10 12" by (simp add: contains_point_def u16_saturating_add_def)
  then show ?thesis using click [of 2 10 12] drawn(1) by (auto simp: dialog_controls_def click_target_def)
qed

end
