(* ===== verification/Tui_Loop.thy ===== *)
theory Tui_Loop
  imports Tui_Dialog
begin

text \<open>
  The main loop of the viewer: it refines the event steps, with input that always meets the
  screen drawn for the present state; and the modes in which the program leaves the terminal.
\<close>

section \<open>The loop refines the event steps\<close>

text \<open>A reaction that asks for no redraw leaves the state of the viewer as it is drawn.\<close>

lemma unchanged_modal_key:
  "\<not> needs_redraw (fst (handle_modal_key_event key s)) \<Longrightarrow> snd (handle_modal_key_event key s) = s"
  by (cases s) (simp add: handle_modal_key_event_def split: option.splits key_code.splits if_splits)

lemma unchanged_key: "\<not> needs_redraw (fst (handle_key_event key s)) \<Longrightarrow> fst (snd (handle_key_event key s)) = fst s"
  using unchanged_modal_key [of key s]
  by (cases s) (simp add: handle_key_event_def split: if_splits)

lemma unchanged_row: "\<not> needs_redraw (fst (click_row g column row s)) \<Longrightarrow> snd (click_row g column row s) = s"
  by (cases s) (auto simp: click_row_def split: option.splits if_splits)

lemma unchanged_mouse: "\<not> needs_redraw (fst (handle_mouse_event g mouse s)) \<Longrightarrow> fst (snd (handle_mouse_event g mouse s)) = fst s"
  by (cases s, cases "geometry_modal g", cases "geometry_table g")
    (auto simp: handle_mouse_event_def unchanged_row split: option.splits if_splits)

lemma unchanged_without_redraw:
  "\<not> needs_redraw (fst (handle_event g event s)) \<Longrightarrow> fst (snd (handle_event g event s)) = fst s"
  by (cases event) (simp_all add: handle_event_def unchanged_key unchanged_mouse)

definition drawn_from :: "ratatui \<Rightarrow> app \<Rightarrow> ui_geometry \<Rightarrow> screen \<Rightarrow> bool" where
  "drawn_from rt a g screen \<longleftrightarrow> (\<exists>now area. draw rt now area a = Some (g, screen))"

text \<open>Every input event meets a geometry drawn for the state in which it is handled.\<close>

definition inputs_meet_screen :: "ratatui \<Rightarrow> app \<times> command_tx \<Rightarrow> viewer_event list \<Rightarrow> bool" where
  "inputs_meet_screen rt s events \<longleftrightarrow>
     (\<forall>pre g event post. events = pre @ Terminal g event # post \<longrightarrow>
        (\<exists>screen. drawn_from rt (fst (viewer_run pre s)) g screen))"

lemma viewer_run_append: "viewer_run (xs @ ys) s = viewer_run ys (viewer_run xs s)"
  by (simp add: viewer_run_def)

lemma inputs_meet_screen_Nil: "inputs_meet_screen rt s []"
  by (simp add: inputs_meet_screen_def)

lemma inputs_meet_screen_snoc:
  assumes "inputs_meet_screen rt s events"
    and "\<And>g event. e = Terminal g event \<Longrightarrow> \<exists>screen. drawn_from rt (fst (viewer_run events s)) g screen"
  shows "inputs_meet_screen rt s (events @ [e])"
  unfolding inputs_meet_screen_def
proof (intro allI impI)
  fix pre g event post
  assume split: "events @ [e] = pre @ Terminal g event # post"
  show "\<exists>screen. drawn_from rt (fst (viewer_run pre s)) g screen"
  proof (cases post rule: rev_cases)
    case Nil
    then show ?thesis using split assms(2) by simp
  next
    case (snoc post' x)
    then have "events = pre @ Terminal g event # post'" using split by simp
    then show ?thesis using assms(1) unfolding inputs_meet_screen_def by blast
  qed
qed

text \<open>What holds before and after every turn of the loop.\<close>

definition loop_inv :: "ratatui \<Rightarrow> app \<times> command_tx \<Rightarrow> viewer \<Rightarrow> bool" where
  "loop_inv rt s v \<longleftrightarrow>
     (\<exists>events. (vw_app v, vw_tx v) = viewer_run events s \<and> inputs_meet_screen rt s events) \<and>
     (vw_needs_redraw v \<or> drawn_from rt (vw_app v) (vw_geometry v) (vw_screen v))"

lemma loop_inv_event:
  assumes "loop_inv rt s v" and "viewer_step e (vw_app v, vw_tx v) = (a, tx)"
    and "\<And>g event. e = Terminal g event \<Longrightarrow> \<exists>screen. drawn_from rt (vw_app v) g screen"
    and "vw_app v' = a" and "vw_tx v' = tx"
    and "vw_needs_redraw v' \<or> drawn_from rt a (vw_geometry v') (vw_screen v')"
  shows "loop_inv rt s v'"
proof -
  obtain events where events: "(vw_app v, vw_tx v) = viewer_run events s" "inputs_meet_screen rt s events"
    using assms(1) by (auto simp: loop_inv_def)
  have "viewer_run (events @ [e]) s = (a, tx)" using events(1) assms(2) by (simp add: viewer_run_def)
  moreover have "inputs_meet_screen rt s (events @ [e])"
  proof (rule inputs_meet_screen_snoc [OF events(2)])
    show "\<exists>screen. drawn_from rt (fst (viewer_run events s)) g screen" if "e = Terminal g event" for g event
      using assms(3) [OF that] by (simp flip: events(1))
  qed
  ultimately show ?thesis unfolding loop_inv_def using assms(4-6) by metis
qed

lemma receive_updates_inv: "loop_inv rt s v \<Longrightarrow> loop_inv rt s (receive_updates t v)"
proof -
  have "loop_inv rt s v \<Longrightarrow> vw_needs_redraw v \<Longrightarrow> loop_inv rt s (v\<lparr>vw_app := fold apply_update us (vw_app v)\<rparr>)" for us v
  proof (induction us arbitrary: v)
    case (Cons u us)
    have "loop_inv rt s (v\<lparr>vw_app := apply_update u (vw_app v)\<rparr>)"
      by (rule loop_inv_event [OF Cons.prems(1), where e = "Network u"]) (use Cons.prems(2) in simp_all)
    then show ?case using Cons.IH [of "v\<lparr>vw_app := apply_update u (vw_app v)\<rparr>"] Cons.prems(2) by simp
  qed simp
  from this [of "v\<lparr>vw_needs_redraw := True\<rparr>" "turn_updates t"]
  show "loop_inv rt s v \<Longrightarrow> loop_inv rt s (receive_updates t v)"
    by (cases "turn_updates t") (auto simp: receive_updates_def loop_inv_def)
qed

lemma tick_clock_inv: "loop_inv rt s v \<Longrightarrow> loop_inv rt s (tick_clock t v)"
  by (auto simp: tick_clock_def loop_inv_def)

lemma redraw_screen_inv:
  assumes "loop_inv rt s v" and "redraw_screen rt t v = (r, v')"
  shows "loop_inv rt s v'" and "r = Goes_On \<Longrightarrow> drawn_from rt (vw_app v') (vw_geometry v') (vw_screen v')"
proof -
  have drawn: "draw rt (turn_now t) area (vw_app v) = Some (g, screen) \<Longrightarrow> drawn_from rt (vw_app v) g screen" for area g screen
    unfolding drawn_from_def by blast
  show "loop_inv rt s v'" "r = Goes_On \<Longrightarrow> drawn_from rt (vw_app v') (vw_geometry v') (vw_screen v')"
    using assms drawn by (auto simp: redraw_screen_def loop_inv_def split: if_splits sum.splits option.splits)
qed

lemma take_input_inv:
  assumes inv: "loop_inv rt s v" and drawn: "drawn_from rt (vw_app v) (vw_geometry v) (vw_screen v)"
    and step: "take_input t v = (r, v')"
  shows "loop_inv rt s v'"
proof (cases "turn_poll t")
  case (Inr polled)
  show ?thesis
  proof (cases polled)
    case (Some event)
    let ?tx = "(vw_tx v)\<lparr>tx_closed := tx_closed (vw_tx v) \<or> turn_worker_gone t\<rparr>"
    have before: "loop_inv rt s (v\<lparr>vw_tx := ?tx\<rparr>)"
    proof (cases "turn_worker_gone t")
      case True
      show ?thesis
        by (rule loop_inv_event [OF inv, where e = Worker_Stops and a = "vw_app v"]) (use True drawn in simp_all)
    qed (use inv in simp)
    obtain outcome a tx where handled: "handle_event (vw_geometry v) event (vw_app v, ?tx) = (outcome, (a, tx))"
      by (metis prod.collapse)
    have v': "v' = v\<lparr>vw_app := a, vw_tx := tx, vw_needs_redraw := vw_needs_redraw v \<or> needs_redraw outcome\<rparr>"
      using step Inr Some handled by (simp add: take_input_def)
    have "needs_redraw outcome \<or> a = vw_app v"
      using unchanged_without_redraw [of "vw_geometry v" event "(vw_app v, ?tx)"] handled by auto
    then have shown: "vw_needs_redraw v' \<or> drawn_from rt a (vw_geometry v') (vw_screen v')"
      using drawn by (auto simp: v')
    show ?thesis
      by (rule loop_inv_event [OF before, where e = "Terminal (vw_geometry v) event"])
        (use handled drawn shown in \<open>auto simp: v'\<close>)
  qed (use step Inr inv in \<open>simp add: take_input_def\<close>)
qed (use step inv in \<open>simp add: take_input_def\<close>)

lemma viewer_turn_inv:
  assumes "loop_inv rt s v" and "viewer_turn rt t v = (r, v')"
  shows "loop_inv rt s v'"
proof -
  let ?v = "tick_clock t (receive_updates t v)"
  obtain r1 v1 where drawing: "redraw_screen rt t ?v = (r1, v1)" by fastforce
  have inv: "loop_inv rt s v1" "r1 = Goes_On \<Longrightarrow> drawn_from rt (vw_app v1) (vw_geometry v1) (vw_screen v1)"
    using redraw_screen_inv [OF tick_clock_inv [OF receive_updates_inv [OF assms(1)]] drawing] by blast+
  show ?thesis
    using assms(2) inv take_input_inv [OF inv(1)] unfolding viewer_turn_def drawing
    by (cases r1) auto
qed

lemma viewer_loop_inv: "loop_inv rt s v \<Longrightarrow> viewer_loop rt turns v = (r, v') \<Longrightarrow> loop_inv rt s v'"
  by (induction turns arbitrary: v) (auto dest: viewer_turn_inv split: prod.splits turn_result.splits)

lemma viewer_init_redraws: "vw_needs_redraw (viewer_init addr retry_secs now)"
  by (simp add: viewer_init_def)

lemma viewer_init_inv: "loop_inv rt (viewer_start addr retry_secs) (viewer_init addr retry_secs now)"
proof -
  have "(vw_app (viewer_init addr retry_secs now), vw_tx (viewer_init addr retry_secs now)) =
      viewer_run [] (viewer_start addr retry_secs)"
    by (simp add: viewer_init_def viewer_start_def viewer_run_def)
  then show ?thesis
    unfolding loop_inv_def using inputs_meet_screen_Nil [of rt "viewer_start addr retry_secs"]
    by (metis (no_types) viewer_init_redraws)
qed

text \<open>
  C12: whatever updates and input arrive and however often the screen is redrawn, the main loop
  does what a sequence of the viewer's event steps does, in which every terminal event meets the
  geometry of a screen drawn for the very state in which it is handled; and unless a redraw is
  due, what the terminal shows is drawn from the present state.
\<close>

theorem viewer_loop_refines:
  "let v = snd (viewer_loop rt turns (viewer_init addr retry_secs now)) in
     (\<exists>events. (vw_app v, vw_tx v) = viewer_run events (viewer_start addr retry_secs) \<and>
        inputs_meet_screen rt (viewer_start addr retry_secs) events) \<and>
     app_inv (vw_app v) \<and>
     (vw_needs_redraw v \<or> drawn_from rt (vw_app v) (vw_geometry v) (vw_screen v))"
proof -
  let ?s = "viewer_start addr retry_secs" and ?v = "snd (viewer_loop rt turns (viewer_init addr retry_secs now))"
  have inv: "loop_inv rt ?s ?v" by (rule viewer_loop_inv [OF viewer_init_inv]) (rule prod.collapse [symmetric])
  then obtain events where "(vw_app ?v, vw_tx ?v) = viewer_run events ?s" by (auto simp: loop_inv_def)
  then have "app_inv (vw_app ?v)" using viewer_run_inv [OF viewer_start_inv, of events addr retry_secs] by (metis fst_conv)
  then show ?thesis using inv by (simp add: Let_def loop_inv_def)
qed

section \<open>The modes of the terminal\<close>

lemma tui_drop_restores:
  "fails ShowCursor = None \<Longrightarrow> fails DisableRawMode = None \<Longrightarrow> fails DisableMouseCapture = None \<Longrightarrow>
     fails LeaveAlternateScreen = None \<Longrightarrow> tui_drop fails t = shell_modes"
  by (simp add: tui_drop_def shell_modes_def)

lemma tui_new_failed:
  "tui_new fails shell_modes = (Some e, t) \<Longrightarrow> raw_mode t \<longleftrightarrow> fails EnableRawMode = None"
  "tui_new fails shell_modes = (Some e, t) \<Longrightarrow> fails EnableRawMode \<noteq> None \<Longrightarrow> t = shell_modes"
  by (auto simp: tui_new_def shell_modes_def split: option.splits)

text \<open>
  C32: when the viewer ends, by quitting, by an error of the terminal or by a panic, the terminal
  is back in the modes of the shell, provided that the operations that leave the modes succeed
  and that the viewer had started; when setting up the terminal fails after raw mode has been
  switched on, the shell is left in raw mode.
\<close>

theorem terminal_restored_iff_started:
  assumes "tui_main rt fails addr retry_secs now turns shell_modes = (r, modes, started)" and "r \<noteq> Goes_On"
    and "fails ShowCursor = None" "fails DisableRawMode = None" "fails DisableMouseCapture = None"
      "fails LeaveAlternateScreen = None"
  shows "modes = shell_modes \<longleftrightarrow> started \<noteq> None \<or> fails EnableRawMode \<noteq> None"
proof (cases "tui_new fails shell_modes")
  case (Pair err t)
  show ?thesis
  proof (cases err)
    case None
    obtain r' v where loop: "viewer_loop rt turns (viewer_init addr retry_secs now) = (r', v)" by fastforce
    then have "modes = tui_drop fails t \<and> started \<noteq> None"
      using assms(1,2) Pair None by (cases r') (auto simp: tui_main_def)
    then show ?thesis using tui_drop_restores [OF assms(3-6)] by simp
  next
    case (Some e)
    then have "modes = t" "started = None" using assms(1) Pair by (auto simp: tui_main_def)
    then show ?thesis
      using tui_new_failed [of fails e t] Pair Some by (auto simp: shell_modes_def)
  qed
qed

definition clear_fails :: "terminal_op \<Rightarrow> unit option" where
  "clear_fails op = (if op = ClearTerminal then Some () else None)"

lemma terminal_restored_iff_started_witness:
  "\<exists>modes. tui_main sample_ratatui clear_fails [] 3 0 [] shell_modes = (Fails (), modes, None) \<and> modes \<noteq> shell_modes \<and> raw_mode modes"
proof -
  have main: "tui_main sample_ratatui clear_fails [] 3 0 [] shell_modes =
      (Fails (), \<lparr>raw_mode = True, alternate_screen = True, mouse_capture = True, cursor_hidden = False\<rparr>, None)"
    by (simp add: tui_main_def tui_new_def clear_fails_def shell_modes_def)
  show ?thesis using terminal_restored_iff_started [OF main] main by (simp add: clear_fails_def)
qed

end
