(* ===== verification/Spec2Isabelle.thy ===== *)
theory Spec2Isabelle
  imports Test_Node_Race Test_Node_Main Embassy_Client Embassy_Derive Test_Cli_Props Tui_Connect Tui_Loop
begin

text \<open>
  A verification of the QUP workspace: the wire protocol crate \<open>qup-core\<close>, the host client
  \<open>qup\<close>, the device-side server \<open>qup-embassy\<close> with its derive macro \<open>qup-embassy-proc\<close>, and the
  tools around them, the test node \<open>qup-test-node\<close>, the command line tool \<open>qup-test-cli\<close> and the
  viewer \<open>qup-test-tui\<close>.

  \<^bold>\<open>How the parts interact.\<close> A client and a node exchange frames \<open>opcode | length | payload |
  checksum\<close> over a byte stream. \<open>qup-core\<close> defines the opcodes, the payload fields, the
  capability string, the messages and the frames, and reads frames from a stream. The client
  sends request frames and reads messages until the response has come. A node answers every
  request by one frame and announces changes of observed keys by CHANGED frames in between.
  There are two nodes: the test node, which shares one key table between TCP connections, and
  the embassy server, which serves one stream over static keys that other tasks may set. Two
  programs use the client: the command line tool prints what it receives, and the viewer has a
  worker task, which keeps a connection and turns notifications into reads, and a terminal loop,
  which shows the worker's events and sends it commands.

  \<^bold>\<open>Conventions.\<close> Machine integers are words (\<open>i64\<close> a 64-bit word read with \<open>sint\<close>); a \<open>str\<close> is
  its UTF-8 bytes. A \<open>Result\<close> is a sum, errors being datatypes with the constructors of the
  source (formatted texts are represented by what they are formatted from). An operation with
  \<open>&mut\<close> state is an \<open>action\<close>: it returns its result and the new state. A panic is the error
  \<open>Panic\<close> of the type \<open>fault\<close> (in the test node the value \<open>None\<close>), and a loop that need not
  end is a \<open>proc\<close>, where \<open>None\<close> is the run that does not return; no fuel is used. Loops of the
  sources that end have a termination proof. Transports are parameters: a reader and a writer
  acting on the state of a stream, with their contract in the locales \<open>byte_source\<close> (Transport)
  and \<open>embassy_env\<close> (Embassy_Env), which \<open>embassy_link\<close> (Embassy_Link) extends by the delivery of a
  client's bytes.

  \<^bold>\<open>The theories and the code they model.\<close>
  \<^item> Prelude, Utf8: results, actions, big-endian fields, saturating addition; the UTF-8 check of
    \<open>core::str::from_utf8\<close> with the place of its error.
  \<^item> Opcodes (\<open>qup-core/src/types/opcode.rs\<close>, \<open>error.rs\<close>), Payload (\<open>cursor.rs\<close>, \<open>scalar.rs\<close>,
    \<open>value.rs\<close>), Caps (\<open>caps.rs\<close>), Messages (\<open>message.rs\<close>), Frames (\<open>frame.rs\<close>,
    \<open>parser/frame.rs\<close>, \<open>parser/checksum.rs\<close>): decoders are shown to accept exactly the byte
    layout of the protocol, which is given as an encoder, and to return what was encoded.
  \<^item> Transport (\<open>qup-core/src/io/sync.rs\<close>, \<open>asynch.rs\<close>): reading a frame off a stream; the
    reader that delivers chunks is the instance of \<open>byte_source\<close>.
  \<^item> Client (\<open>qup/src/client.rs\<close>): the requests, what is sent, and what responses are taken;
    Client_Timeout the timeout of \<open>next_message\<close>, whose future is dropped in one of its reads.
    The locales \<open>client_host\<close> and \<open>recorded_host\<close> state what the programs use of a host: a
    stream in order, timers that may fire, and writes that return or leave what is to be read.
  \<^item> Std_Text, Std_Escape: parsing and printing of integers, characters, \<open>escape_debug\<close> over
    parameter tables of \<open>core\<close>; Error_Text: the texts of the error types and of messages.
  \<^item> Test_Node (\<open>qup-test-node/src/main.rs\<close>): key table, shared state, registry, dispatch and
    background updates; Test_Node_Facts specifies a request by its response and its effects;
    Test_Node_Run is the step relation of the node with its invariant, over the steps of all
    tasks in any order; Test_Node_Props the properties of all reachable states; Test_Node_Loop
    the tasks of a connection, Test_Node_Main the process that accepts connections; Test_Node_Race the tasks of one broadcast at the grain of
    their shared accesses.
  \<^item> End_To_End: the client calls over a pipe into the read loop of the test node; Pipe_Host
    makes the pipe a host of the programs.
  \<^item> Test_Cli (\<open>qup-test-cli/src/main.rs\<close>): argument check, commands, prompt, follow mode and
    \<open>main\<close> over a console; Test_Cli_Props what they print and that they return.
  \<^item> Embassy_Value, Embassy_Key, Embassy_Utf8, Embassy_Reader, Embassy_Server
    (\<open>qup-embassy/src/lib.rs\<close>): value types (one locale \<open>qup_value\<close> for the trait \<open>QupValue\<close>,
    interpreted for bool, i64, strings and derived enums), keys with their generation and
    signals, the chunked UTF-8 validator, the reader that checks a request while it streams,
    and the server with the sizes \<open>run!\<close> computes. Embassy_Env states the environment: a stream
    in order, and other tasks that may set keys at every await. Embassy_Handle specifies a
    request by response, change of the registry and change of the observation state, and shows
    that the handler refines it. Embassy_Notify characterises a flush by the generations it
    reads. Embassy_Run proves what a turn of the loop does and Embassy_Props what a run does.
  \<^item> Embassy_Link, Embassy_Client: the client calls over a connection into the loop of the embassy
    server. A call delivers the request, lets the loop serve the wake-ups that come before it
    and then the request, and reads the response; the lemmas determine the registry the answer
    is computed from, between the updates of other tasks.
  \<^item> Embassy_Derive (\<open>qup-embassy-proc/src/lib.rs\<close>): which enums the macro accepts and what it
    emits, on the syntax trees of \<open>syn\<close>.
  \<^item> Tui_App, Tui_Props (\<open>qup-test-tui/src/app.rs\<close> and the hit testing of \<open>ui.rs\<close>): the viewer as
    a state machine over network updates and terminal events. Tui_Network (\<open>network.rs\<close>): the
    worker; Tui_Network_Props shows that it serves every notification it has taken, in the locale
    \<open>recorded_worker\<close>, and Tui_Connect connects it to the test node and the viewer. Tui_Draw
    (\<open>ui.rs\<close>, \<open>main.rs\<close>): the widgets and their areas, the terminal modes and the main loop;
    Tui_Dialog relates what is drawn to the effect of a click, and Tui_Loop shows that the main
    loop refines the state machine of Tui_App.

  \<^bold>\<open>What the properties say.\<close> Wire format: frames and messages round trip and nothing else is
  accepted, one corrupted byte is always detected. Nodes: every request gets exactly one
  conforming response, a refused request has no effect, CHANGED is sent only for observed keys,
  the embassy server never loses a notification and never panics, and its run serves the stream
  in order. Client: it returns exactly the next response and skips CHANGED; what it writes to
  the test node is what it reads back; on an embassy server each call takes effect at one
  instant, the key table is listed completely, and a change of an observed key reaches the
  client. Command line tool: what it writes to the node it prints
  again when it reads the key, follow mode prints the values received for its key, one received
  message is one line, and the prompt returns. Viewer: it connects to the node with the whole
  key table, serves every notification it has taken, writes only writable keys, and input meets
  the screen that is drawn. Findings are properties of their own: a CHANGED after the response
  to UNOBSERVE in the test node, a request lost by a wake-up of the embassy server, a key
  reference that is never listed, messages lost by a timeout of the client, notifications
  dropped by a refused write, a doubled write of the viewer, and a terminal left in raw mode.

  \<^bold>\<open>Environment and bounds.\<close> \<open>embassy_library\<close> states the documented behaviour of \<open>heapless\<close>
  strings and of the embassy signal (a signal stays pending until a wait takes it). The outcome
  of \<open>select\<close> is a parameter of each turn: either the request was read, or the wait won and the
  pending read was dropped in some state; runs are considered for every finite number of turns.
  \<open>run!\<close> accepts names and string capacities up to 65535 bytes, of which a KEY response can
  carry names of 65532 and an IDENTIFIED response node IDs of 65533 bytes; the properties of
  the server are stated for those. The programs run on a parameter clock and on timers that may
  fire at any wait; properties that a loop returns are stated for streams that end. Generations
  wrap at 32 bits: a key set exactly \<open>2 ^ 32\<close> times between two flushes is not announced. A client of the embassy server is served whole requests: the loss of a request whose first
  bytes have been read when the notifier wakes the loop is a property of its own.

  \<^bold>\<open>Not modelled.\<close> Sockets and the runtime: connecting gives a stream or an error, and tasks
  are steps in any order. Parameters stand for the parsers of \<open>clap\<close>, \<open>shlex\<close>, \<open>syn\<close> and
  \<open>heck\<close>, for the layout solver of \<open>ratatui\<close>, for the events and operations of \<open>crossterm\<close>, and
  for the character tables of \<open>core\<close>. How \<open>ratatui\<close> renders a widget into cells is not
  modelled, nor are failing writes to the standard output, plain field accessors, tests and
  build scripts.
\<close>

end
